(* ===== verification/Prelude.thy ===== *)
theory Prelude
  imports Main
begin

text \<open>
  Shared vocabulary of the development: the collections of rewrite rules the component
  theories fill, tables of rows addressed by a key (the shape of every SQL query the
  program issues), and the list lemmas the components share.

  A table is the list of its rows.  \<open>find_by\<close> is \<open>SELECT .. WHERE key = k\<close> read with
  \<open>scalar_one_or_none\<close> on a unique key, \<open>update_by\<close> is \<open>UPDATE .. WHERE key = k\<close> and
  \<open>delete_by\<close> is \<open>DELETE .. WHERE key = k\<close>.
\<close>

named_theorems row_simps "lookups and updates of table rows"

section \<open>Tables\<close>

definition find_by :: "('r \<Rightarrow> 'k) \<Rightarrow> 'k \<Rightarrow> 'r list \<Rightarrow> 'r option" where
  "find_by key k rows = List.find (\<lambda>r. key r = k) rows"

definition update_by :: "('r \<Rightarrow> 'k) \<Rightarrow> 'k \<Rightarrow> ('r \<Rightarrow> 'r) \<Rightarrow> 'r list \<Rightarrow> 'r list" where
  "update_by key k f rows = map (\<lambda>r. if key r = k then f r else r) rows"

definition delete_by :: "('r \<Rightarrow> 'k) \<Rightarrow> 'k \<Rightarrow> 'r list \<Rightarrow> 'r list" where
  "delete_by key k rows = filter (\<lambda>r. key r \<noteq> k) rows"

lemma find_by_Nil [simp]: "find_by key k [] = None"
  by (simp add: find_by_def)

lemma find_by_Cons [simp]:
  "find_by key k (r # rows) = (if key r = k then Some r else find_by key k rows)"
  by (simp add: find_by_def)

lemma update_by_Nil [simp]: "update_by key k f [] = []"
  by (simp add: update_by_def)

lemma update_by_Cons [simp]:
  "update_by key k f (r # rows) = (if key r = k then f r else r) # update_by key k f rows"
  by (simp add: update_by_def)

lemma find_by_SomeD:
  assumes "find_by key k rows = Some r"
  shows "r \<in> set rows \<and> key r = k"
proof -
  obtain i where "i < length rows" and "key (rows ! i) = k" and "r = rows ! i"
    using assms unfolding find_by_def find_Some_iff by blast
  then show ?thesis by simp
qed

lemma find_by_key: "find_by key k rows = Some r \<Longrightarrow> key r = k"
  by (rule find_by_SomeD [THEN conjunct2])

lemma find_by_None_iff: "find_by key k rows = None \<longleftrightarrow> k \<notin> key ` set rows"
  by (induction rows) auto

lemma find_by_distinct:
  "distinct (map key rows) \<Longrightarrow> r \<in> set rows \<Longrightarrow> find_by key (key r) rows = Some r"
  by (induction rows) (auto simp: image_iff)

lemma find_by_append:
  "find_by key k (xs @ ys) = (case find_by key k xs of None \<Rightarrow> find_by key k ys | Some r \<Rightarrow> Some r)"
  by (induction xs) auto

lemma find_by_update_same [row_simps]:
  assumes "\<And>r. key (f r) = key r"
  shows "find_by key k (update_by key k f rows) = map_option f (find_by key k rows)"
  using assms by (induction rows) auto

lemma find_by_update_other [row_simps]:
  assumes "\<And>r. key (f r) = key r" and "k \<noteq> k'"
  shows "find_by key k (update_by key k' f rows) = find_by key k rows"
  using assms by (induction rows) auto

lemma map_key_update [row_simps]:
  assumes "\<And>r. g (f r) = g r"
  shows "map g (update_by key k f rows) = map g rows"
  using assms by (induction rows) auto

lemma length_update_by [simp]: "length (update_by key k f rows) = length rows"
  by (simp add: update_by_def)

lemma update_by_absent: "find_by key k rows = None \<Longrightarrow> update_by key k f rows = rows"
  by (induction rows) (auto split: if_splits)

lemma find_by_delete_same [simp]: "find_by key k (delete_by key k rows) = None"
  by (auto simp: find_by_None_iff delete_by_def)

lemma find_by_delete_other:
  "k \<noteq> k' \<Longrightarrow> find_by key k (delete_by key k' rows) = find_by key k rows"
  by (induction rows) (auto simp: delete_by_def)

section \<open>Lists and options\<close>

lemma filter_key_absent: "k \<notin> f ` set xs \<Longrightarrow> filter (\<lambda>x. f x \<noteq> k) xs = xs"
  by (rule filter_True) auto

lemma foldl_invariant:
  assumes "I s" and "\<And>s x. x \<in> set xs \<Longrightarrow> I s \<Longrightarrow> I (step s x)"
  shows "I (foldl step s xs)"
  using assms by (induction xs arbitrary: s) auto

lemma find_by_filter_other:
  assumes "\<And>r. key r = k \<Longrightarrow> P r"
  shows "find_by key k (filter P rows) = find_by key k rows"
  using assms by (induction rows) auto

lemma filter_update_by:
  assumes "\<And>r. P (f r) = P r"
  shows "filter P (update_by key k f rows) = update_by key k f (filter P rows)"
  using assms by (induction rows) auto

lemma length_filter_split:
  assumes "\<And>x. x \<in> set xs \<Longrightarrow> C x \<longleftrightarrow> A x \<or> B x" and "\<And>x. x \<in> set xs \<Longrightarrow> \<not> (A x \<and> B x)"
  shows "length (filter A xs) + length (filter B xs) = length (filter C xs)"
  using assms by (induction xs) auto

end
