(* ===== verification/Stdlib.thy ===== *)
theory Stdlib
  imports Prelude Complex_Main "HOL-Library.Word" "HOL-Library.Char_ord" "HOL-Library.List_Lexorder"
begin

unbundle bit_operations_syntax

text \<open>
  What the program uses of Python's standard library: decimal text of integers,
  \<open>str.strip\<close> and \<open>float\<close> on a header value, \<open>str.encode\<close>, \<open>str.split\<close>/\<open>string.gmatch\<close>
  on a separator, hexadecimal text, and \<open>zlib.crc32\<close>, \<open>hashlib.sha256\<close> and \<open>hmac\<close>.

  A Python \<open>str\<close> is a \<open>string\<close> holding the bytes of its UTF-8 encoding, so \<open>encode\<close> is the
  identity up to the type of a byte.  A Python float is a rational number, an infinity or
  NaN; rounding to 53 bits is not modelled.
\<close>

type_synonym byte = "8 word"
type_synonym u32 = "32 word"

section \<open>Text\<close>

definition encode :: "string \<Rightarrow> byte list" where
  "encode s = map of_char s"

definition digit_char :: "nat \<Rightarrow> char" where
  "digit_char d = (if d < 10 then char_of (48 + d) else char_of (87 + d))"

text \<open>\<open>str(n)\<close> for a non-negative integer, and for any integer.\<close>

fun dec_nat :: "nat \<Rightarrow> string" where
  "dec_nat n = (if n < 10 then [digit_char n] else dec_nat (n div 10) @ [digit_char (n mod 10)])"

declare dec_nat.simps [simp del]

definition str_int :: "int \<Rightarrow> string" where
  "str_int i = (if i < 0 then CHR ''-'' # dec_nat (nat (- i)) else dec_nat (nat i))"

text \<open>The digits of a number in a base, most significant first, padded to a width.\<close>

fun digits_base :: "nat \<Rightarrow> nat \<Rightarrow> nat \<Rightarrow> nat list" where
  "digits_base b 0 n = []"
| "digits_base b (Suc k) n = digits_base b k (n div b) @ [n mod b]"

definition horner :: "nat \<Rightarrow> nat list \<Rightarrow> nat" where
  "horner b ds = foldl (\<lambda>a d. b * a + d) 0 ds"

lemma length_digits_base [simp]: "length (digits_base b k n) = k"
  by (induction k arbitrary: n) auto

lemma digits_base_less: "0 < b \<Longrightarrow> d \<in> set (digits_base b k n) \<Longrightarrow> d < b"
  by (induction k arbitrary: n) auto

lemma horner_digits_base: "0 < b \<Longrightarrow> horner b (digits_base b k n) = n mod b ^ k"
proof (induction k arbitrary: n)
  case 0
  then show ?case by (simp add: horner_def)
next
  case (Suc k)
  have "horner b (digits_base b (Suc k) n) = b * horner b (digits_base b k (n div b)) + n mod b"
    by (simp add: horner_def)
  also have "\<dots> = b * ((n div b) mod b ^ k) + n mod b"
    using Suc by simp
  also have "\<dots> = n mod b ^ Suc k"
    by (simp add: mod_mult2_eq)
  finally show ?case .
qed

definition hex_val :: "char \<Rightarrow> nat option" where
  "hex_val c = (let v = of_char c in
     if 48 \<le> v \<and> v \<le> 57 then Some (v - 48)
     else if 97 \<le> v \<and> v \<le> 102 then Some (v - 87)
     else if 65 \<le> v \<and> v \<le> 70 then Some (v - 55)
     else None)"

lemma hex_val_digit_char [simp]: "d < 16 \<Longrightarrow> hex_val (digit_char d) = Some d"
  by (auto simp: hex_val_def digit_char_def Let_def)

lemma hex_val_sep [simp]: "hex_val (CHR ''-'') = None" "hex_val (CHR ''|'') = None"
  by (simp_all add: hex_val_def Let_def)

lemma digit_char_not_sep:
  "d < 16 \<Longrightarrow> digit_char d \<noteq> CHR ''-''" "d < 16 \<Longrightarrow> digit_char d \<noteq> CHR ''|''"
  by (metis hex_val_digit_char hex_val_sep(1) option.distinct(1),
      metis hex_val_digit_char hex_val_sep(2) option.distinct(1))

lemma dec_nat_digits: "c \<in> set (dec_nat n) \<Longrightarrow> \<exists>d<10. c = digit_char d"
proof (induction n rule: dec_nat.induct)
  case (1 n)
  show ?case
  proof (cases "n < 10")
    case True
    with "1.prems" show ?thesis by (auto simp: dec_nat.simps [of n])
  next
    case False
    with "1.prems" have "c \<in> set (dec_nat (n div 10)) \<or> c = digit_char (n mod 10)"
      by (auto simp: dec_nat.simps [of n])
    moreover have "n mod 10 < 10" by simp
    ultimately show ?thesis using "1.IH" False by blast
  qed
qed

lemma dec_nat_no_bar: "CHR ''|'' \<notin> set (dec_nat n)"
proof
  assume "CHR ''|'' \<in> set (dec_nat n)"
  then obtain d where "d < 10" "CHR ''|'' = digit_char d"
    using dec_nat_digits by blast
  then show False using digit_char_not_sep(2) [of d] by simp
qed

lemma dec_nat_nonempty [simp]: "dec_nat n \<noteq> []"
  by (subst dec_nat.simps) simp

text \<open>
  The decimal value of a digit string, and the fact that \<open>str\<close> is injective: reading
  back the text of a number gives the number.
\<close>

definition dec_value :: "string \<Rightarrow> nat" where
  "dec_value s = horner 10 (map (\<lambda>c. the (hex_val c)) s)"

lemma dec_value_dec_nat [simp]: "dec_value (dec_nat n) = n"
proof (induction n rule: dec_nat.induct)
  case (1 n)
  show ?case
  proof (cases "n < 10")
    case True
    then show ?thesis by (simp add: dec_nat.simps [of n] dec_value_def horner_def)
  next
    case False
    have "dec_value (dec_nat n) = 10 * dec_value (dec_nat (n div 10)) + n mod 10"
      using False by (simp add: dec_nat.simps [of n] dec_value_def horner_def)
    with "1" False show ?thesis by simp
  qed
qed

lemma dec_nat_inject [simp]: "dec_nat m = dec_nat n \<longleftrightarrow> m = n"
  by (metis dec_value_dec_nat)

subsection \<open>Splitting on a separator\<close>

text \<open>
  The maximal runs of characters other than \<open>sep\<close>: what Lua's
  \<open>string.gmatch(s, '[^|]+')\<close> yields for \<open>sep = '|'\<close>.
\<close>

fun runs :: "char \<Rightarrow> string \<Rightarrow> string \<Rightarrow> string list" where
  "runs sep [] cur = (if cur = [] then [] else [cur])"
| "runs sep (c # cs) cur =
     (if c = sep then (if cur = [] then runs sep cs [] else cur # runs sep cs [])
      else runs sep cs (cur @ [c]))"

definition gmatch :: "char \<Rightarrow> string \<Rightarrow> string list" where
  "gmatch sep s = runs sep s []"

text \<open>\<open>sep.join(parts)\<close>.\<close>

fun join :: "string \<Rightarrow> string list \<Rightarrow> string" where
  "join sep [] = []"
| "join sep [x] = x"
| "join sep (x # y # xs) = x @ sep @ join sep (y # xs)"

lemma runs_prefix: "sep \<notin> set p \<Longrightarrow> runs sep (p @ rest) cur = runs sep rest (cur @ p)"
  by (induction p arbitrary: cur) auto

lemma gmatch_join:
  assumes "xs \<noteq> []" and "\<forall>x \<in> set xs. x \<noteq> [] \<and> sep \<notin> set x"
  shows "gmatch sep (join [sep] xs) = xs"
  using assms
proof (induction "[sep]" xs rule: join.induct)
  case 1
  then show ?case by simp
next
  case (2 x)
  then show ?case
    using runs_prefix [of sep x "[]" "[]"] by (simp add: gmatch_def)
next
  case (3 x y xs)
  then show ?case
    using runs_prefix [of sep x "sep # join [sep] (y # xs)" "[]"] by (simp add: gmatch_def)
qed

section \<open>Floats\<close>

datatype pyfloat = Fin rat | PosInf | NegInf | NaN

definition float_lt :: "pyfloat \<Rightarrow> pyfloat \<Rightarrow> bool" where
  "float_lt x y = (case (x, y) of
     (Fin a, Fin b) \<Rightarrow> a < b
   | (NegInf, Fin _) \<Rightarrow> True
   | (NegInf, PosInf) \<Rightarrow> True
   | (Fin _, PosInf) \<Rightarrow> True
   | _ \<Rightarrow> False)"

text \<open>Python's \<open>min(x, y)\<close> keeps the first argument unless the second is strictly smaller.\<close>

definition float_min :: "pyfloat \<Rightarrow> pyfloat \<Rightarrow> pyfloat" where
  "float_min x y = (if float_lt y x then y else x)"

definition is_space :: "char \<Rightarrow> bool" where
  "is_space c = (let v = (of_char c :: nat) in (9 \<le> v \<and> v \<le> 13) \<or> (28 \<le> v \<and> v \<le> 32))"

definition strip :: "string \<Rightarrow> string" where
  "strip s = rev (dropWhile is_space (rev (dropWhile is_space s)))"

definition is_digit :: "char \<Rightarrow> bool" where
  "is_digit c = (let v = (of_char c :: nat) in 48 \<le> v \<and> v \<le> 57)"

definition to_lower :: "char \<Rightarrow> char" where
  "to_lower c = (let v = (of_char c :: nat) in if 65 \<le> v \<and> v \<le> 90 then char_of (v + 32) else c)"

text \<open>
  A run of decimal digits with single underscores between digits, as \<open>float\<close> accepts it:
  the digit values read and the rest of the text.
\<close>

fun digit_run :: "string \<Rightarrow> nat list \<times> string" where
  "digit_run (c # cs) =
     (if is_digit c
      then (let (ds, rest) = (case cs of
               u # c' # cs' \<Rightarrow> (if u = CHR ''_'' \<and> is_digit c' then digit_run (c' # cs') else digit_run cs)
             | _ \<Rightarrow> digit_run cs)
            in ((of_char c - 48) # ds, rest))
      else ([], c # cs))"
| "digit_run [] = ([], [])"

definition read_exponent :: "string \<Rightarrow> int option" where
  "read_exponent s = (case s of
     [] \<Rightarrow> Some 0
   | e # cs \<Rightarrow>
       if to_lower e \<noteq> CHR ''e'' then None
       else let (neg, ds) = (case cs of
                c # cs' \<Rightarrow> if c = CHR ''-'' then (True, cs') else if c = CHR ''+'' then (False, cs') else (False, cs)
              | [] \<Rightarrow> (False, []));
                (digits, rest) = digit_run ds
            in if digits = [] \<or> rest \<noteq> [] then None
               else Some (if neg then - int (horner 10 digits) else int (horner 10 digits)))"

definition scale10 :: "rat \<Rightarrow> int \<Rightarrow> rat" where
  "scale10 x e = (if 0 \<le> e then x * 10 ^ nat e else x / 10 ^ nat (- e))"

definition read_unsigned :: "string \<Rightarrow> pyfloat option" where
  "read_unsigned s =
     (if map to_lower s \<in> {''inf'', ''infinity''} then Some PosInf
      else if map to_lower s = ''nan'' then Some NaN
      else let (ip, rest) = digit_run s;
               (fp, rest') = (case rest of
                   c # cs \<Rightarrow> if c = CHR ''.'' then digit_run cs else ([], rest)
                 | [] \<Rightarrow> ([], []))
           in if ip = [] \<and> fp = [] then None
              else case read_exponent rest' of
                     None \<Rightarrow> None
                   | Some e \<Rightarrow> Some (Fin (scale10 (of_nat (horner 10 (ip @ fp))) (e - int (length fp)))))"

definition float_neg :: "pyfloat \<Rightarrow> pyfloat" where
  "float_neg x = (case x of Fin a \<Rightarrow> Fin (- a) | PosInf \<Rightarrow> NegInf | NegInf \<Rightarrow> PosInf | NaN \<Rightarrow> NaN)"

text \<open>\<open>float(s)\<close>: \<open>None\<close> is the \<open>ValueError\<close>.\<close>

definition read_float :: "string \<Rightarrow> pyfloat option" where
  "read_float s = (case strip s of
     [] \<Rightarrow> None
   | c # cs \<Rightarrow>
       if c = CHR ''-'' then map_option float_neg (read_unsigned cs)
       else if c = CHR ''+'' then read_unsigned cs
       else read_unsigned (c # cs))"

end
