(* ===== verification/Uuid.thy ===== *)
theory Uuid
  imports Digest
begin

text \<open>
  \<open>uuid.UUID\<close>: a 128-bit integer, its sixteen bytes (\<open>.bytes\<close>, big-endian), its canonical
  text (\<open>str\<close>, 8-4-4-4-12 hexadecimal digits) and the constructor that reads that text
  back.  The two facts the rest of the development needs are the round trip
  \<open>UUID(str(u)) = u\<close> and that the text never contains the retry queue's separator.
\<close>

type_synonym uuid = "128 word"

definition uuid_bytes :: "uuid \<Rightarrow> byte list" where
  "uuid_bytes u = map of_nat (digits_base 256 16 (unat u))"

definition uuid_hex :: "uuid \<Rightarrow> string" where
  "uuid_hex u = map digit_char (digits_base 16 32 (unat u))"

definition uuid_str :: "uuid \<Rightarrow> string" where
  "uuid_str u =
     (let h = uuid_hex u
      in take 8 h @ ''-'' @ take 4 (drop 8 h) @ ''-'' @ take 4 (drop 12 h) @ ''-''
         @ take 4 (drop 16 h) @ ''-'' @ drop 20 h)"

text \<open>
  \<open>uuid.UUID(text)\<close>: hyphens are dropped, and 32 hexadecimal digits must remain;
  \<open>None\<close> is the \<open>ValueError\<close>.  The \<open>urn:uuid:\<close> prefix and braces the constructor also
  accepts are never written by the program and are refused here.
\<close>

definition uuid_parse :: "string \<Rightarrow> uuid option" where
  "uuid_parse s =
     (let h = filter (\<lambda>c. c \<noteq> CHR ''-'') s
      in if length h = 32 \<and> list_all (\<lambda>c. hex_val c \<noteq> None) h
         then Some (of_nat (horner 16 (map (\<lambda>c. the (hex_val c)) h)))
         else None)"

lemma length_uuid_hex [simp]: "length (uuid_hex u) = 32"
  by (simp add: uuid_hex_def)

lemma uuid_hex_digit: "c \<in> set (uuid_hex u) \<Longrightarrow> \<exists>d<16. c = digit_char d"
  unfolding uuid_hex_def using digits_base_less [of 16] by auto

lemma uuid_hex_plain:
  assumes "c \<in> set (uuid_hex u)"
  shows "c \<noteq> CHR ''-''" and "c \<noteq> CHR ''|''" and "hex_val c \<noteq> None"
  using uuid_hex_digit [OF assms] digit_char_not_sep by auto

lemma uuid_hex_value: "horner 16 (map (\<lambda>c. the (hex_val c)) (uuid_hex u)) = unat u"
proof -
  have "map (\<lambda>c. the (hex_val c)) (uuid_hex u) = digits_base 16 32 (unat u)"
    unfolding uuid_hex_def map_map by (rule map_idI) (auto dest: digits_base_less [rotated])
  then have "horner 16 (map (\<lambda>c. the (hex_val c)) (uuid_hex u)) = unat u mod 16 ^ 32"
    by (simp only: horner_digits_base zero_less_numeral)
  also have "\<dots> = unat u"
    using unsigned_less [of u, where ?'a = nat] by simp
  finally show ?thesis .
qed

lemma filter_uuid_str: "filter (\<lambda>c. c \<noteq> CHR ''-'') (uuid_str u) = uuid_hex u"
proof -
  have keep: "filter (\<lambda>c. c \<noteq> CHR ''-'') xs = xs" if "set xs \<subseteq> set (uuid_hex u)" for xs
    using that uuid_hex_plain(1) by (intro filter_True) blast
  have sub: "set (take i (drop j (uuid_hex u))) \<subseteq> set (uuid_hex u)"
    "set (drop j (uuid_hex u)) \<subseteq> set (uuid_hex u)" "set (take i (uuid_hex u)) \<subseteq> set (uuid_hex u)" for i j
    using set_take_subset set_drop_subset by fastforce+
  have cut: "take i (drop j xs) @ drop (i + j) xs = drop j xs" for i j and xs :: string
    by (metis append_take_drop_id drop_drop)
  have "filter (\<lambda>c. c \<noteq> CHR ''-'') (uuid_str u) = take 8 (uuid_hex u) @ take 4 (drop 8 (uuid_hex u))
      @ take 4 (drop 12 (uuid_hex u)) @ take 4 (drop 16 (uuid_hex u)) @ drop 20 (uuid_hex u)"
    by (simp add: uuid_str_def Let_def keep [OF sub(1)] keep [OF sub(2)] keep [OF sub(3)])
  also have "\<dots> = uuid_hex u"
    using cut [of 4 16 "uuid_hex u"] cut [of 4 12 "uuid_hex u"] cut [of 4 8 "uuid_hex u"] by simp
  finally show ?thesis .
qed

lemma uuid_parse_str [simp]: "uuid_parse (uuid_str u) = Some u"
  unfolding uuid_parse_def Let_def filter_uuid_str uuid_hex_value
  by (simp add: list_all_iff uuid_hex_plain(3))

lemma uuid_str_inject [simp]: "uuid_str u = uuid_str v \<longleftrightarrow> u = v"
  by (metis option.inject uuid_parse_str)

lemma uuid_str_nonempty [simp]: "uuid_str u \<noteq> []"
  by (simp add: uuid_str_def Let_def)

lemma uuid_str_no_bar: "CHR ''|'' \<notin> set (uuid_str u)"
  unfolding uuid_str_def Let_def using uuid_hex_plain(2)
  by (auto dest!: in_set_takeD in_set_dropD)

end
