(* ===== verification/Redis.thy ===== *)
theory Redis
  imports Uuid "HOL-Library.Product_Lexorder"
begin

text \<open>
  The Redis data types the program uses, as the commands see them: keys with an expiry,
  sorted sets, lists, and streams with one consumer group.  A command is a function from
  the value to its reply and the new value.  Times are seconds on the server's clock.
\<close>

section \<open>Keys with a time to live\<close>

text \<open>A key holds nothing, or a value with an optional absolute expiry time.\<close>

type_synonym 'v rkey = "('v \<times> rat option) option"

definition live :: "rat \<Rightarrow> 'v rkey \<Rightarrow> 'v rkey" where
  "live t k = (case k of
     None \<Rightarrow> None
   | Some (v, None) \<Rightarrow> Some (v, None)
   | Some (v, Some e) \<Rightarrow> if t < e then Some (v, Some e) else None)"

definition key_get :: "rat \<Rightarrow> 'v rkey \<Rightarrow> 'v option" where
  "key_get t k = map_option fst (live t k)"

definition expire :: "rat \<Rightarrow> rat \<Rightarrow> 'v rkey \<Rightarrow> 'v rkey" where
  "expire t d k = map_option (\<lambda>(v, _). (v, Some (t + d))) (live t k)"

text \<open>\<open>SET key value NX PX/EX ttl\<close>: stores only when the key is absent.\<close>

definition set_nx :: "rat \<Rightarrow> 'v \<Rightarrow> rat \<Rightarrow> 'v rkey \<Rightarrow> bool \<times> 'v rkey" where
  "set_nx t v ttl k = (case live t k of
     None \<Rightarrow> (True, Some (v, Some (t + ttl)))
   | Some x \<Rightarrow> (False, Some x))"

lemma live_None [simp]: "live t None = None"
  by (simp add: live_def)

lemma live_no_expiry [simp]: "live t (Some (v, None)) = Some (v, None)"
  by (simp add: live_def)

lemma live_expiry [simp]: "live t (Some (v, Some e)) = (if t < e then Some (v, Some e) else None)"
  by (simp add: live_def)

lemma live_idem [simp]: "live t (live t k) = live t k"
  by (auto simp: live_def split: option.splits)

lemma key_get_None [simp]: "key_get t None = None"
  by (simp add: key_get_def)

lemma key_get_simps [simp]:
  "key_get t (Some (v, None)) = Some v"
  "key_get t (Some (v, Some e)) = (if t < e then Some v else None)"
  by (simp_all add: key_get_def)

lemma live_cases: "live t k = None \<or> (\<exists>v x. k = Some (v, x) \<and> live t k = Some (v, x) \<and> key_get t k = Some v)"
  by (auto simp: live_def key_get_def split: option.splits)

lemma live_later: "t \<le> t' \<Longrightarrow> live t k = None \<Longrightarrow> live t' k = None"
  by (auto simp: live_def split: option.splits if_splits)

section \<open>Sorted sets\<close>

text \<open>
  Members with their scores, kept in Redis's order: by score, then by member.
\<close>

type_synonym 'm zset = "('m \<times> rat) list"

definition zrem :: "'m \<Rightarrow> 'm zset \<Rightarrow> 'm zset" where
  "zrem m z = filter (\<lambda>p. fst p \<noteq> m) z"

definition zadd :: "'m::linorder \<Rightarrow> rat \<Rightarrow> 'm zset \<Rightarrow> 'm zset" where
  "zadd m s z = insort_key (\<lambda>p. (snd p, fst p)) (m, s) (zrem m z)"

definition zscore :: "'m zset \<Rightarrow> 'm \<rightharpoonup> rat" where
  "zscore z = map_of z"

text \<open>\<open>ZREMRANGEBYSCORE key -inf c\<close> and \<open>ZRANGEBYSCORE key -inf c LIMIT 0 n\<close>
  (a negative count means no limit).\<close>

definition zrem_upto :: "rat \<Rightarrow> 'm zset \<Rightarrow> 'm zset" where
  "zrem_upto c z = filter (\<lambda>p. \<not> snd p \<le> c) z"

definition zrange_upto :: "rat \<Rightarrow> int \<Rightarrow> 'm zset \<Rightarrow> 'm list" where
  "zrange_upto c n z =
     (let due = map fst (filter (\<lambda>p. snd p \<le> c) z) in if n < 0 then due else take (nat n) due)"

definition zset_ok :: "'m::linorder zset \<Rightarrow> bool" where
  "zset_ok z \<longleftrightarrow> distinct (map fst z) \<and> sorted (map (\<lambda>p. (snd p, fst p)) z)"

text \<open>
  The contract of a sorted set, over its partial map from members to scores.  Every client
  (the retry queue, the in-flight slots, the breaker's windows) relies on these laws only.
\<close>

locale scored_set =
  fixes ok :: "'z \<Rightarrow> bool"
    and score :: "'z \<Rightarrow> 'm \<Rightarrow> rat option"
    and size_of :: "'z \<Rightarrow> nat"
    and add :: "'m \<Rightarrow> rat \<Rightarrow> 'z \<Rightarrow> 'z"
    and rem :: "'m \<Rightarrow> 'z \<Rightarrow> 'z"
    and trim :: "rat \<Rightarrow> 'z \<Rightarrow> 'z"
  assumes ok_add: "ok z \<Longrightarrow> ok (add m s z)"
    and ok_rem: "ok z \<Longrightarrow> ok (rem m z)"
    and ok_trim: "ok z \<Longrightarrow> ok (trim c z)"
    and score_add: "ok z \<Longrightarrow> score (add m s z) = (score z)(m := Some s)"
    and score_rem: "ok z \<Longrightarrow> score (rem m z) = (score z)(m := None)"
    and score_trim: "ok z \<Longrightarrow> score (trim c z) m = (case score z m of
          None \<Rightarrow> None | Some s \<Rightarrow> if s \<le> c then None else Some s)"
    and finite_score: "ok z \<Longrightarrow> finite (dom (score z))"
    and size_score: "ok z \<Longrightarrow> size_of z = card (dom (score z))"
begin

lemmas laws = ok_add ok_rem ok_trim score_add score_rem score_trim

lemma size_add: "ok z \<Longrightarrow> size_of (add m s z) = (if score z m = None then Suc (size_of z) else size_of z)"
  by (auto simp: size_score ok_add score_add finite_score domIff insert_absorb)

lemma size_rem: "ok z \<Longrightarrow> size_of (rem m z) = (if score z m = None then size_of z else size_of z - 1)"
  by (auto simp: size_score ok_rem score_rem finite_score domIff)

lemma size_trim_le: "ok z \<Longrightarrow> size_of (trim c z) \<le> size_of z"
proof -
  assume z: "ok z"
  have "dom (score (trim c z)) \<subseteq> dom (score z)"
    using z by (auto simp: score_trim dom_def split: option.splits if_splits)
  then show ?thesis using z by (simp add: size_score ok_trim finite_score card_mono)
qed

lemma add_overwrites: "ok z \<Longrightarrow> score (add m s (add m s' z)) = score (add m s z)"
  by (simp add: laws)

lemma rem_after_add: "ok z \<Longrightarrow> score z m = None \<Longrightarrow> score (rem m (add m s z)) = score z"
  by (auto simp: laws)

end

lemma set_zrem: "set (zrem m z) = {p \<in> set z. fst p \<noteq> m}"
  by (simp add: zrem_def)

lemma set_zadd: "set (zadd m s z) = insert (m, s) {p \<in> set z. fst p \<noteq> m}"
  by (simp add: zadd_def set_insort_key set_zrem)

lemma distinct_zrem: "distinct (map fst z) \<Longrightarrow> distinct (map fst (zrem m z))"
  unfolding zrem_def by (rule distinct_map_filter)

lemma zset_ok_Nil [simp]: "zset_ok []"
  by (simp add: zset_ok_def)

lemma distinct_map_insort:
  "distinct (map f (insort_key g x xs)) \<longleftrightarrow> f x \<notin> f ` set xs \<and> distinct (map f xs)"
  by (induction xs) (auto simp: set_insort_key)

lemma zset_ok_zadd: "zset_ok z \<Longrightarrow> zset_ok (zadd m s z)"
proof -
  assume z: "zset_ok z"
  have "distinct (map fst (zadd m s z))"
    using z by (auto simp: zadd_def distinct_map_insort set_zrem zset_ok_def distinct_zrem)
  moreover have "sorted (map (\<lambda>p. (snd p, fst p)) (zadd m s z))"
    using z by (simp add: zadd_def zset_ok_def zrem_def sorted_insort_key sorted_filter)
  ultimately show ?thesis by (simp add: zset_ok_def)
qed

lemma zset_ok_filter: "zset_ok z \<Longrightarrow> zset_ok (filter P z)"
  by (simp add: zset_ok_def distinct_map_filter sorted_filter)

lemma zscore_mem: "distinct (map fst z) \<Longrightarrow> zscore z m = Some s \<longleftrightarrow> (m, s) \<in> set z"
  by (simp add: zscore_def)

lemma zscore_eqI:
  assumes "distinct (map fst z)" and "\<And>m s. (m, s) \<in> set z \<longleftrightarrow> f m = Some s"
  shows "zscore z = f"
proof
  fix m
  have "zscore z m = Some s \<longleftrightarrow> f m = Some s" for s
    using assms(2) [of m s] zscore_mem [OF assms(1), of m s] by blast
  then show "zscore z m = f m"
    by (metis not_Some_eq)
qed

lemma zset_ok_distinct: "zset_ok z \<Longrightarrow> distinct (map fst z)"
  by (simp add: zset_ok_def)

interpretation zs: scored_set zset_ok zscore length zadd zrem zrem_upto
proof unfold_locales
  fix z :: "'m::linorder zset" and m :: 'm and s c :: rat
  assume ok: "zset_ok z"
  note d = zset_ok_distinct [OF ok]
  have zadd_ok: "zset_ok (zadd m s z)" by (rule zset_ok_zadd [OF ok])
  have zrem_ok: "zset_ok (zrem m z)" unfolding zrem_def by (rule zset_ok_filter [OF ok])
  have trim_ok: "zset_ok (zrem_upto c z)" unfolding zrem_upto_def by (rule zset_ok_filter [OF ok])
  show "zset_ok (zadd m s z)" "zset_ok (zrem m z)" "zset_ok (zrem_upto c z)"
    by (fact zadd_ok, fact zrem_ok, fact trim_ok)
  show "zscore (zadd m s z) = (zscore z)(m := Some s)"
    by (rule zscore_eqI [OF zset_ok_distinct [OF zadd_ok]])
      (auto simp: set_zadd zscore_mem [OF d])
  show "zscore (zrem m z) = (zscore z)(m := None)"
    by (rule zscore_eqI [OF zset_ok_distinct [OF zrem_ok]])
      (auto simp: set_zrem zscore_mem [OF d])
  show "zscore (zrem_upto c z) m = (case zscore z m of
      None \<Rightarrow> None | Some s \<Rightarrow> if s \<le> c then None else Some s)"
  proof -
    have "zscore (zrem_upto c z) = (\<lambda>m. case zscore z m of
      None \<Rightarrow> None | Some s \<Rightarrow> if s \<le> c then None else Some s)"
      by (rule zscore_eqI [OF zset_ok_distinct [OF trim_ok]])
        (auto simp: zrem_upto_def zscore_mem [OF d, symmetric] split: option.splits)
    then show ?thesis by simp
  qed
  show "finite (dom (zscore z))" by (simp add: zscore_def finite_dom_map_of)
  show "length z = card (dom (zscore z))"
    using distinct_card [OF d] by (simp add: zscore_def dom_map_of_conv_image_fst)
qed

subsection \<open>Sorted sets under a key\<close>

text \<open>An emptied sorted set's key is gone, and its expiry with it.\<close>

definition zkey_get :: "rat \<Rightarrow> 'm zset rkey \<Rightarrow> 'm zset" where
  "zkey_get t k = (case key_get t k of None \<Rightarrow> [] | Some z \<Rightarrow> z)"

definition zkey_map :: "rat \<Rightarrow> ('m zset \<Rightarrow> 'm zset) \<Rightarrow> 'm zset rkey \<Rightarrow> 'm zset rkey" where
  "zkey_map t f k =
     (let z = f (zkey_get t k)
      in if z = [] then None
         else Some (z, case live t k of None \<Rightarrow> None | Some (_, e) \<Rightarrow> e))"

definition zkey_ok :: "'m::linorder zset rkey \<Rightarrow> bool" where
  "zkey_ok k = (case k of None \<Rightarrow> True | Some (z, _) \<Rightarrow> zset_ok z)"

lemma zkey_get_None [simp]: "zkey_get t None = []"
  by (simp add: zkey_get_def)

lemma zkey_get_map: "zkey_get t (zkey_map t f k) = f (zkey_get t k)"
proof (cases "f (zkey_get t k) = []")
  case True
  then show ?thesis by (simp add: zkey_map_def)
next
  case False
  then show ?thesis
    by (auto simp: zkey_map_def Let_def zkey_get_def live_def split: option.splits if_splits)
qed

lemma zkey_get_expire: "0 < d \<Longrightarrow> zkey_get t (expire t d k) = zkey_get t k"
  by (auto simp: zkey_get_def expire_def key_get_def live_def split: option.splits)

lemma zkey_ok_get: "zkey_ok k \<Longrightarrow> zset_ok (zkey_get t k)"
  by (auto simp: zkey_ok_def zkey_get_def key_get_def live_def split: option.splits if_splits)

lemma zkey_ok_map: "zset_ok (f (zkey_get t k)) \<Longrightarrow> zkey_ok (zkey_map t f k)"
  by (simp add: zkey_map_def zkey_ok_def Let_def)

lemma zkey_ok_expire: "zkey_ok k \<Longrightarrow> zkey_ok (expire t d k)"
  by (auto simp: zkey_ok_def expire_def live_def split: option.splits if_splits)

lemma zkey_ok_None [simp]: "zkey_ok None"
  by (simp add: zkey_ok_def)

end
