(* ===== verification/Streams.thy ===== *)
theory Streams
  imports Redis
begin

text \<open>
  A Redis stream with the one consumer group the workers share.  An entry is outstanding
  from \<open>XADD\<close> until its \<open>XACK\<close>: either no consumer has read it yet, or it sits in the
  group's pending-entries list (PEL), from which \<open>XAUTOCLAIM\<close> hands it to another consumer.
\<close>

section \<open>Stream identifiers\<close>

datatype stream_id = Sid (sid_ms: nat) (sid_seq: nat)

instantiation stream_id :: linorder
begin

definition less_eq_stream_id :: "stream_id \<Rightarrow> stream_id \<Rightarrow> bool" where
  "less_eq_stream_id a b \<longleftrightarrow> sid_ms a < sid_ms b \<or> (sid_ms a = sid_ms b \<and> sid_seq a \<le> sid_seq b)"

definition less_stream_id :: "stream_id \<Rightarrow> stream_id \<Rightarrow> bool" where
  "less_stream_id a b \<longleftrightarrow> sid_ms a < sid_ms b \<or> (sid_ms a = sid_ms b \<and> sid_seq a < sid_seq b)"

instance
proof
  fix a b c :: stream_id
  show "(a < b) = (a \<le> b \<and> \<not> b \<le> a)" "a \<le> a" "a \<le> b \<or> b \<le> a"
    by (auto simp: less_eq_stream_id_def less_stream_id_def)
  show "a \<le> b \<Longrightarrow> b \<le> c \<Longrightarrow> a \<le> c"
    by (auto simp: less_eq_stream_id_def)
  show "a \<le> b \<Longrightarrow> b \<le> a \<Longrightarrow> a = b"
    by (cases a; cases b) (auto simp: less_eq_stream_id_def)
qed

end

section \<open>State and commands\<close>

text \<open>The fields of every entry the program adds.\<close>

record fields =
  f_delivery_id :: string
  f_event_id :: string
  f_endpoint_id :: string

record pel_entry =
  pe_id :: stream_id
  pe_consumer :: string
  pe_time :: rat
  pe_count :: nat

record group =
  g_last :: stream_id
  g_pel :: "pel_entry list"

record stream =
  st_entries :: "(stream_id \<times> fields) list"
  st_last :: stream_id
  st_group :: "group option"

definition empty_stream :: stream where
  "empty_stream = \<lparr>st_entries = [], st_last = Sid 0 0, st_group = None\<rparr>"

definition next_id :: "nat \<Rightarrow> stream_id \<Rightarrow> stream_id" where
  "next_id ms l = (if sid_ms l < ms then Sid ms 0 else Sid (sid_ms l) (Suc (sid_seq l)))"

text \<open>\<open>XADD key * ..\<close> at millisecond \<open>ms\<close> of the server's clock.\<close>

definition xadd :: "nat \<Rightarrow> fields \<Rightarrow> stream \<Rightarrow> stream" where
  "xadd ms f st =
     (let i = next_id ms (st_last st)
      in st\<lparr>st_entries := st_entries st @ [(i, f)], st_last := i\<rparr>)"

text \<open>\<open>XGROUP CREATE key group 0 MKSTREAM\<close>: \<open>None\<close> is the \<open>BUSYGROUP\<close> error.\<close>

definition xgroup_create :: "stream \<Rightarrow> stream option" where
  "xgroup_create st = (case st_group st of
     Some _ \<Rightarrow> None
   | None \<Rightarrow> Some (st\<lparr>st_group := Some \<lparr>g_last = Sid 0 0, g_pel = []\<rparr>\<rparr>))"

text \<open>
  \<open>XREADGROUP .. COUNT 1 STREAMS key >\<close>: the oldest entry no consumer has read; outer
  \<open>None\<close> is the \<open>NOGROUP\<close> error, and no entry means the blocking read timed out.
\<close>

definition xread_new ::
  "string \<Rightarrow> rat \<Rightarrow> stream \<Rightarrow> ((stream_id \<times> fields) list \<times> stream) option" where
  "xread_new consumer t st = (case st_group st of
     None \<Rightarrow> None
   | Some g \<Rightarrow>
       (case List.find (\<lambda>e. g_last g < fst e) (st_entries st) of
          None \<Rightarrow> Some ([], st)
        | Some e \<Rightarrow> Some ([e], st\<lparr>st_group := Some
            \<lparr>g_last = fst e,
             g_pel = g_pel g @ [\<lparr>pe_id = fst e, pe_consumer = consumer, pe_time = t, pe_count = 1\<rparr>]\<rparr>\<rparr>)))"

definition xack :: "stream_id \<Rightarrow> stream \<Rightarrow> stream" where
  "xack i st = (case st_group st of
     None \<Rightarrow> st
   | Some g \<Rightarrow> st\<lparr>st_group := Some (g\<lparr>g_pel := filter (\<lambda>p. pe_id p \<noteq> i) (g_pel g)\<rparr>)\<rparr>)"

text \<open>
  The scan of \<open>XAUTOCLAIM\<close> over the pending list from its start identifier: at most
  \<open>attempts\<close> entries are looked at and at most \<open>count\<close> claimed; an entry the stream no
  longer holds is dropped from the list.  The third result is where the scan stopped.
\<close>

fun claim_scan ::
  "(stream_id \<Rightarrow> fields option) \<Rightarrow> string \<Rightarrow> rat \<Rightarrow> rat \<Rightarrow> nat \<Rightarrow> nat \<Rightarrow> pel_entry list
    \<Rightarrow> (stream_id \<times> fields) list \<times> pel_entry list \<times> stream_id option" where
  "claim_scan entry c t idle a n [] = ([], [], None)"
| "claim_scan entry c t idle 0 n (p # ps) = ([], p # ps, Some (pe_id p))"
| "claim_scan entry c t idle a 0 (p # ps) = ([], p # ps, Some (pe_id p))"
| "claim_scan entry c t idle (Suc a) (Suc n) (p # ps) = (case entry (pe_id p) of
     None \<Rightarrow> claim_scan entry c t idle a n ps
   | Some f \<Rightarrow>
       if (t - pe_time p) * 1000 < idle
       then (case claim_scan entry c t idle a (Suc n) ps of (ms, qs, cur) \<Rightarrow> (ms, p # qs, cur))
       else (case claim_scan entry c t idle a n ps of (ms, qs, cur) \<Rightarrow>
         ((pe_id p, f) # ms,
          p\<lparr>pe_consumer := c, pe_time := t, pe_count := Suc (pe_count p)\<rparr> # qs, cur)))"

text \<open>
  \<open>XAUTOCLAIM key group consumer min-idle start COUNT n\<close>: the cursor to continue from
  (\<open>0-0\<close> when the list is exhausted) and the claimed entries; \<open>None\<close> is \<open>NOGROUP\<close>.
\<close>

definition xautoclaim ::
  "string \<Rightarrow> rat \<Rightarrow> rat \<Rightarrow> stream_id \<Rightarrow> nat \<Rightarrow> stream
    \<Rightarrow> (stream_id \<times> (stream_id \<times> fields) list \<times> stream) option" where
  "xautoclaim c t idle start n st = (case st_group st of
     None \<Rightarrow> None
   | Some g \<Rightarrow>
       (case claim_scan (map_of (st_entries st)) c t idle (10 * n) n
               (filter (\<lambda>p. start \<le> pe_id p) (g_pel g)) of
          (ms, qs, cur) \<Rightarrow>
            Some (case cur of None \<Rightarrow> Sid 0 0 | Some i \<Rightarrow> i, ms,
                  st\<lparr>st_group := Some (g\<lparr>g_pel := filter (\<lambda>p. \<not> start \<le> pe_id p) (g_pel g) @ qs\<rparr>)\<rparr>)))"

section \<open>Well-formed streams and outstanding entries\<close>

definition entry_ids :: "stream \<Rightarrow> stream_id set" where
  "entry_ids st = fst ` set (st_entries st)"

definition pel_ids :: "group \<Rightarrow> stream_id set" where
  "pel_ids g = pe_id ` set (g_pel g)"

definition group_ok :: "stream \<Rightarrow> group \<Rightarrow> bool" where
  "group_ok st g \<longleftrightarrow> pel_ids g \<subseteq> {i \<in> entry_ids st. i \<le> g_last g} \<and> g_last g \<le> st_last st"

definition stream_ok :: "stream \<Rightarrow> bool" where
  "stream_ok st \<longleftrightarrow>
     sorted_wrt (<) (map fst (st_entries st)) \<and> entry_ids st \<subseteq> {..st_last st} \<and>
     (case st_group st of None \<Rightarrow> True | Some g \<Rightarrow> group_ok st g)"

definition outstanding :: "stream \<Rightarrow> stream_id set" where
  "outstanding st = (case st_group st of
     None \<Rightarrow> entry_ids st
   | Some g \<Rightarrow> {i \<in> entry_ids st. g_last g < i} \<union> pel_ids g)"

lemma entry_ids_group [simp]: "entry_ids (st\<lparr>st_group := x\<rparr>) = entry_ids st"
  by (simp add: entry_ids_def)

lemma group_ok_update [simp]: "group_ok (st\<lparr>st_group := x\<rparr>) g = group_ok st g"
  by (simp add: group_ok_def)

lemma stream_ok_group:
  "stream_ok st \<Longrightarrow> group_ok st g \<Longrightarrow> stream_ok (st\<lparr>st_group := Some g\<rparr>)"
  by (simp add: stream_ok_def)

lemma stream_okD:
  assumes "stream_ok st"
  shows "sorted_wrt (<) (map fst (st_entries st))" and "i \<in> entry_ids st \<Longrightarrow> i \<le> st_last st"
    and "st_group st = Some g \<Longrightarrow> group_ok st g"
  using assms by (auto simp: stream_ok_def)

lemma Sid_0_le [simp]: "Sid 0 0 \<le> i"
  by (cases i) (auto simp: less_eq_stream_id_def)

lemma next_id_greater: "l < next_id ms l"
  by (cases l) (auto simp: next_id_def less_stream_id_def)

lemma claim_scan_pel:
  assumes "\<And>p. p \<in> set ps \<Longrightarrow> entry (pe_id p) \<noteq> None"
    and "claim_scan entry c t idle a n ps = (ms, qs, cur)"
  shows "map pe_id qs = map pe_id ps"
  using assms
proof (induction entry c t idle a n ps arbitrary: ms qs cur rule: claim_scan.induct)
  case (4 entry c t idle a n p ps)
  then show ?case
    by (fastforce split: option.splits if_splits prod.splits)
qed auto

lemma claim_scan_claimed:
  assumes "claim_scan entry c t idle a n ps = (ms, qs, cur)"
  shows "fst ` set ms \<subseteq> pe_id ` set ps" and "\<forall>m \<in> set ms. entry (fst m) = Some (snd m)"
  using assms
proof (induction entry c t idle a n ps arbitrary: ms qs cur rule: claim_scan.induct)
  case (4 entry c t idle a n p ps)
  {
    case 1
    with "4" show ?case by (fastforce split: option.splits if_splits prod.splits)
  next
    case 2
    with "4" show ?case by (fastforce split: option.splits if_splits prod.splits)
  }
qed auto

lemma stream_ok_empty [simp]: "stream_ok empty_stream"
  by (simp add: stream_ok_def empty_stream_def entry_ids_def)

lemma entry_ids_xadd: "entry_ids (xadd ms f st) = insert (next_id ms (st_last st)) (entry_ids st)"
  by (auto simp: entry_ids_def xadd_def Let_def)

lemma xadd_fields [simp]:
  "st_last (xadd ms f st) = next_id ms (st_last st)" "st_group (xadd ms f st) = st_group st"
  by (simp_all add: xadd_def Let_def)

lemma stream_ok_xadd:
  assumes ok: "stream_ok st"
  shows "stream_ok (xadd ms f st)"
proof -
  let ?n = "next_id ms (st_last st)"
  have less: "i < ?n" if "i \<le> st_last st" for i
    using that next_id_greater by (rule order.strict_trans1)
  have ids: "i < ?n" if "i \<in> entry_ids st" for i
    using stream_okD(2) [OF ok that] by (rule less)
  have "sorted_wrt (<) (map fst (st_entries (xadd ms f st)))"
    using stream_okD(1) [OF ok] ids by (auto simp: xadd_def Let_def sorted_wrt_append entry_ids_def)
  moreover have "entry_ids (xadd ms f st) \<subseteq> {..?n}"
    using ids by (auto simp: entry_ids_xadd less_imp_le)
  moreover have "group_ok (xadd ms f st) g" if "st_group st = Some g" for g
    using stream_okD(3) [OF ok that] less by (auto simp: group_ok_def entry_ids_xadd less_imp_le)
  ultimately show ?thesis by (auto simp: stream_ok_def split: option.splits)
qed

lemma outstanding_xadd:
  assumes ok: "stream_ok st"
  shows "outstanding (xadd ms f st) = insert (next_id ms (st_last st)) (outstanding st)"
proof -
  have "g_last g < next_id ms (st_last st)" if "st_group st = Some g" for g
    using stream_okD(3) [OF ok that] next_id_greater [of "st_last st" ms]
    by (auto simp: group_ok_def intro: order.strict_trans1)
  then show ?thesis
    by (auto simp: outstanding_def entry_ids_xadd split: option.splits)
qed

lemma stream_ok_xgroup: "stream_ok st \<Longrightarrow> xgroup_create st = Some st' \<Longrightarrow> stream_ok st'"
  by (auto simp: xgroup_create_def group_ok_def pel_ids_def intro: stream_ok_group split: option.splits)

lemma find_sorted_least:
  fixes xs :: "('i::linorder \<times> 'v) list"
  assumes "sorted_wrt (<) (map fst xs)" and "List.find (\<lambda>e. l < fst e) xs = Some e"
  shows "e \<in> set xs \<and> l < fst e \<and> (\<forall>x \<in> set xs. l < fst x \<longrightarrow> fst e \<le> fst x)"
  using assms by (induction xs) (auto split: if_splits intro: less_imp_le)

lemma xread_new_cases:
  assumes ok: "stream_ok st" and r: "xread_new c t st = Some (ms, st')"
  obtains g where "st_group st = Some g" and "st' = st" and "ms = []"
  | g e p where "st_group st = Some g" and "e \<in> set (st_entries st)" and "ms = [e]"
    and "g_last g < fst e" and "\<forall>i \<in> entry_ids st. g_last g < i \<longrightarrow> fst e \<le> i"
    and "pe_id p = fst e" and "st' = st\<lparr>st_group := Some \<lparr>g_last = fst e, g_pel = g_pel g @ [p]\<rparr>\<rparr>"
proof -
  obtain g where g: "st_group st = Some g"
    using r by (auto simp: xread_new_def split: option.splits)
  show ?thesis
  proof (cases "List.find (\<lambda>e. g_last g < fst e) (st_entries st)")
    case None
    then have "st' = st" and "ms = []" using r g by (simp_all add: xread_new_def)
    then show ?thesis by (rule that(1) [OF g])
  next
    case (Some e)
    then have "e \<in> set (st_entries st) \<and> g_last g < fst e \<and>
        (\<forall>x \<in> set (st_entries st). g_last g < fst x \<longrightarrow> fst e \<le> fst x)"
      using find_sorted_least stream_okD(1) [OF ok] by blast
    with Some r g show ?thesis
      by (intro that(2) [of g e "\<lparr>pe_id = fst e, pe_consumer = c, pe_time = t, pe_count = 1\<rparr>"])
        (simp_all add: xread_new_def entry_ids_def)
  qed
qed

lemma stream_ok_xread:
  assumes "stream_ok st" and "xread_new c t st = Some (ms, st')"
  shows "stream_ok st'"
  using assms
proof (rule xread_new_cases)
  fix g e p
  assume g: "st_group st = Some g" "e \<in> set (st_entries st)" "g_last g < fst e" "pe_id p = fst e"
    and st': "st' = st\<lparr>st_group := Some \<lparr>g_last = fst e, g_pel = g_pel g @ [p]\<rparr>\<rparr>"
  have "fst e \<in> entry_ids st" using g by (simp add: entry_ids_def)
  then show ?thesis
    unfolding st' using g stream_okD(3) [OF assms(1) g(1)] stream_okD(2) [OF assms(1)]
    by (intro stream_ok_group [OF assms(1)]) (fastforce simp: group_ok_def pel_ids_def)
qed (use assms in simp)

lemma outstanding_xread:
  assumes "stream_ok st" and "xread_new c t st = Some (ms, st')"
  shows "outstanding st' = outstanding st"
  using assms
proof (rule xread_new_cases)
  fix g e p
  assume g: "st_group st = Some g" "e \<in> set (st_entries st)" "g_last g < fst e" "pe_id p = fst e"
    "\<forall>i \<in> entry_ids st. g_last g < i \<longrightarrow> fst e \<le> i"
    and st': "st' = st\<lparr>st_group := Some \<lparr>g_last = fst e, g_pel = g_pel g @ [p]\<rparr>\<rparr>"
  have "fst e \<in> entry_ids st" using g by (simp add: entry_ids_def)
  have cut: "i \<in> entry_ids st \<and> g_last g < i \<longleftrightarrow> i = fst e \<or> i \<in> entry_ids st \<and> fst e < i" for i
  proof
    assume "i \<in> entry_ids st \<and> g_last g < i"
    moreover from this have "fst e \<le> i" using g(5) by blast
    ultimately show "i = fst e \<or> i \<in> entry_ids st \<and> fst e < i" by (metis le_less)
  next
    assume "i = fst e \<or> i \<in> entry_ids st \<and> fst e < i"
    then show "i \<in> entry_ids st \<and> g_last g < i"
      using \<open>fst e \<in> entry_ids st\<close> g(3) less_trans by blast
  qed
  have "outstanding st = insert (fst e) {i \<in> entry_ids st. fst e < i} \<union> pel_ids g"
    using g(1) by (simp only: outstanding_def option.case cut) blast
  then show ?thesis
    using g(1,4) by (simp add: st' outstanding_def pel_ids_def)
qed simp

lemma stream_ok_xack: "stream_ok st \<Longrightarrow> stream_ok (xack i st)"
proof -
  assume ok: "stream_ok st"
  have "stream_ok (st\<lparr>st_group := Some (g\<lparr>g_pel := filter (\<lambda>p. pe_id p \<noteq> i) (g_pel g)\<rparr>)\<rparr>)"
    if "st_group st = Some g" for g
    using stream_okD(3) [OF ok that] by (intro stream_ok_group [OF ok]) (auto simp: group_ok_def pel_ids_def)
  with ok show ?thesis by (auto simp: xack_def split: option.splits)
qed

lemma outstanding_xack_other: "j \<noteq> i \<Longrightarrow> j \<in> outstanding (xack i st) \<longleftrightarrow> j \<in> outstanding st"
  by (auto simp: outstanding_def xack_def pel_ids_def split: option.splits)

lemma xautoclaim_ids:
  assumes ok: "stream_ok st" and r: "xautoclaim c t idle s n st = Some (cur, ms, st')"
  obtains g g' where "st_group st = Some g" and "st' = st\<lparr>st_group := Some g'\<rparr>"
    and "g_last g' = g_last g" and "pel_ids g' = pel_ids g"
proof -
  obtain g where g: "st_group st = Some g"
    using r by (auto simp: xautoclaim_def split: option.splits)
  obtain qs cur' where sc: "claim_scan (map_of (st_entries st)) c t idle (10 * n) n
      (filter (\<lambda>p. s \<le> pe_id p) (g_pel g)) = (ms, qs, cur')"
    and st': "st' = st\<lparr>st_group := Some (g\<lparr>g_pel := filter (\<lambda>p. \<not> s \<le> pe_id p) (g_pel g) @ qs\<rparr>)\<rparr>"
    using r g by (auto simp: xautoclaim_def split: prod.splits)
  have "map_of (st_entries st) (pe_id p) \<noteq> None"
    if "p \<in> set (filter (\<lambda>p. s \<le> pe_id p) (g_pel g))" for p
    using stream_okD(3) [OF ok g] that
    by (auto simp: group_ok_def pel_ids_def entry_ids_def map_of_eq_None_iff)
  then have "map pe_id qs = map pe_id (filter (\<lambda>p. s \<le> pe_id p) (g_pel g))"
    using claim_scan_pel [OF _ sc] by blast
  then have "pe_id ` set qs = pe_id ` {p \<in> set (g_pel g). s \<le> pe_id p}"
    by (metis list.set_map set_filter)
  then have "pel_ids (g\<lparr>g_pel := filter (\<lambda>p. \<not> s \<le> pe_id p) (g_pel g) @ qs\<rparr>) = pel_ids g"
    by (auto simp: pel_ids_def image_Un)
  then show ?thesis using that [OF g st'] by simp
qed

lemma stream_ok_xautoclaim:
  assumes "stream_ok st" and "xautoclaim c t idle s n st = Some (cur, ms, st')"
  shows "stream_ok st'"
  using assms
  by (rule xautoclaim_ids) (auto simp: group_ok_def intro!: stream_ok_group assms(1) dest: stream_okD(3) [OF assms(1)])

lemma outstanding_xautoclaim:
  assumes "stream_ok st" and "xautoclaim c t idle s n st = Some (cur, ms, st')"
  shows "outstanding st' = outstanding st"
  using assms by (rule xautoclaim_ids) (simp add: outstanding_def)

end
