(* ===== verification/Json.thy ===== *)
theory Json
  imports Stdlib
begin

text \<open>
  JSON values as the program holds them (a Python \<open>dict\<close> parsed from a request body) and
  \<open>json.dumps(.., separators=(",", ":"), sort_keys=True)\<close>.  Text is a list of Unicode code
  points; a float is kept as the text \<open>repr\<close> gives it.
\<close>

type_synonym utext = "nat list"

definition ascii :: "string \<Rightarrow> utext" where "ascii s = map of_char s"

datatype json =
    JNull
  | JBool bool
  | JInt int
  | JFloat string
  | JStr utext
  | JArr "json list"
  | JObj "(utext \<times> json) list"

type_synonym dict = "(utext \<times> json) list"

definition jdict :: "(string \<times> json) list \<Rightarrow> dict" where
  "jdict kvs = map (\<lambda>(k, v). (ascii k, v)) kvs"

text \<open>\<open>d[k] = v\<close> on a dictionary, which keeps the place of a key it has.\<close>

fun dict_set :: "utext \<Rightarrow> json \<Rightarrow> dict \<Rightarrow> dict" where
  "dict_set k v [] = [(k, v)]"
| "dict_set k v ((k', v') # kvs) = (if k' = k then (k, v) # kvs else (k', v') # dict_set k v kvs)"

lemma map_of_dict_set: "map_of (dict_set k v kvs) k' = (if k' = k then Some v else map_of kvs k')"
  by (induction k v kvs rule: dict_set.induct) auto

lemma dict_set_new: "k \<notin> fst ` set kvs \<Longrightarrow> dict_set k v kvs = kvs @ [(k, v)]"
  by (induction k v kvs rule: dict_set.induct) auto

definition hex4 :: "nat \<Rightarrow> string" where
  "hex4 n = [CHR 0x5C, CHR ''u''] @ map digit_char (digits_base 16 4 n)"

text \<open>The \<open>ensure_ascii\<close> escapes: what is not printable ASCII becomes a four-digit hexadecimal escape, beyond the
  basic plane a surrogate pair.\<close>

definition escape_point :: "nat \<Rightarrow> string" where
  "escape_point c =
     (if c = 34 then [CHR 0x5C, CHR 0x22]
      else if c = 92 then [CHR 0x5C, CHR 0x5C]
      else if c = 10 then [CHR 0x5C, CHR ''n'']
      else if c = 13 then [CHR 0x5C, CHR ''r'']
      else if c = 9 then [CHR 0x5C, CHR ''t'']
      else if c = 12 then [CHR 0x5C, CHR ''f'']
      else if c = 8 then [CHR 0x5C, CHR ''b'']
      else if 32 \<le> c \<and> c \<le> 126 then [char_of c]
      else if c < 65536 then hex4 c
      else hex4 (55296 + (c - 65536) div 1024) @ hex4 (56320 + (c - 65536) mod 1024))"

definition dump_str :: "utext \<Rightarrow> string" where
  "dump_str s = [CHR 0x22] @ concat (map escape_point s) @ [CHR 0x22]"

text \<open>\<open>json.dumps\<close> with its two separators and \<open>sort_keys\<close>; the floats print as Python does.\<close>

fun dumps_as :: "string \<Rightarrow> string \<Rightarrow> bool \<Rightarrow> json \<Rightarrow> string" where
  "dumps_as isep ksep srt JNull = ''null''"
| "dumps_as isep ksep srt (JBool b) = (if b then ''true'' else ''false'')"
| "dumps_as isep ksep srt (JInt i) = str_int i"
| "dumps_as isep ksep srt (JFloat r) = r"
| "dumps_as isep ksep srt (JStr s) = dump_str s"
| "dumps_as isep ksep srt (JArr xs) = ''['' @ join isep (map (dumps_as isep ksep srt) xs) @ '']''"
| "dumps_as isep ksep srt (JObj kvs) =
     ''{'' @ join isep (map snd
       (if srt then sort_key fst (map (\<lambda>(k, v). (k, dump_str k @ ksep @ dumps_as isep ksep srt v)) kvs)
        else map (\<lambda>(k, v). (k, dump_str k @ ksep @ dumps_as isep ksep srt v)) kvs)) @ ''}''"

definition dumps :: "json \<Rightarrow> string" where
  "dumps j = dumps_as '','' '':'' True j"

lemma sort_key_eq_of_set:
  fixes xs ys :: "('k::linorder \<times> 'v) list"
  assumes "distinct (map fst xs)" and "distinct (map fst ys)" and "set xs = set ys"
  shows "sort_key fst xs = sort_key fst ys"
proof (rule map_sorted_distinct_set_unique [where f = fst])
  show "inj_on fst (set (sort_key fst xs) \<union> set (sort_key fst ys))"
    using assms by (simp add: distinct_map)
  show "distinct (map fst (sort_key fst xs))" "distinct (map fst (sort_key fst ys))"
    using assms by (simp_all add: distinct_map)
qed (use assms in simp_all)

text \<open>Two objects are the same \<open>dict\<close> when they bind the same keys to the same values.\<close>

lemma dumps_order_irrelevant:
  assumes "distinct (map fst kvs)" and "distinct (map fst kvs')" and "set kvs = set kvs'"
  shows "dumps (JObj kvs) = dumps (JObj kvs')"
proof -
  let ?f = "\<lambda>(k, v). (k, dump_str k @ '':'' @ dumps_as '','' '':'' True v)"
  have keys: "map fst (map ?f xs) = map fst xs" for xs :: "(utext \<times> json) list"
    by (simp add: case_prod_beta comp_def)
  have "sort_key fst (map ?f kvs) = sort_key fst (map ?f kvs')"
    using assms by (intro sort_key_eq_of_set) (simp_all only: keys set_map)
  then show ?thesis by (simp add: dumps_def)
qed

end
