(* ===== verification/Retry.thy ===== *)
theory Retry
  imports Config
begin

text \<open>
  The retry policy (\<open>relay/delivery/retry.py\<close>): which failures may be retried, how often,
  and how long to wait.  Pure functions; the random draw of the jitter is an argument in
  \<open>[0, 1)\<close>, and a delay is a Python float, because a parsed \<open>Retry-After\<close> may be any float.
\<close>

section \<open>The policy\<close>

definition BACKOFF_SCHEDULE :: "int \<rightharpoonup> int" where
  "BACKOFF_SCHEDULE = map_of
     [(1, 5), (2, 30), (3, 2 * 60), (4, 10 * 60), (5, 30 * 60), (6, 2 * 60 * 60), (7, 5 * 60 * 60)]"

definition JITTER_MIN :: rat where "JITTER_MIN = 8 / 10"

definition JITTER_MAX :: rat where "JITTER_MAX = 12 / 10"

definition TERMINAL_4XX_MAX_ATTEMPTS :: int where "TERMINAL_4XX_MAX_ATTEMPTS = 3"

definition RETRY_AFTER_CAP_SECONDS :: int where "RETRY_AFTER_CAP_SECONDS = 60 * 60"

definition RETRYABLE_4XX :: "int set" where "RETRYABLE_4XX = {408, 429}"

definition is_terminal_status :: "int option \<Rightarrow> bool" where
  "is_terminal_status http_status = (case http_status of
     None \<Rightarrow> False
   | Some s \<Rightarrow> 400 \<le> s \<and> s < 500 \<and> s \<notin> RETRYABLE_4XX)"

definition max_attempts_for :: "int option \<Rightarrow> int \<Rightarrow> int" where
  "max_attempts_for http_status configured_max =
     (if is_terminal_status http_status then min TERMINAL_4XX_MAX_ATTEMPTS configured_max
      else configured_max)"

text \<open>\<open>random.uniform(a, b)\<close> is \<open>a + (b - a) * random()\<close>.\<close>

definition uniform :: "rat \<Rightarrow> rat \<Rightarrow> rat \<Rightarrow> rat" where
  "uniform a b u = a + (b - a) * u"

definition apply_jitter :: "rat \<Rightarrow> rat \<Rightarrow> rat" where
  "apply_jitter delay u = delay * uniform JITTER_MIN JITTER_MAX u"

definition parse_retry_after :: "string option \<Rightarrow> pyfloat option" where
  "parse_retry_after value = (case value of
     None \<Rightarrow> None
   | Some v \<Rightarrow>
       if v = '''' then None
       else (case read_float v of
               None \<Rightarrow> None
             | Some seconds \<Rightarrow>
                 if float_lt seconds (Fin 0) then None
                 else Some (float_min seconds (Fin (of_int RETRY_AFTER_CAP_SECONDS)))))"

definition next_delay_seconds ::
  "int \<Rightarrow> int option \<Rightarrow> string option \<Rightarrow> int \<Rightarrow> rat \<Rightarrow> pyfloat option" where
  "next_delay_seconds attempt_number http_status retry_after configured_max u =
     (if attempt_number \<ge> max_attempts_for http_status configured_max then None
      else case (if http_status = Some 429 then parse_retry_after retry_after else None) of
             Some explicit \<Rightarrow> Some explicit
           | None \<Rightarrow>
               (case BACKOFF_SCHEDULE attempt_number of
                  None \<Rightarrow> None
                | Some base \<Rightarrow> Some (Fin (apply_jitter (of_int base) u))))"

section \<open>Facts about the policy\<close>

lemma backoff_cases:
  "BACKOFF_SCHEDULE n = Some b \<longleftrightarrow>
     (n, b) \<in> {(1, 5), (2, 30), (3, 120), (4, 600), (5, 1800), (6, 7200), (7, 18000)}"
  by (auto simp: BACKOFF_SCHEDULE_def split: if_splits)

lemma backoff_dom: "BACKOFF_SCHEDULE n = None \<longleftrightarrow> n < 1 \<or> 7 < n"
  by (auto simp: BACKOFF_SCHEDULE_def)

lemma jitter_bounds:
  assumes "0 \<le> d" and "0 \<le> u" and "u \<le> 1"
  shows "d * JITTER_MIN \<le> apply_jitter d u" and "apply_jitter d u \<le> d * JITTER_MAX"
proof -
  have "JITTER_MIN \<le> uniform JITTER_MIN JITTER_MAX u" "uniform JITTER_MIN JITTER_MAX u \<le> JITTER_MAX"
    using assms(2,3) by (simp_all add: uniform_def JITTER_MIN_def JITTER_MAX_def)
  then show "d * JITTER_MIN \<le> apply_jitter d u" "apply_jitter d u \<le> d * JITTER_MAX"
    using assms(1) by (simp_all add: apply_jitter_def mult_left_mono)
qed

lemma parse_retry_after_range:
  "parse_retry_after v = Some x \<Longrightarrow> x = NaN \<or> (\<exists>s. x = Fin s \<and> 0 \<le> s \<and> s \<le> 3600)"
  by (auto simp: parse_retry_after_def float_min_def float_lt_def RETRY_AFTER_CAP_SECONDS_def
      split: option.splits if_splits pyfloat.splits)

text \<open>
  What a client of a retry policy relies on: past its limit the policy gives up.  Inside,
  \<open>delay n o\<close> is the policy's answer to the failure \<open>o\<close> of attempt \<open>n\<close>.
\<close>

locale retry_policy =
  fixes delay :: "int \<Rightarrow> 'o \<Rightarrow> 'd option" and limit :: int
  assumes gives_up: "limit \<le> n \<Longrightarrow> delay n o' = None"
begin

text \<open>A delivery all of whose attempts fail is given up at some attempt, the first one
  included, and not after the limit.\<close>

lemma eventually_gives_up:
  assumes start: "1 \<le> limit"
  shows "\<exists>k. 1 \<le> k \<and> k \<le> limit \<and> delay k (f k) = None \<and> (\<forall>j. 1 \<le> j \<longrightarrow> j < k \<longrightarrow> delay j (f j) \<noteq> None)"
proof -
  let ?P = "\<lambda>n. delay (1 + int n) (f (1 + int n)) = None"
  have P: "?P (nat (limit - 1))" using start by (simp add: gives_up)
  define m where "m = (LEAST n. ?P n)"
  have m: "?P m" "m \<le> nat (limit - 1)"
    unfolding m_def by (rule LeastI [of ?P, OF P], rule Least_le [of ?P, OF P])
  have before: "delay j (f j) \<noteq> None" if j: "1 \<le> j" "j < 1 + int m" for j
  proof
    assume "delay j (f j) = None"
    then have "?P (nat (j - 1))" using j by simp
    then have "m \<le> nat (j - 1)" unfolding m_def by (rule Least_le)
    then show False using j by linarith
  qed
  show ?thesis
    using m before start by (intro exI [of _ "1 + int m"]) auto
qed

end

interpretation policy: retry_policy
  "\<lambda>n (status, ra, u). next_delay_seconds n status ra cfg u" cfg for cfg
proof unfold_locales
  fix n :: int and o' :: "int option \<times> string option \<times> rat"
  assume n: "cfg \<le> n"
  obtain status ra u where o': "o' = (status, ra, u)" by (rule prod_cases3)
  have "max_attempts_for status cfg \<le> n"
    using n by (auto simp: max_attempts_for_def min_def)
  then show "(case o' of (status, ra, u) \<Rightarrow> next_delay_seconds n status ra cfg u) = None"
    by (simp add: o' next_delay_seconds_def)
qed

section \<open>Properties\<close>

text \<open>C30: Every delay the policy returns for a failed attempt is either the jittered backoff of that
  attempt, within 0.8 and 1.2 of its scheduled base, or the receiver's \<open>Retry-After\<close> on a 429,
  a value between 0 and one hour (or NaN); and it is only given while the attempt budget
  of the status is not used up.\<close>

theorem next_delay_range:
  assumes "next_delay_seconds n status ra cfg u = Some x" and "0 \<le> u" and "u \<le> 1"
  shows "n < max_attempts_for status cfg \<and>
    ((\<exists>base d. BACKOFF_SCHEDULE n = Some base \<and> x = Fin d \<and>
        of_int base * JITTER_MIN \<le> d \<and> d \<le> of_int base * JITTER_MAX) \<or>
     (status = Some 429 \<and> parse_retry_after ra = Some x \<and>
        (x = NaN \<or> (\<exists>s. x = Fin s \<and> 0 \<le> s \<and> s \<le> 3600))))"
proof -
  have n: "n < max_attempts_for status cfg"
    using assms(1) by (auto simp: next_delay_seconds_def split: if_splits)
  have pos: "(0::rat) \<le> of_int base" if "BACKOFF_SCHEDULE n = Some base" for base
    using that by (auto simp: backoff_cases)
  show ?thesis
  proof (cases "if status = Some 429 then parse_retry_after ra else None")
    case None
    with assms(1) n obtain base where "BACKOFF_SCHEDULE n = Some base"
      and "x = Fin (apply_jitter (of_int base) u)"
      by (auto simp: next_delay_seconds_def split: option.splits)
    then show ?thesis using n jitter_bounds [OF pos assms(2,3)] by blast
  next
    case (Some e)
    with assms(1) n have "x = e" by (simp add: next_delay_seconds_def)
    with Some n show ?thesis using parse_retry_after_range [of ra e] by (auto split: if_splits)
  qed
qed

theorem next_delay_range_witness:
  "(1::int) < max_attempts_for (Some 500) 7 \<and>
   ((\<exists>base d. BACKOFF_SCHEDULE 1 = Some base \<and> Fin 5 = Fin d \<and>
       of_int base * JITTER_MIN \<le> d \<and> d \<le> of_int base * JITTER_MAX) \<or>
    (Some (500::int) = Some 429 \<and> parse_retry_after None = Some (Fin 5) \<and>
       (Fin 5 = NaN \<or> (\<exists>s. Fin 5 = Fin s \<and> 0 \<le> s \<and> s \<le> 3600))))"
proof (rule next_delay_range [where u = "1 / 2"])
  show "next_delay_seconds 1 (Some 500) None 7 (1 / 2) = Some (Fin 5)"
    by (simp add: next_delay_seconds_def max_attempts_for_def is_terminal_status_def
        BACKOFF_SCHEDULE_def apply_jitter_def uniform_def JITTER_MIN_def JITTER_MAX_def)
qed simp_all

text \<open>A delivery is given up exactly when the attempt that failed is the last one its status is
  allowed (three for a terminal 4xx, the configured maximum otherwise), or when there is
  neither a usable \<open>Retry-After\<close> of a 429 nor a scheduled backoff for it, which on attempts
  1 to 7 never happens.\<close>

theorem next_delay_none_iff:
  "next_delay_seconds n status ra cfg u = None \<longleftrightarrow>
     max_attempts_for status cfg \<le> n \<or>
     ((n < 1 \<or> 7 < n) \<and> (if status = Some 429 then parse_retry_after ra = None else True))"
  by (auto simp: next_delay_seconds_def backoff_dom [symmetric] split: option.splits)

text \<open>C31: Retrying ends: whatever the statuses, headers and draws of its attempts are, a delivery
  that keeps failing is dead-lettered at some attempt no later than the configured
  maximum, every earlier attempt having been given a delay.\<close>

theorem retries_end:
  assumes "1 \<le> cfg"
  shows "\<exists>k. 1 \<le> k \<and> k \<le> cfg \<and> next_delay_seconds k (status k) (ra k) cfg (u k) = None \<and>
    (\<forall>j. 1 \<le> j \<longrightarrow> j < k \<longrightarrow> next_delay_seconds j (status j) (ra j) cfg (u j) \<noteq> None)"
  using policy.eventually_gives_up [OF assms, of "\<lambda>k. (status k, ra k, u k)"] by simp

theorem retries_end_witness:
  "\<exists>k. 1 \<le> k \<and> k \<le> (7::int) \<and> next_delay_seconds k (Some 503) None 7 0 = None \<and>
    (\<forall>j. 1 \<le> j \<longrightarrow> j < k \<longrightarrow> next_delay_seconds j (Some 503) None 7 0 \<noteq> None)"
  by (rule retries_end [where status = "\<lambda>_. Some 503" and ra = "\<lambda>_. None" and u = "\<lambda>_. 0"]) simp

text \<open>The whole backoff of a delivery that exhausts the default seven attempts, six delays with
  the largest jitter each, is under three and a third hours; the scheduled five hours of
  attempt 7 are never waited, so the documented eight hours before the dead-letter queue
  are not reached.\<close>

theorem default_backoff_total:
  "(\<Sum>n\<leftarrow>[1, 2, 3, 4, 5, 6]. of_int (the (BACKOFF_SCHEDULE n)) * JITTER_MAX) < 10 * 3600 / (3::rat) \<and>
   next_delay_seconds 7 status ra (max_attempts default_settings) u = None"
proof
  show "(\<Sum>n\<leftarrow>[1, 2, 3, 4, 5, 6]. of_int (the (BACKOFF_SCHEDULE n)) * JITTER_MAX) < 10 * 3600 / (3::rat)"
    by (simp add: BACKOFF_SCHEDULE_def JITTER_MAX_def)
  show "next_delay_seconds 7 status ra (max_attempts default_settings) u = None"
    using policy.gives_up [of "max_attempts default_settings" 7 "(status, ra, u)"]
    by (simp add: default_settings_def)
qed

end
