(* ===== verification/Retry_Queue.thy ===== *)
theory Retry_Queue
  imports Config Streams
begin

text \<open>
  Shard assignment and stream keys (\<open>relay/delivery/enqueue.py\<close>) and the \<open>relay:retries\<close>
  sorted set with its atomic move back to the streams (\<open>relay/delivery/retry_queue.py\<close>).
  The functions here act on the values of the Redis keys; the calls that reach Redis over
  the network are in \<^theory_text>\<open>Delivery_Io\<close>.
\<close>

section \<open>Shards\<close>

text \<open>\<open>zlib.crc32(endpoint_id.bytes) % stream_shards\<close>; \<open>None\<close> is the \<open>ZeroDivisionError\<close>.\<close>

definition shard_for :: "settings \<Rightarrow> uuid \<Rightarrow> int option" where
  "shard_for cfg endpoint_id =
     (if stream_shards cfg = 0 then None
      else Some (uint (crc32 (uuid_bytes endpoint_id)) mod stream_shards cfg))"

definition stream_key :: "int \<Rightarrow> string" where
  "stream_key shard = ''relay:deliveries:'' @ str_int shard"

definition delivery_fields :: "uuid \<Rightarrow> uuid \<Rightarrow> uuid \<Rightarrow> fields" where
  "delivery_fields delivery_id event_id endpoint_id =
     \<lparr>f_delivery_id = uuid_str delivery_id, f_event_id = uuid_str event_id,
      f_endpoint_id = uuid_str endpoint_id\<rparr>"

text \<open>The streams of the server, by key, and one \<open>XADD\<close> to one of them.\<close>

type_synonym streams = "string \<Rightarrow> stream"

definition add_to :: "string \<Rightarrow> nat \<Rightarrow> fields \<Rightarrow> streams \<Rightarrow> streams" where
  "add_to key ms f strs = strs(key := xadd ms f (strs key))"

section \<open>The retry queue\<close>

definition MEMBER_SEPARATOR :: string where "MEMBER_SEPARATOR = ''|''"

definition encode_member :: "settings \<Rightarrow> uuid \<Rightarrow> uuid \<Rightarrow> uuid \<Rightarrow> string option" where
  "encode_member cfg delivery_id event_id endpoint_id =
     (case shard_for cfg endpoint_id of
        None \<Rightarrow> None
      | Some shard \<Rightarrow> Some (join MEMBER_SEPARATOR
          [uuid_str delivery_id, uuid_str event_id, uuid_str endpoint_id, str_int shard]))"

text \<open>
  One iteration of the loop of \<open>MOVE_DUE_LUA\<close>: the reply is how many were moved so far, and
  \<open>None\<close> once the script has raised (a member with fewer than four parts, for which
  \<open>parts[4]\<close> is \<open>nil\<close>); what the script did before stays done.
\<close>

type_synonym move_state = "nat option \<times> string zset \<times> streams"

definition move_member :: "nat \<Rightarrow> move_state \<Rightarrow> string \<Rightarrow> move_state" where
  "move_member ms st member = (case st of (reply, zset, strs) \<Rightarrow>
     (case reply of
        None \<Rightarrow> (None, zset, strs)
      | Some moved \<Rightarrow>
          if zscore zset member = None then (Some moved, zset, strs)
          else
            (case gmatch (CHR ''|'') member of
               p1 # p2 # p3 # p4 # _ \<Rightarrow>
                 (Some (Suc moved), zrem member zset,
                  add_to (''relay:deliveries:'' @ p4) ms
                    \<lparr>f_delivery_id = p1, f_event_id = p2, f_endpoint_id = p3\<rparr> strs)
             | _ \<Rightarrow> (None, zrem member zset, strs))))"

definition MOVE_DUE_LUA :: "rat \<Rightarrow> int \<Rightarrow> nat \<Rightarrow> string zset \<Rightarrow> streams \<Rightarrow> move_state" where
  "MOVE_DUE_LUA now limit ms zset strs =
     foldl (move_member ms) (Some 0, zset, strs) (zrange_upto now limit zset)"

section \<open>Lemmas\<close>

lemma str_int_nonneg: "0 \<le> i \<Longrightarrow> str_int i = dec_nat (nat i)"
  by (simp add: str_int_def)

lemma str_int_plain: "str_int i \<noteq> [] \<and> CHR ''|'' \<notin> set (str_int i)"
  using dec_nat_no_bar by (auto simp: str_int_def)

lemma str_int_inject: "0 \<le> i \<Longrightarrow> 0 \<le> j \<Longrightarrow> str_int i = str_int j \<Longrightarrow> i = j"
  by (simp add: str_int_nonneg)

lemma shard_for_range: "0 < stream_shards cfg \<Longrightarrow>
  \<exists>k. shard_for cfg e = Some k \<and> 0 \<le> k \<and> k < stream_shards cfg"
  by (simp add: shard_for_def)

text \<open>The parts of a member, as the Lua script reads them back.\<close>

lemma gmatch_encode_member:
  assumes "encode_member cfg d e p = Some m"
  shows "\<exists>k. shard_for cfg p = Some k \<and>
    gmatch (CHR ''|'') m = [uuid_str d, uuid_str e, uuid_str p, str_int k]"
proof -
  obtain k where k: "shard_for cfg p = Some k"
    and m: "m = join [CHR ''|''] [uuid_str d, uuid_str e, uuid_str p, str_int k]"
    using assms by (auto simp: encode_member_def MEMBER_SEPARATOR_def split: option.splits)
  have "gmatch (CHR ''|'') m = [uuid_str d, uuid_str e, uuid_str p, str_int k]"
    unfolding m by (rule gmatch_join) (auto simp: uuid_str_no_bar str_int_plain)
  with k show ?thesis by blast
qed

text \<open>Where a member goes, and as what.\<close>

definition member_key :: "string \<Rightarrow> string" where
  "member_key m = ''relay:deliveries:'' @ gmatch (CHR ''|'') m ! 3"

definition member_fields :: "string \<Rightarrow> fields" where
  "member_fields m = (let ps = gmatch (CHR ''|'') m
     in \<lparr>f_delivery_id = ps ! 0, f_event_id = ps ! 1, f_endpoint_id = ps ! 2\<rparr>)"

definition well_formed_member :: "string \<Rightarrow> bool" where
  "well_formed_member m \<longleftrightarrow> 4 \<le> length (gmatch (CHR ''|'') m)"

lemma encode_member_parts:
  assumes "encode_member cfg d e p = Some m"
  shows "well_formed_member m" and "member_fields m = delivery_fields d e p"
    and "\<exists>k. shard_for cfg p = Some k \<and> member_key m = stream_key k"
  using gmatch_encode_member [OF assms]
  by (auto simp: well_formed_member_def member_fields_def delivery_fields_def member_key_def stream_key_def)

lemma encode_member_inject:
  assumes "encode_member cfg d e p = Some m" and "encode_member cfg d' e' p' = Some m"
  shows "d = d' \<and> e = e' \<and> p = p'"
  using encode_member_parts(2) [OF assms(1)] encode_member_parts(2) [OF assms(2)]
  by (simp add: delivery_fields_def)

lemma move_member_step:
  assumes "well_formed_member m" and "zscore z m \<noteq> None"
  shows "move_member ms (Some n, z, strs) m =
    (Some (Suc n), zrem m z, add_to (member_key m) ms (member_fields m) strs)"
proof -
  obtain p1 p2 p3 p4 ps where "gmatch (CHR ''|'') m = p1 # p2 # p3 # p4 # ps"
    using assms(1) by (auto simp: well_formed_member_def numeral_eq_Suc Suc_le_length_iff)
  then show ?thesis
    using assms(2) by (auto simp: move_member_def member_key_def member_fields_def)
qed

lemma stream_entries_add_to:
  "map snd (st_entries (add_to key ms f strs k)) =
     map snd (st_entries (strs k)) @ (if k = key then [f] else [])"
  by (simp add: add_to_def xadd_def Let_def)

lemma zscore_zrem_other: "m \<noteq> m' \<Longrightarrow> zscore (zrem m z) m' = zscore z m'"
  by (induction z) (auto simp: zrem_def zscore_def)

text \<open>The loop over distinct, present, well-formed members moves each of them.\<close>

lemma move_loop:
  assumes "distinct ds" and "\<And>m. m \<in> set ds \<Longrightarrow> well_formed_member m \<and> zscore z m \<noteq> None"
    and "foldl (move_member ms) (Some n, z, strs) ds = (r, z', strs')"
  shows "r = Some (n + length ds) \<and> z' = filter (\<lambda>p. fst p \<notin> set ds) z \<and>
    (\<forall>k. map snd (st_entries (strs' k)) = map snd (st_entries (strs k)) @
       map member_fields (filter (\<lambda>m. member_key m = k) ds))"
  using assms
proof (induction ds arbitrary: n z strs)
  case Nil
  then show ?case by simp
next
  case (Cons m ds)
  have step: "move_member ms (Some n, z, strs) m =
      (Some (Suc n), zrem m z, add_to (member_key m) ms (member_fields m) strs)"
    using Cons.prems(2) by (intro move_member_step) auto
  have "well_formed_member m' \<and> zscore (zrem m z) m' \<noteq> None" if "m' \<in> set ds" for m'
    using Cons.prems(1,2) that by (subst zscore_zrem_other) auto
  then have IH: "r = Some (Suc n + length ds) \<and> z' = filter (\<lambda>p. fst p \<notin> set ds) (zrem m z) \<and>
    (\<forall>k. map snd (st_entries (strs' k)) =
       map snd (st_entries (add_to (member_key m) ms (member_fields m) strs k)) @
       map member_fields (filter (\<lambda>m. member_key m = k) ds))"
    using Cons.prems(1,3) by (intro Cons.IH) (auto simp: step)
  then show ?case
    by (auto simp: stream_entries_add_to zrem_def intro: filter_cong)
qed

lemma zrange_upto_members:
  assumes "zset_ok z"
  shows "distinct (zrange_upto now limit z)"
    and "m \<in> set (zrange_upto now limit z) \<Longrightarrow> \<exists>s. zscore z m = Some s \<and> s \<le> now"
proof -
  let ?due = "map fst (filter (\<lambda>p. snd p \<le> now) z)"
  have d: "distinct ?due"
    using assms by (simp add: zset_ok_def distinct_map_filter)
  then show "distinct (zrange_upto now limit z)"
    by (auto simp: zrange_upto_def Let_def)
  assume "m \<in> set (zrange_upto now limit z)"
  then have "m \<in> set ?due"
    by (auto simp: zrange_upto_def Let_def split: if_splits dest: in_set_takeD)
  then obtain s where "(m, s) \<in> set z" "s \<le> now" by auto
  then show "\<exists>s. zscore z m = Some s \<and> s \<le> now"
    using zscore_mem [OF zset_ok_distinct [OF assms], of m s] by blast
qed

text \<open>What one call of the script does to a queue of well-formed members.\<close>

lemma move_due_effect:
  assumes ok: "zset_ok z" and wf: "\<forall>m \<in> fst ` set z. well_formed_member m"
    and run: "MOVE_DUE_LUA now limit ms z strs = (r, z', strs')"
    and ds: "ds = zrange_upto now limit z"
  shows "r = Some (length ds)" and "z' = filter (\<lambda>p. fst p \<notin> set ds) z"
    and "map snd (st_entries (strs' k)) = map snd (st_entries (strs k)) @
       map member_fields (filter (\<lambda>m. member_key m = k) ds)"
proof -
  have "well_formed_member m \<and> zscore z m \<noteq> None" if "m \<in> set ds" for m
  proof -
    obtain s where s: "zscore z m = Some s"
      using zrange_upto_members(2) [OF ok] \<open>m \<in> set ds\<close> ds by blast
    then have "(m, s) \<in> set z" by (simp add: zscore_mem zset_ok_distinct [OF ok])
    with wf s show ?thesis by force
  qed
  then have "r = Some (0 + length ds) \<and> z' = filter (\<lambda>p. fst p \<notin> set ds) z \<and>
    (\<forall>k. map snd (st_entries (strs' k)) = map snd (st_entries (strs k)) @
       map member_fields (filter (\<lambda>m. member_key m = k) ds))"
    using zrange_upto_members(1) [OF ok] run unfolding MOVE_DUE_LUA_def ds
    by (intro move_loop) auto
  then show "r = Some (length ds)" "z' = filter (\<lambda>p. fst p \<notin> set ds) z"
    "map snd (st_entries (strs' k)) = map snd (st_entries (strs k)) @
       map member_fields (filter (\<lambda>m. member_key m = k) ds)"
    by simp_all
qed

section \<open>Properties\<close>

text \<open>Shard assignment: with a positive number of shards every endpoint has one, between 0 and
  the number of shards, so its stream is one a worker consumes, and distinct shards have
  distinct stream keys.\<close>

theorem shard_assignment:
  assumes "0 < stream_shards cfg"
  shows "\<exists>k. shard_for cfg p = Some k \<and> 0 \<le> k \<and> k < stream_shards cfg \<and>
    (\<forall>j. 0 \<le> j \<longrightarrow> stream_key j = stream_key k \<longrightarrow> j = k)"
  using shard_for_range [OF assms, of p] str_int_inject by (fastforce simp: stream_key_def)

theorem shard_assignment_witness:
  "\<exists>k. shard_for default_settings 7 = Some k \<and> 0 \<le> k \<and> k < stream_shards default_settings \<and>
    (\<forall>j. 0 \<le> j \<longrightarrow> stream_key j = stream_key k \<longrightarrow> j = k)"
  by (rule shard_assignment) (simp add: default_settings_def)

text \<open>Packing a retry and unpacking it in the Lua script is a round trip: the fields the script
  adds to the stream are the delivery's, the event's and the endpoint's identifiers, the
  stream is the endpoint's shard, and two deliveries never share a member.\<close>

theorem member_roundtrip:
  assumes "encode_member cfg d e p = Some m"
  shows "member_fields m = delivery_fields d e p \<and>
    (\<exists>k. shard_for cfg p = Some k \<and> member_key m = stream_key k) \<and>
    uuid_parse (f_delivery_id (member_fields m)) = Some d \<and>
    (\<forall>d' e' p'. encode_member cfg d' e' p' = Some m \<longrightarrow> d' = d \<and> e' = e \<and> p' = p)"
  using encode_member_parts(2,3) [OF assms] encode_member_inject [OF assms]
  by (auto simp: delivery_fields_def)

theorem member_roundtrip_witness:
  "\<exists>m. encode_member default_settings 1 2 3 = Some m \<and> member_fields m = delivery_fields 1 2 3"
proof -
  obtain m where "encode_member default_settings 1 2 3 = Some m"
    by (simp add: encode_member_def shard_for_def default_settings_def)
  with member_roundtrip [of default_settings 1 2 3 m] show ?thesis by blast
qed

text \<open>C27: The atomic move: on a queue whose members the program encoded, one call moves exactly the
  due members, oldest first and at most \<open>limit\<close> of them; each leaves the queue and appears
  once, as its own fields, at the end of its own shard's stream; nothing else changes.\<close>

theorem move_due_exact:
  assumes "zset_ok z" and "\<forall>m \<in> fst ` set z. \<exists>d e p. encode_member cfg d e p = Some m"
    and "MOVE_DUE_LUA now limit ms z strs = (r, z', strs')"
  shows "r = Some (length (zrange_upto now limit z)) \<and>
    z' = filter (\<lambda>q. fst q \<notin> set (zrange_upto now limit z)) z \<and>
    map snd (st_entries (strs' k)) = map snd (st_entries (strs k)) @
      map member_fields (filter (\<lambda>m. member_key m = k) (zrange_upto now limit z))"
proof -
  have wf: "\<forall>m \<in> fst ` set z. well_formed_member m"
    using assms(2) encode_member_parts(1) by blast
  show ?thesis using move_due_effect [OF assms(1) wf assms(3) refl] by blast
qed

theorem move_due_exact_witness:
  "\<exists>m z' strs'. encode_member default_settings 1 2 3 = Some m \<and>
     MOVE_DUE_LUA 10 100 0 [(m, 5)] (\<lambda>_. empty_stream) = (Some 1, z', strs') \<and> z' = [] \<and>
     map snd (st_entries (strs' (member_key m))) = [member_fields m]"
proof -
  obtain m where m: "encode_member default_settings 1 2 3 = Some m"
    by (simp add: encode_member_def shard_for_def default_settings_def)
  obtain r z' strs' where run: "MOVE_DUE_LUA 10 100 0 [(m, 5)] (\<lambda>_. empty_stream) = (r, z', strs')"
    by (rule prod_cases3)
  have "r = Some (length (zrange_upto 10 100 [(m, 5)])) \<and>
    z' = filter (\<lambda>q. fst q \<notin> set (zrange_upto 10 100 [(m, 5)])) [(m, 5)] \<and>
    map snd (st_entries (strs' (member_key m))) = map snd (st_entries (empty_stream)) @
      map member_fields (filter (\<lambda>m'. member_key m' = member_key m) (zrange_upto 10 100 [(m, 5)]))"
    using run m by (intro move_due_exact [where cfg = default_settings and ms = 0 and strs = "\<lambda>_. empty_stream"])
      (auto simp: zset_ok_def)
  with m run show ?thesis by (simp add: zrange_upto_def empty_stream_def)
qed

text \<open>A sequence of calls of the script, each with its own clock and limit; the first result is
  the total moved.\<close>

fun move_calls :: "nat \<Rightarrow> (rat \<times> int) list \<Rightarrow> string zset \<times> streams \<Rightarrow> nat option \<times> string zset \<times> streams" where
  "move_calls ms [] (z, strs) = (Some 0, z, strs)"
| "move_calls ms ((now, limit) # cs) (z, strs) =
     (case MOVE_DUE_LUA now limit ms z strs of
        (None, z', strs') \<Rightarrow> (None, z', strs')
      | (Some n, z', strs') \<Rightarrow>
          (case move_calls ms cs (z', strs') of (r, out) \<Rightarrow> (map_option ((+) n) r, out)))"

lemma move_count:
  assumes ok: "zset_ok z" and sub: "set ds \<subseteq> fst ` set z" and d: "distinct ds"
  shows "length ds + length (filter (\<lambda>p. fst p \<notin> set ds) z) = length z"
proof -
  have "length ds = card (set ds)" using d by (simp add: distinct_card)
  also have "set ds = set (filter (\<lambda>m. m \<in> set ds) (map fst z))" using sub by auto
  also have "card \<dots> = length (filter (\<lambda>p. fst p \<in> set ds) z)"
    using zset_ok_distinct [OF ok]
    by (subst distinct_card) (simp_all add: filter_map comp_def distinct_map_filter)
  finally show ?thesis using sum_length_filter_compl [of "\<lambda>p. fst p \<in> set ds" z] by simp
qed

lemma due_per_stream:
  assumes "zset_ok z" and "set ds \<subseteq> fst ` set z" and "distinct ds"
  shows "length (filter (\<lambda>m. member_key m = k) ds) = length (filter (\<lambda>q. member_key (fst q) = k \<and> fst q \<in> set ds) z)"
proof -
  have "length (filter (\<lambda>m. member_key m = k) ds) = card {m \<in> set ds. member_key m = k}"
    using assms(3) by (simp add: distinct_length_filter Int_def conj_commute)
  also have "{m \<in> set ds. member_key m = k} = set (filter (\<lambda>m. member_key m = k \<and> m \<in> set ds) (map fst z))"
    using assms(2) by auto
  also have "card \<dots> = length (filter (\<lambda>m. member_key m = k \<and> m \<in> set ds) (map fst z))"
    using zset_ok_distinct [OF assms(1)] by (subst distinct_card) simp_all
  finally show ?thesis by (simp add: filter_map comp_def)
qed

text \<open>Schedulers polling concurrently: however many calls of the script, at whatever times and
  limits, run one after the other, each member of the queue is added to a stream at most
  once: the number of entries added is the number of members gone from the queue.\<close>

theorem concurrent_moves_exactly_once:
  assumes "zset_ok z" and "\<forall>m \<in> fst ` set z. \<exists>d e p. encode_member cfg d e p = Some m"
    and "move_calls ms cs (z, strs) = (r, z', strs')"
  shows "\<exists>n. r = Some n \<and> n + length z' = length z \<and> set z' \<subseteq> set z \<and>
    (\<forall>k. length (st_entries (strs' k)) =
       length (st_entries (strs k)) + length (filter (\<lambda>q. member_key (fst q) = k \<and> q \<notin> set z') z))"
  using assms
proof (induction cs arbitrary: z strs r)
  case Nil
  then show ?case by (auto simp: filter_empty_conv)
next
  case (Cons c cs)
  obtain now limit where c: "c = (now, limit)" by (cases c)
  define ds where "ds = zrange_upto now limit z"
  obtain r1 z1 strs1 where one: "MOVE_DUE_LUA now limit ms z strs = (r1, z1, strs1)"
    by (rule prod_cases3)
  have wf: "\<forall>m \<in> fst ` set z. well_formed_member m"
    using Cons.prems(2) encode_member_parts(1) by blast
  note eff = move_due_effect [OF Cons.prems(1) wf one ds_def]
  have sub: "set ds \<subseteq> fst ` set z"
    using zrange_upto_members(2) [OF Cons.prems(1), of _ now limit] zset_ok_distinct [OF Cons.prems(1)]
    by (force simp: ds_def zscore_mem)
  have count: "length ds + length z1 = length z"
    unfolding eff(2) using zrange_upto_members(1) [OF Cons.prems(1), of now limit] sub
    by (intro move_count [OF Cons.prems(1)]) (simp_all add: ds_def)
  obtain r2 where rest: "move_calls ms cs (z1, strs1) = (r2, z', strs')" and r: "r = map_option ((+) (length ds)) r2"
    using Cons.prems(3) by (auto simp: c one eff(1) split: prod.splits)
  have "zset_ok z1" unfolding eff(2) by (rule zset_ok_filter [OF Cons.prems(1)])
  moreover have "\<forall>m \<in> fst ` set z1. \<exists>d e p. encode_member cfg d e p = Some m"
    using Cons.prems(2) by (auto simp: eff(2))
  ultimately obtain n where n: "r2 = Some n" "n + length z' = length z1" "set z' \<subseteq> set z1"
    and ents: "\<And>k. length (st_entries (strs' k)) =
       length (st_entries (strs1 k)) + length (filter (\<lambda>q. member_key (fst q) = k \<and> q \<notin> set z') z1)"
    using Cons.IH [OF _ _ rest] by blast
  have moved: "length (filter (\<lambda>m. member_key m = k) ds) =
      length (filter (\<lambda>q. member_key (fst q) = k \<and> fst q \<in> set ds) z)" for k
    using zrange_upto_members(1) [OF Cons.prems(1), of now limit] by (intro due_per_stream [OF Cons.prems(1) sub]) (simp add: ds_def)
  have split: "length (filter (\<lambda>q. P q \<and> fst q \<in> set ds) z) + length (filter (\<lambda>q. P q \<and> q \<notin> set z') z1) =
      length (filter (\<lambda>q. P q \<and> q \<notin> set z') z)" for P
    using n(3) unfolding eff(2) filter_filter by (intro length_filter_split) auto
  have "length (st_entries (strs' k)) =
      length (st_entries (strs k)) + length (filter (\<lambda>q. member_key (fst q) = k \<and> q \<notin> set z') z)" for k
    using ents [of k] arg_cong [OF eff(3) [of k], of length] moved [of k] split [of "\<lambda>q. member_key (fst q) = k"]
    by simp
  moreover have "length ds + n + length z' = length z" using n(2) count by simp
  moreover have "set z' \<subseteq> set z" using n(3) by (auto simp: eff(2))
  ultimately show ?case using n(1) r by auto
qed

theorem concurrent_moves_exactly_once_witness:
  "\<exists>m r z' strs' n. encode_member default_settings 1 2 3 = Some m \<and>
     move_calls 0 [(10, 100), (10, 100)] ([(m, 5)], \<lambda>_. empty_stream) = (r, z', strs') \<and>
     r = Some n \<and> n + length z' = 1"
proof -
  obtain m where m: "encode_member default_settings 1 2 3 = Some m"
    by (simp add: encode_member_def shard_for_def default_settings_def)
  obtain r z' strs' where run:
    "move_calls 0 [(10, 100), (10, 100)] ([(m, 5)], \<lambda>_. empty_stream) = (r, z', strs')"
    by (rule prod_cases3)
  have "\<exists>n. r = Some n \<and> n + length z' = length [(m, 5::rat)] \<and> set z' \<subseteq> set [(m, 5)] \<and>
    (\<forall>k. length (st_entries (strs' k)) = length (st_entries empty_stream) +
       length (filter (\<lambda>q. member_key (fst q) = k \<and> q \<notin> set z') [(m, 5)]))"
    using run m by (intro concurrent_moves_exactly_once
      [where cfg = default_settings and ms = 0 and strs = "\<lambda>_. empty_stream" and cs = "[(10, 100), (10, 100)]"])
      (auto simp: zset_ok_def)
  with m run show ?thesis by auto
qed

end
