(* ===== verification/Rate_Limit.thy ===== *)
theory Rate_Limit
  imports Redis
begin

text \<open>
  Per-tenant rate limiting and concurrency caps (\<open>relay/delivery/rate_limit.py\<close>): the token
  bucket script and the in-flight slots, as functions on the value of the tenant's key.
  \<open>now\<close> is the caller's clock (an argument of the scripts), \<open>t\<close> the server's, which only
  the expiry of keys sees.
\<close>

section \<open>Token bucket\<close>

record bucket =
  bk_tokens :: rat
  bk_updated_at :: rat

definition TOKEN_BUCKET_LUA ::
  "rat \<Rightarrow> rat \<Rightarrow> rat \<Rightarrow> rat \<Rightarrow> bucket rkey \<Rightarrow> int \<times> bucket rkey" where
  "TOKEN_BUCKET_LUA rate now requested t key =
     (let burst = rate;
          (tokens, updated_at) = (case key_get t key of
              None \<Rightarrow> (burst, now)
            | Some b \<Rightarrow> (bk_tokens b, bk_updated_at b));
          elapsed = max 0 (now - updated_at);
          tokens = min burst (tokens + elapsed * rate);
          (tokens, granted) = (if tokens \<ge> requested then (tokens - requested, 1) else (tokens, 0))
      in (granted, expire t 60 (Some (\<lparr>bk_tokens = tokens, bk_updated_at = now\<rparr>, None))))"

definition take_token_key :: "int \<Rightarrow> rat \<Rightarrow> rat \<Rightarrow> bucket rkey \<Rightarrow> bool \<times> bucket rkey" where
  "take_token_key rate_per_sec now t key =
     (case TOKEN_BUCKET_LUA (of_int rate_per_sec) now 1 t key of (granted, key') \<Rightarrow> (granted \<noteq> 0, key'))"

section \<open>In-flight slots\<close>

definition SLOT_TTL_SECONDS :: rat where "SLOT_TTL_SECONDS = 60"

definition ACQUIRE_SLOT_LUA ::
  "int \<Rightarrow> rat \<Rightarrow> string \<Rightarrow> rat \<Rightarrow> rat \<Rightarrow> string zset rkey \<Rightarrow> int \<times> string zset rkey" where
  "ACQUIRE_SLOT_LUA cap now token ttl t key =
     (let key1 = zkey_map t (zrem_upto now) key
      in if int (length (zkey_get t key1)) \<ge> cap then (0, key1)
         else (1, expire t (ttl * 2) (zkey_map t (zadd token (now + ttl)) key1)))"

definition acquire_slot_key :: "int \<Rightarrow> rat \<Rightarrow> string \<Rightarrow> rat \<Rightarrow> string zset rkey \<Rightarrow> bool \<times> string zset rkey" where
  "acquire_slot_key max_inflight now token t key =
     (case ACQUIRE_SLOT_LUA max_inflight now token SLOT_TTL_SECONDS t key of (granted, key') \<Rightarrow> (granted \<noteq> 0, key'))"

definition release_slot_key :: "string \<Rightarrow> rat \<Rightarrow> string zset rkey \<Rightarrow> string zset rkey" where
  "release_slot_key token t key = zkey_map t (zrem token) key"

definition inflight_count_key :: "rat \<Rightarrow> rat \<Rightarrow> string zset rkey \<Rightarrow> int \<times> string zset rkey" where
  "inflight_count_key now t key =
     (let key' = zkey_map t (zrem_upto now) key in (int (length (zkey_get t key')), key'))"

section \<open>The bucket over a run of calls\<close>

text \<open>The tokens a bucket is worth at time \<open>t\<close> on a clock all callers share with the server.\<close>

definition worth :: "rat \<Rightarrow> rat \<Rightarrow> bucket rkey \<Rightarrow> rat" where
  "worth rate t key = (case key_get t key of
     None \<Rightarrow> rate
   | Some b \<Rightarrow> min rate (bk_tokens b + max 0 (t - bk_updated_at b) * rate))"

definition bucket_ok :: "rat \<Rightarrow> rat \<Rightarrow> bucket rkey \<Rightarrow> bool" where
  "bucket_ok rate t key = (case key of
     None \<Rightarrow> True
   | Some (b, e) \<Rightarrow> 0 \<le> bk_tokens b \<and> bk_tokens b \<le> rate \<and> bk_updated_at b \<le> t \<and>
       e = Some (bk_updated_at b + 60))"

text \<open>Calls at the given times, the server's clock being the callers' clock; the result counts
  the tokens granted.\<close>

fun take_run :: "int \<Rightarrow> rat list \<Rightarrow> bucket rkey \<Rightarrow> nat \<times> bucket rkey" where
  "take_run rate [] key = (0, key)"
| "take_run rate (t # ts) key =
     (case take_token_key rate t t key of (granted, key') \<Rightarrow>
        (case take_run rate ts key' of (n, key'') \<Rightarrow> (n + (if granted then 1 else 0), key'')))"

lemma worth_nonneg: "0 \<le> rate \<Longrightarrow> bucket_ok rate t key \<Longrightarrow> 0 \<le> worth rate t key"
  by (auto simp: worth_def bucket_ok_def key_get_def live_def split: option.splits)

lemma take_token_effect:
  assumes "1 \<le> rate" and "bucket_ok (of_int rate) t key"
    and "take_token_key rate t t key = (granted, key')"
  shows "bucket_ok (of_int rate) t key'"
    and "worth (of_int rate) t key' = worth (of_int rate) t key - (if granted then 1 else 0)"
    and "granted \<longleftrightarrow> 1 \<le> worth (of_int rate) t key"
proof -
  let ?r = "of_int rate :: rat" and ?w = "worth (of_int rate) t key"
  have r: "1 \<le> ?r" using assms(1) by simp
  have w: "0 \<le> ?w" using r assms(2) by (intro worth_nonneg) auto
  have w2: "?w \<le> ?r" by (auto simp: worth_def split: option.splits)
  have run: "take_token_key rate t t key =
      (1 \<le> ?w, Some (\<lparr>bk_tokens = (if 1 \<le> ?w then ?w - 1 else ?w), bk_updated_at = t\<rparr>, Some (t + 60)))"
    by (auto simp: take_token_key_def TOKEN_BUCKET_LUA_def worth_def Let_def expire_def split: option.splits)
  then have key': "key' = Some (\<lparr>bk_tokens = (if 1 \<le> ?w then ?w - 1 else ?w), bk_updated_at = t\<rparr>, Some (t + 60))"
    and g: "granted \<longleftrightarrow> 1 \<le> ?w"
    using assms(3) by simp_all
  show "granted \<longleftrightarrow> 1 \<le> ?w" by (fact g)
  show "bucket_ok ?r t key'"
    using r w w2 by (simp add: key' bucket_ok_def)
  have "worth ?r t key' = min ?r (if 1 \<le> ?w then ?w - 1 else ?w)"
    by (simp add: key' worth_def)
  also have "\<dots> = (if 1 \<le> ?w then ?w - 1 else ?w)"
    using r w2 by (auto simp: min_def)
  finally show "worth ?r t key' = ?w - (if granted then 1 else 0)"
    using g by auto
qed

lemma worth_later:
  assumes r: "1 \<le> rate" and ok: "bucket_ok rate t key" and t: "t \<le> t'"
  shows "bucket_ok rate t' key" and "worth rate t' key \<le> worth rate t key + rate * (t' - t)"
proof -
  show "bucket_ok rate t' key"
    using ok t by (auto simp: bucket_ok_def split: option.splits)
  have pos: "0 \<le> rate * (t' - t)" using r t by simp
  show "worth rate t' key \<le> worth rate t key + rate * (t' - t)"
  proof (cases "key_get t key")
    case None
    then have "worth rate t key = rate" by (simp add: worth_def)
    moreover have "worth rate t' key \<le> rate" by (auto simp: worth_def split: option.splits)
    ultimately show ?thesis using pos by simp
  next
    case (Some b)
    then have key: "key = Some (b, Some (bk_updated_at b + 60))" and b: "0 \<le> bk_tokens b" "bk_updated_at b \<le> t"
      using ok by (auto simp: bucket_ok_def key_get_def live_def split: option.splits if_splits)
    have w: "worth rate t key = min rate (bk_tokens b + (t - bk_updated_at b) * rate)"
      using Some b(2) by (simp add: worth_def)
    have grow: "bk_tokens b + (t' - bk_updated_at b) * rate =
        bk_tokens b + (t - bk_updated_at b) * rate + rate * (t' - t)"
      by (simp add: algebra_simps)
    show ?thesis
    proof (cases "t' < bk_updated_at b + 60")
      case True
      then have "worth rate t' key = min rate (bk_tokens b + (t' - bk_updated_at b) * rate)"
        using key b(2) t by (simp add: worth_def)
      then show ?thesis unfolding w grow using pos by (simp add: min_def)
    next
      case False
      then have "rate * 1 \<le> rate * (t' - bk_updated_at b)"
        using r by (intro mult_left_mono) auto
      moreover have "worth rate t' key = rate" using key False by (simp add: worth_def)
      ultimately show ?thesis using b(1) pos unfolding w
        by (simp add: min_def algebra_simps)
    qed
  qed
qed

lemma take_run_bound:
  assumes "1 \<le> rate" and "bucket_ok (of_int rate) t0 key"
    and "sorted (t0 # ts)" and "take_run rate ts key = (n, key')"
  shows "of_nat n \<le> worth (of_int rate) t0 key + of_int rate * (last (t0 # ts) - t0)"
  using assms(2-4)
proof (induction ts arbitrary: t0 key n key')
  case Nil
  then show ?case using worth_nonneg [of "of_int rate" t0 key] assms(1) by simp
next
  case (Cons t ts)
  let ?r = "of_int rate :: rat"
  obtain g k1 where one: "take_token_key rate t t key = (g, k1)" by (cases "take_token_key rate t t key")
  obtain m k2 where rest: "take_run rate ts k1 = (m, k2)" by (cases "take_run rate ts k1")
  have n: "n = m + (if g then 1 else 0)" using Cons.prems(3) one rest by simp
  have t: "t0 \<le> t" "sorted (t # ts)" using Cons.prems(2) by auto
  have r: "1 \<le> ?r" using assms(1) by simp
  note later = worth_later [OF r Cons.prems(1) t(1)]
  note step = take_token_effect [OF assms(1) later(1) one]
  have "of_nat m \<le> worth ?r t k1 + ?r * (last (t # ts) - t)"
    by (rule Cons.IH [OF step(1) t(2) rest])
  then have "of_nat n \<le> worth ?r t key + ?r * (last (t # ts) - t)"
    using step(2) n by (cases g) simp_all
  also have "\<dots> \<le> worth ?r t0 key + ?r * (t - t0) + ?r * (last (t # ts) - t)"
    using later(2) by simp
  also have "\<dots> = worth ?r t0 key + ?r * (last (t0 # t # ts) - t0)"
    by (simp add: algebra_simps)
  finally show ?case .
qed

lemma take_run_ok:
  assumes "1 \<le> rate" and "bucket_ok (of_int rate) t0 key" and "sorted (t0 # ts)"
  shows "bucket_ok (of_int rate) (last (t0 # ts)) (snd (take_run rate ts key))"
  using assms(2,3)
proof (induction ts arbitrary: t0 key)
  case (Cons t ts)
  obtain g k1 where one: "take_token_key rate t t key = (g, k1)" by (cases "take_token_key rate t t key")
  have t: "t0 \<le> t" "sorted (t # ts)" using Cons.prems(2) by auto
  have "bucket_ok (of_int rate) t key" using worth_later(1) [OF _ Cons.prems(1) t(1)] assms(1) by simp
  from Cons.IH [OF take_token_effect(1) [OF assms(1) this one] t(2)]
  show ?case by (simp add: one case_prod_beta)
qed simp

section \<open>Slots as a bounded pool\<close>

text \<open>
  The interface a worker relies on to bound a tenant's deliveries in flight: tokens are
  acquired and released, and a granted acquisition leaves at most \<open>cap\<close> tokens held.
\<close>

datatype ('a, 'k) pool_op = Acquire 'a 'k | Release 'a 'k

fun pool_run :: "('a \<Rightarrow> 'k \<Rightarrow> 's \<Rightarrow> bool \<times> 's) \<Rightarrow> ('a \<Rightarrow> 'k \<Rightarrow> 's \<Rightarrow> 's) \<Rightarrow> ('a, 'k) pool_op list \<Rightarrow> 's \<Rightarrow> 's" where
  "pool_run acq rel [] s = s"
| "pool_run acq rel (Acquire a k # ops) s = pool_run acq rel ops (snd (acq a k s))"
| "pool_run acq rel (Release a k # ops) s = pool_run acq rel ops (rel a k s)"

locale bounded_pool =
  fixes ok :: "'s \<Rightarrow> bool" and used :: "'s \<Rightarrow> nat"
    and acq :: "'a \<Rightarrow> 'k \<Rightarrow> 's \<Rightarrow> bool \<times> 's" and rel :: "'a \<Rightarrow> 'k \<Rightarrow> 's \<Rightarrow> 's"
    and cap :: nat
  assumes ok_acq: "ok s \<Longrightarrow> ok (snd (acq a k s))"
    and ok_rel: "ok s \<Longrightarrow> ok (rel a k s)"
    and acq_used: "ok s \<Longrightarrow> used s \<le> cap \<Longrightarrow> used (snd (acq a k s)) \<le> cap"
    and rel_used: "ok s \<Longrightarrow> used (rel a k s) \<le> used s"
begin

lemma run_bounded: "ok s \<Longrightarrow> used s \<le> cap \<Longrightarrow> ok (pool_run acq rel ops s) \<and> used (pool_run acq rel ops s) \<le> cap"
proof (induction ops arbitrary: s)
  case Nil
  then show ?case by simp
next
  case (Cons op ops)
  then show ?case
    by (cases op) (simp_all add: ok_acq ok_rel acq_used order.trans [OF rel_used])
qed

end

text \<open>The slots of one tenant; an operation carries the caller's and the server's clock.  What
  is counted is the stored set, whether or not the key has expired since.\<close>

definition slots_stored :: "string zset rkey \<Rightarrow> nat" where
  "slots_stored key = (case key of None \<Rightarrow> 0 | Some (z, _) \<Rightarrow> length z)"

lemma slots_stored_map: "slots_stored (zkey_map t f k) = length (f (zkey_get t k))"
  by (auto simp: slots_stored_def zkey_map_def Let_def)

lemma slots_stored_expire: "slots_stored (expire t d k) \<le> slots_stored k"
  by (auto simp: slots_stored_def expire_def live_def split: option.splits)

lemma length_zkey_get: "length (zkey_get t k) \<le> slots_stored k"
  by (auto simp: slots_stored_def zkey_get_def key_get_def live_def split: option.splits)

lemma zset_ok_trim_get: "zkey_ok k \<Longrightarrow> zset_ok (zrem_upto c (zkey_get t k))"
  by (intro zs.ok_trim zkey_ok_get)

lemma acquire_slot_cases:
  assumes ok: "zkey_ok key" and run: "acquire_slot_key cap now token t key = (g, key')"
  shows "zkey_ok key'"
    and "g \<longleftrightarrow> int (length (zrem_upto now (zkey_get t key))) < cap"
    and "zkey_get t key' = (if g then zadd token (now + 60) (zrem_upto now (zkey_get t key))
         else zrem_upto now (zkey_get t key))"
    and "slots_stored key' \<le> (if g then Suc (length (zrem_upto now (zkey_get t key)))
         else slots_stored key)"
proof -
  let ?z = "zrem_upto now (zkey_get t key)"
  have z: "zset_ok ?z" by (rule zset_ok_trim_get [OF ok])
  have key1: "zkey_get t (zkey_map t (zrem_upto now) key) = ?z" by (rule zkey_get_map)
  have trimmed: "zkey_ok (zkey_map t (zrem_upto now) key)" by (rule zkey_ok_map [where f = "zrem_upto now", OF z])
  have added: "zkey_ok (zkey_map t (zadd token (now + 60)) (zkey_map t (zrem_upto now) key))"
    by (rule zkey_ok_map) (simp add: key1 zs.ok_add z)
  have run': "(g, key') = (if int (length ?z) \<ge> cap then (False, zkey_map t (zrem_upto now) key)
      else (True, expire t 120 (zkey_map t (zadd token (now + 60)) (zkey_map t (zrem_upto now) key))))"
    using run by (auto simp: acquire_slot_key_def ACQUIRE_SLOT_LUA_def SLOT_TTL_SECONDS_def Let_def key1
        split: if_splits)
  show "zkey_ok key'" using run' trimmed added by (auto intro: zkey_ok_expire split: if_splits)
  show "g \<longleftrightarrow> int (length ?z) < cap" using run' by (auto split: if_splits)
  show "zkey_get t key' = (if g then zadd token (now + 60) ?z else ?z)"
    using run' by (auto simp: key1 zkey_get_expire zkey_get_map split: if_splits)
  have "length (zadd token (now + 60) ?z) \<le> Suc (length ?z)"
    using zs.size_add [OF z] by simp
  moreover have "length ?z \<le> slots_stored key"
    by (rule order.trans [OF _ length_zkey_get [of t key]]) (simp add: zrem_upto_def)
  ultimately show "slots_stored key' \<le> (if g then Suc (length ?z) else slots_stored key)"
    using run' by (auto simp: slots_stored_map key1 split: if_splits
        intro: order.trans [OF slots_stored_expire])
qed

interpretation slots: bounded_pool zkey_ok slots_stored
  "\<lambda>(now, t) token. acquire_slot_key (int cap) now token t"
  "\<lambda>(now, t) token. release_slot_key token t" cap for cap
proof unfold_locales
  fix s :: "string zset rkey" and a :: "rat \<times> rat" and k :: string
  obtain now t where a: "a = (now, t)" by (cases a)
  obtain g s' where run: "acquire_slot_key (int cap) now k t s = (g, s')"
    by (cases "acquire_slot_key (int cap) now k t s")
  assume ok: "zkey_ok s"
  note acq = acquire_slot_cases [OF ok run]
  show "zkey_ok (snd ((case a of (now, t) \<Rightarrow> \<lambda>token. acquire_slot_key (int cap) now token t) k s))"
    using acq(1) by (simp add: a run)
  show "zkey_ok ((case a of (now, t) \<Rightarrow> \<lambda>token. release_slot_key token t) k s)"
    by (simp add: a release_slot_key_def zkey_ok_map zs.ok_rem zkey_ok_get ok)
  show "slots_stored ((case a of (now, t) \<Rightarrow> \<lambda>token. release_slot_key token t) k s) \<le> slots_stored s"
    using length_zkey_get [of t s] by (auto simp: a release_slot_key_def slots_stored_map zrem_def
        intro: order.trans [OF length_filter_le])
  assume "slots_stored s \<le> cap"
  then show "slots_stored (snd ((case a of (now, t) \<Rightarrow> \<lambda>token. acquire_slot_key (int cap) now token t) k s)) \<le> cap"
    using acq(2,4) by (auto simp: a run split: if_splits)
qed

section \<open>Properties\<close>

text \<open>C23: The token bucket of a tenant whose rate is at least one per second, on a clock the callers
  share with the server: over any sequence of calls at non-decreasing times, from a well-formed
  bucket, the tenant is granted at most \<open>rate\<close> tokens plus \<open>rate\<close> per second elapsed; the bucket is
  well formed after the run (its tokens within the burst, its time not in the future, its expiry a
  minute after it); and every call of the run is granted exactly if the bucket it found, as the
  calls before it left it, is worth a token at that time.\<close>

theorem token_bucket_rate:
  assumes "1 \<le> rate" and "bucket_ok (of_int rate) t0 key" and "sorted (t0 # ts)"
    and "take_run rate ts key = (n, key')"
  shows "of_nat n \<le> of_int rate * (1 + (last (t0 # ts) - t0)) \<and>
    bucket_ok (of_int rate) (last (t0 # ts)) key' \<and>
    (\<forall>us t vs. ts = us @ t # vs \<longrightarrow>
       (fst (take_token_key rate t t (snd (take_run rate us key))) \<longleftrightarrow> 1 \<le> worth (of_int rate) t (snd (take_run rate us key))))"
proof (intro conjI allI impI)
  have "worth (of_int rate) t0 key \<le> of_int rate"
    by (auto simp: worth_def split: option.splits)
  then show "of_nat n \<le> of_int rate * (1 + (last (t0 # ts) - t0))"
    using take_run_bound [OF assms] by (simp add: algebra_simps)
  show "bucket_ok (of_int rate) (last (t0 # ts)) key'"
    using take_run_ok [OF assms(1-3)] assms(4) by simp
  fix us t vs
  assume ts: "ts = us @ t # vs"
  then have "sorted (t0 # us)" and later: "last (t0 # us) \<le> t"
    using assms(3) by (auto simp: sorted_append)
  then have "bucket_ok (of_int rate) t (snd (take_run rate us key))"
    using worth_later(1) [OF _ take_run_ok [OF assms(1,2)] later] assms(1) by simp
  then show "fst (take_token_key rate t t (snd (take_run rate us key))) \<longleftrightarrow> 1 \<le> worth (of_int rate) t (snd (take_run rate us key))"
    using take_token_effect(3) [OF assms(1)] by (metis prod.collapse)
qed

theorem token_bucket_rate_witness:
  "fst (take_run 2 [0, 0, 0, 1 / 2] None) = 3 \<and>
   of_nat 3 \<le> of_int 2 * (1 + (last [0, 0, 0, 0, 1 / 2] - (0 :: rat)))"
proof -
  obtain n key' where run: "take_run 2 [0, 0, 0, 1 / 2] None = (n, key')"
    by (cases "take_run 2 [0, 0, 0, 1 / 2] None")
  have n: "n = 3"
    using run by (simp add: take_token_key_def TOKEN_BUCKET_LUA_def expire_def Let_def)
  have "of_nat n \<le> of_int 2 * (1 + (last [0, 0, 0, 0, 1 / 2] - (0 :: rat)))"
    using token_bucket_rate [of 2 0 None "[0, 0, 0, 1 / 2]" n key'] run
    by (simp add: bucket_ok_def)
  with n run show ?thesis by simp
qed

text \<open>Calls from workers whose clocks differ: each with its own \<open>now\<close>, at the server's time.\<close>

fun take_calls :: "int \<Rightarrow> (rat \<times> rat) list \<Rightarrow> bucket rkey \<Rightarrow> nat \<times> bucket rkey" where
  "take_calls rate [] key = (0, key)"
| "take_calls rate ((now, t) # cs) key =
     (case take_token_key rate now t key of (granted, key') \<Rightarrow>
        (case take_calls rate cs key' of (n, key'') \<Rightarrow> (n + (if granted then 1 else 0), key'')))"

lemma take_token_some:
  assumes "key_get t key = Some b"
    and "w = min (of_int rate) (bk_tokens b + max 0 (now - bk_updated_at b) * of_int rate)"
  shows "take_token_key rate now t key =
    (1 \<le> w, Some (\<lparr>bk_tokens = (if 1 \<le> w then w - 1 else w), bk_updated_at = now\<rparr>, Some (t + 60)))"
  using assms by (auto simp: take_token_key_def TOKEN_BUCKET_LUA_def expire_def Let_def)

lemma take_full:
  assumes "1 \<le> rate" and "key_get t key = Some b" and "0 \<le> bk_tokens b" and "bk_updated_at b + 1 \<le> now"
  shows "take_token_key rate now t key = (True, Some (\<lparr>bk_tokens = of_int rate - 1, bk_updated_at = now\<rparr>, Some (t + 60)))"
proof -
  have r: "(1::rat) \<le> of_int rate" using assms(1) by simp
  then have "of_int rate * 1 \<le> of_int rate * (now - bk_updated_at b)"
    using assms(4) by (intro mult_left_mono) auto
  then have "of_int rate = (min (of_int rate) (bk_tokens b + max 0 (now - bk_updated_at b) * of_int rate) :: rat)"
    using assms(3,4) by (simp add: max_def mult.commute)
  then show ?thesis
    using r take_token_some [OF assms(2)] by simp
qed

lemma take_late:
  assumes "key_get t key = Some b" and "0 \<le> bk_tokens b" and "bk_tokens b \<le> of_int rate" and "now \<le> bk_updated_at b"
  obtains g b' where "take_token_key rate now t key = (g, Some (b', Some (t + 60)))"
    and "0 \<le> bk_tokens b'" and "bk_updated_at b' = now"
proof -
  have w: "bk_tokens b = min (of_int rate) (bk_tokens b + max 0 (now - bk_updated_at b) * of_int rate)"
    using assms(3,4) by (simp add: min_def max_def)
  show ?thesis
    using assms(2) by (intro that [OF take_token_some [OF assms(1) w]]) auto
qed

text \<open>The bucket is not immune to clock skew, although its comment says it keeps its own clock:
  \<open>now\<close> is the caller's, and a caller whose clock is one second behind moves the stored time
  back.  Two workers one second apart, calling in turn within a single instant of the
  server, are granted at least one token per pair of calls for as long as they go on.\<close>

theorem skewed_clocks_defeat_rate:
  assumes "1 \<le> rate"
  shows "n \<le> fst (take_calls rate (concat (replicate n [(now, t), (now - 1, t)])) None)"
proof -
  have pairs: "m \<le> fst (take_calls rate (concat (replicate m [(now, t), (now - 1, t)])) key)"
    if "key_get t key = Some b" "0 \<le> bk_tokens b" "bk_updated_at b + 1 \<le> now" for m key b
    using that
  proof (induction m arbitrary: key b)
    case (Suc m)
    obtain g b' where late: "take_token_key rate (now - 1) t
        (Some (\<lparr>bk_tokens = of_int rate - 1, bk_updated_at = now\<rparr>, Some (t + 60))) = (g, Some (b', Some (t + 60)))"
      and b': "0 \<le> bk_tokens b'" "bk_updated_at b' = now - 1"
      by (rule take_late [where t = t and now = "now - 1" and rate = rate and b = "\<lparr>bk_tokens = of_int rate - 1, bk_updated_at = now\<rparr>"
            and key = "Some (\<lparr>bk_tokens = of_int rate - 1, bk_updated_at = now\<rparr>, Some (t + 60))"])
        (use assms in auto)
    have "m \<le> fst (take_calls rate (concat (replicate m [(now, t), (now - 1, t)])) (Some (b', Some (t + 60))))"
      by (rule Suc.IH) (use b' in auto)
    then show ?case
      using take_full [OF assms Suc.prems] late by (simp add: case_prod_beta)
  qed simp
  show ?thesis
  proof (cases n)
    case (Suc m)
    have first: "take_token_key rate now t None =
        (True, Some (\<lparr>bk_tokens = of_int rate - 1, bk_updated_at = now\<rparr>, Some (t + 60)))"
      using assms by (simp add: take_token_key_def TOKEN_BUCKET_LUA_def expire_def)
    obtain g b' where late: "take_token_key rate (now - 1) t
        (Some (\<lparr>bk_tokens = of_int rate - 1, bk_updated_at = now\<rparr>, Some (t + 60))) = (g, Some (b', Some (t + 60)))"
      and b': "0 \<le> bk_tokens b'" "bk_updated_at b' = now - 1"
      by (rule take_late [where t = t and now = "now - 1" and rate = rate and b = "\<lparr>bk_tokens = of_int rate - 1, bk_updated_at = now\<rparr>"
            and key = "Some (\<lparr>bk_tokens = of_int rate - 1, bk_updated_at = now\<rparr>, Some (t + 60))"])
        (use assms in auto)
    show ?thesis
      using first late pairs [of "Some (b', Some (t + 60))" b' m] b' Suc by (simp add: case_prod_beta)
  qed simp
qed

theorem skewed_clocks_defeat_rate_witness:
  "100 \<le> fst (take_calls 1 (concat (replicate 100 [(7, 7), (7 - 1, 7)])) None)"
  by (rule skewed_clocks_defeat_rate) simp

text \<open>
  The slots as their holders see them: acquisitions and releases at given times, on a clock the
  callers share with the server, with a ghost that remembers when each token was granted and not
  released since.  A holder holds its slot until it releases it or sixty seconds have passed.
\<close>

fun slot_run :: "int \<Rightarrow> (rat, string) pool_op list \<Rightarrow> string zset rkey \<times> (string \<Rightarrow> rat option) \<Rightarrow>
    string zset rkey \<times> (string \<Rightarrow> rat option)" where
  "slot_run cap [] s = s"
| "slot_run cap (Acquire t token # ops) (key, held) =
     (case acquire_slot_key cap t token t key of (granted, key') \<Rightarrow>
        slot_run cap ops (key', if granted then held(token \<mapsto> t) else held))"
| "slot_run cap (Release t token # ops) (key, held) =
     slot_run cap ops (release_slot_key token t key, held(token := None))"

fun op_time :: "('a, 'k) pool_op \<Rightarrow> 'a" where
  "op_time (Acquire t k) = t"
| "op_time (Release t k) = t"

definition holders :: "rat \<Rightarrow> (string \<Rightarrow> rat option) \<Rightarrow> string set" where
  "holders t held = {token. \<exists>t0. held token = Some t0 \<and> t < t0 + 60}"

text \<open>A slot granted at \<open>t0\<close> is kept: its token is in the stored set with the score \<open>t0 + 60\<close>, and the key
  outlives it.\<close>

definition kept :: "rat \<Rightarrow> string \<Rightarrow> string zset rkey \<Rightarrow> bool" where
  "kept t0 token key \<longleftrightarrow> (\<exists>z e. key = Some (z, e) \<and> zscore z token = Some (t0 + 60) \<and> (\<forall>x. e = Some x \<longrightarrow> t0 + 120 \<le> x))"

definition slots_agree :: "rat \<Rightarrow> string zset rkey \<Rightarrow> (string \<Rightarrow> rat option) \<Rightarrow> bool" where
  "slots_agree t key held \<longleftrightarrow> zkey_ok key \<and>
     (\<forall>token t0. held token = Some t0 \<and> t < t0 + 60 \<longrightarrow> t0 \<le> t \<and> kept t0 token key)"

lemma kept_get:
  assumes "kept t0 token key" and "t < t0 + 60"
  obtains z e where "live t key = Some (z, e)" and "zkey_get t key = z" and "zscore z token = Some (t0 + 60)"
    and "\<forall>x. e = Some x \<longrightarrow> t0 + 120 \<le> x"
proof -
  obtain z e where key: "key = Some (z, e)" "zscore z token = Some (t0 + 60)" "\<forall>x. e = Some x \<longrightarrow> t0 + 120 \<le> x"
    using assms(1) by (auto simp: kept_def)
  then have "live t key = Some (z, e)" using assms(2) by (cases e) (auto simp: live_def)
  then show ?thesis using key by (intro that [of z e]) (simp_all add: zkey_get_def key_get_def)
qed

lemma kept_map:
  assumes "kept t0 token key" and "t < t0 + 60" and "zscore (f (zkey_get t key)) token = Some (t0 + 60)"
  shows "kept t0 token (zkey_map t f key)"
proof -
  obtain z e where "live t key = Some (z, e)" "\<forall>x. e = Some x \<longrightarrow> t0 + 120 \<le> x" using kept_get [OF assms(1,2)] by metis
  moreover have "f (zkey_get t key) \<noteq> []" using assms(3) by (auto simp: zscore_def)
  ultimately show ?thesis using assms(3) by (simp add: zkey_map_def kept_def)
qed

lemma kept_expire:
  assumes "kept t0 token key" and "t < t0 + 60" and "t0 \<le> t"
  shows "kept t0 token (expire t 120 key)"
proof -
  obtain z e where "live t key = Some (z, e)" "zscore z token = Some (t0 + 60)" using kept_get [OF assms(1,2)] by metis
  then show ?thesis using assms(3) by (simp add: expire_def kept_def)
qed

lemma kept_later: "slots_agree t key held \<Longrightarrow> t \<le> t' \<Longrightarrow> slots_agree t' key held"
  unfolding slots_agree_def by fastforce

text \<open>The script on one clock, and what it does to the slots that are held.\<close>

lemma acquire_slot_form:
  "acquire_slot_key cap now token t key =
     (let key1 = zkey_map t (zrem_upto now) key in
      if cap \<le> int (length (zrem_upto now (zkey_get t key))) then (False, key1)
      else (True, expire t 120 (zkey_map t (zadd token (now + 60)) key1)))"
  by (simp add: acquire_slot_key_def ACQUIRE_SLOT_LUA_def SLOT_TTL_SECONDS_def zkey_get_map Let_def)

lemma kept_trim:
  assumes "zkey_ok key" and "kept t0 token key" and "t < t0 + 60"
  shows "kept t0 token (zkey_map t (zrem_upto t) key)"
proof (rule kept_map [OF assms(2,3)])
  have "zscore (zkey_get t key) token = Some (t0 + 60)" using kept_get [OF assms(2,3)] by metis
  then show "zscore (zrem_upto t (zkey_get t key)) token = Some (t0 + 60)"
    using zs.score_trim [OF zkey_ok_get [OF assms(1)]] assms(3) by simp
qed

lemma kept_add:
  assumes "zkey_ok key" and "kept t0 k key" and "t < t0 + 60" and "t0 \<le> t" and "k \<noteq> token"
  shows "kept t0 k (expire t 120 (zkey_map t (zadd token s) key))"
proof (rule kept_expire [OF kept_map [OF assms(2,3)] assms(3,4)])
  have "zscore (zkey_get t key) k = Some (t0 + 60)" using kept_get [OF assms(2,3)] by metis
  then show "zscore (zadd token s (zkey_get t key)) k = Some (t0 + 60)"
    using zs.score_add [OF zkey_ok_get [OF assms(1)]] assms(5) by simp
qed

lemma kept_new:
  assumes "zkey_ok key"
  shows "kept t token (expire t 120 (zkey_map t (zadd token (t + 60)) key))"
proof -
  let ?z = "zadd token (t + 60) (zkey_get t key)"
  have s: "zscore ?z token = Some (t + 60)" using zs.score_add [OF zkey_ok_get [OF assms]] by simp
  then have "?z \<noteq> []" by (auto simp: zscore_def)
  then have "zkey_map t (zadd token (t + 60)) key = Some (?z, case live t key of None \<Rightarrow> None | Some (_, e) \<Rightarrow> e)"
    by (simp add: zkey_map_def)
  moreover have "live t (Some (?z, case live t key of None \<Rightarrow> None | Some (_, e) \<Rightarrow> e)) = Some (?z, case live t key of None \<Rightarrow> None | Some (_, e) \<Rightarrow> e)"
    by (auto simp: live_def split: option.splits if_splits)
  ultimately show ?thesis using s by (simp add: expire_def kept_def)
qed

lemma acquire_agrees:
  assumes agree: "slots_agree t key held" and run: "acquire_slot_key cap t token t key = (granted, key')"
  shows "slots_agree t key' (if granted then held(token \<mapsto> t) else held)"
proof -
  let ?key1 = "zkey_map t (zrem_upto t) key"
  have ok: "zkey_ok key" using agree by (simp add: slots_agree_def)
  have ok1: "zkey_ok ?key1" by (rule zkey_ok_map) (rule zset_ok_trim_get [OF ok])
  have old: "t0 \<le> t \<and> kept t0 k ?key1" if "held k = Some t0" "t < t0 + 60" for k t0
    using agree that kept_trim [OF ok] unfolding slots_agree_def by blast
  have final: "zkey_ok key'" by (rule acquire_slot_cases(1) [OF ok run])
  show ?thesis
  proof (cases granted)
    case True
    then have key': "key' = expire t 120 (zkey_map t (zadd token (t + 60)) ?key1)"
      using run by (auto simp: acquire_slot_form Let_def split: if_splits)
    have "t0 \<le> t \<and> kept t0 k key'" if "(held(token \<mapsto> t)) k = Some t0 \<and> t < t0 + 60" for k t0
    proof (cases "k = token")
      case True
      then show ?thesis using that kept_new [OF ok1] by (simp add: key')
    next
      case False
      then show ?thesis using that old [of k t0] kept_add [OF ok1] by (simp add: key')
    qed
    then have "slots_agree t key' (held(token \<mapsto> t))" using final unfolding slots_agree_def by blast
    then show ?thesis using True by simp
  next
    case False
    then have "key' = ?key1" using run by (auto simp: acquire_slot_form Let_def split: if_splits)
    then show ?thesis using False final old by (auto simp: slots_agree_def)
  qed
qed

lemma release_agrees:
  assumes "slots_agree t key held"
  shows "slots_agree t (release_slot_key token t key) (held(token := None))"
proof -
  have ok: "zkey_ok key" using assms by (simp add: slots_agree_def)
  have "t0 \<le> t \<and> kept t0 k (release_slot_key token t key)" if "(held(token := None)) k = Some t0 \<and> t < t0 + 60" for k t0
  proof -
    have k: "k \<noteq> token" "t0 \<le> t" "kept t0 k key" using that assms by (auto simp: slots_agree_def split: if_splits)
    have "zscore (zkey_get t key) k = Some (t0 + 60)" using kept_get [OF k(3)] that by metis
    then have "zscore (zrem token (zkey_get t key)) k = Some (t0 + 60)"
      using zs.score_rem [OF zkey_ok_get [OF ok]] k(1) by simp
    then show ?thesis using k kept_map [OF k(3)] that by (simp add: release_slot_key_def)
  qed
  moreover have "zkey_ok (release_slot_key token t key)"
    by (simp add: release_slot_key_def zkey_ok_map zs.ok_rem zkey_ok_get ok)
  ultimately show ?thesis unfolding slots_agree_def by blast
qed

lemma slot_run_agrees:
  assumes "slots_agree t0 key held" and "sorted (t0 # map op_time ops)"
  shows "slots_agree (last (t0 # map op_time ops)) (fst (slot_run cap ops (key, held))) (snd (slot_run cap ops (key, held)))"
  using assms
proof (induction ops arbitrary: t0 key held)
  case (Cons op ops)
  then have agree: "slots_agree (op_time op) key held" and sorted: "sorted (op_time op # map op_time ops)"
    by (auto intro: kept_later)
  have "\<exists>key' held'. slot_run cap (op # ops) (key, held) = slot_run cap ops (key', held') \<and> slots_agree (op_time op) key' held'"
  proof (cases op)
    case (Acquire t token)
    obtain g key' where run: "acquire_slot_key cap t token t key = (g, key')" by (cases "acquire_slot_key cap t token t key")
    have "slots_agree t key' (if g then held(token \<mapsto> t) else held)" using acquire_agrees [OF _ run] agree by (simp only: Acquire op_time.simps)
    then show ?thesis
      by (intro exI [of _ key'] exI [of _ "if g then held(token \<mapsto> t) else held"]) (simp only: Acquire slot_run.simps run prod.case op_time.simps simp_thms)
  next
    case (Release t token)
    have "slots_agree t (release_slot_key token t key) (held(token := None))" using release_agrees agree by (simp only: Release op_time.simps)
    then show ?thesis
      by (intro exI [of _ "release_slot_key token t key"] exI [of _ "held(token := None)"]) (simp only: Release slot_run.simps op_time.simps simp_thms)
  qed
  then obtain key' held' where "slot_run cap (op # ops) (key, held) = slot_run cap ops (key', held')" and "slots_agree (op_time op) key' held'"
    by blast
  then show ?case using Cons.IH sorted by simp
qed simp

text \<open>The stored set is that of a run of the pool, so the cap bounds it.\<close>

fun both_clocks :: "(rat, string) pool_op \<Rightarrow> (rat \<times> rat, string) pool_op" where
  "both_clocks (Acquire t k) = Acquire (t, t) k"
| "both_clocks (Release t k) = Release (t, t) k"

lemma slot_run_pool:
  "fst (slot_run cap ops (key, held)) = pool_run (\<lambda>(now, t) token. acquire_slot_key cap now token t)
     (\<lambda>(now, t) token. release_slot_key token t) (map both_clocks ops) key"
proof (induction ops arbitrary: key held)
  case (Cons op ops)
  then show ?case by (cases op) (simp_all add: case_prod_beta)
qed simp

lemma holders_stored:
  assumes "slots_agree t key held"
  shows "finite (holders t held) \<and> card (holders t held) \<le> slots_stored key"
proof -
  have ok: "zset_ok (zkey_get t key)" using assms by (simp add: slots_agree_def zkey_ok_get)
  have "holders t held \<subseteq> dom (zscore (zkey_get t key))"
  proof
    fix token assume "token \<in> holders t held"
    then obtain t0 where t0: "kept t0 token key" "t < t0 + 60" using assms by (auto simp: holders_def slots_agree_def)
    then show "token \<in> dom (zscore (zkey_get t key))" using kept_get [OF t0] by (metis domI)
  qed
  then have "finite (holders t held)" "card (holders t held) \<le> length (zkey_get t key)"
    using zs.finite_score [OF ok] zs.size_score [OF ok] by (auto intro: finite_subset card_mono)
  then show ?thesis using length_zkey_get [of t key] by simp
qed

text \<open>C24: The concurrency cap, on a clock the callers share with the server: from an empty tenant,
  after any sequence of acquisitions and releases at non-decreasing times, with any tokens, and at
  any time from then on, at most \<open>cap\<close> tokens are held, that is, were granted less than sixty
  seconds ago and not released since; and every one of them is in the set the script counts, with
  the end of its sixty seconds as its score.\<close>

theorem inflight_cap:
  assumes "sorted (map op_time ops @ [t])" and "slot_run (int cap) ops (None, \<lambda>_. None) = (key, held)"
  shows "finite (holders t held) \<and> card (holders t held) \<le> cap \<and>
    (\<forall>token t0. held token = Some t0 \<and> t < t0 + 60 \<longrightarrow> zscore (zkey_get t key) token = Some (t0 + 60))"
proof -
  have start: "slots_agree t1 None (\<lambda>_. None)" for t1 by (simp add: slots_agree_def)
  have agree: "slots_agree t key held"
  proof (cases ops)
    case Nil
    then show ?thesis using assms(2) start by simp
  next
    case (Cons op ops')
    have "sorted (op_time op # map op_time ops)" and before: "\<forall>x \<in> set (op_time op # map op_time ops). x \<le> t"
      using assms(1) by (auto simp: Cons sorted_append)
    moreover have "last (op_time op # map op_time ops) \<le> t" using before last_in_set by blast
    ultimately have "sorted (op_time op # map op_time ops)" and "last (op_time op # map op_time ops) \<le> t" by simp_all
    then show ?thesis
      using slot_run_agrees [OF start, of "op_time op" ops "int cap"] assms(2) by (auto intro: kept_later)
  qed
  have "slots_stored key \<le> cap"
    using slots.run_bounded [of None cap "map both_clocks ops"] slot_run_pool [of "int cap" ops None "\<lambda>_. None"] assms(2)
    by (simp add: slots_stored_def)
  moreover have "zscore (zkey_get t key) token = Some (t0 + 60)" if "held token = Some t0 \<and> t < t0 + 60" for token t0
    using agree that kept_get [of t0 token key t] by (metis slots_agree_def)
  ultimately show ?thesis using holders_stored [OF agree] by auto
qed

theorem inflight_cap_witness:
  "let (key, held) = slot_run 1 [Acquire 0 ''a'', Acquire 30 ''b'', Release 40 ''a'', Acquire 50 ''b''] (None, \<lambda>_. None) in
     holders 60 held = {''b''} \<and> card (holders 60 held) \<le> 1"
proof -
  obtain key held where run: "slot_run 1 [Acquire 0 ''a'', Acquire 30 ''b'', Release 40 ''a'', Acquire 50 ''b''] (None, \<lambda>_. None) = (key, held)"
    by fastforce
  then have "held = [''b'' \<mapsto> 50]"
    by (auto simp: acquire_slot_form release_slot_key_def zkey_map_def zkey_get_def key_get_def live_def expire_def zadd_def zrem_def
        zrem_upto_def Let_def)
  then have "holders 60 held = {''b''}" by (auto simp: holders_def split: if_splits)
  moreover have "card (holders 60 held) \<le> 1"
    using inflight_cap [of "[Acquire 0 ''a'', Acquire 30 ''b'', Release 40 ''a'', Acquire 50 ''b'']" 60 1 key held] run by simp
  ultimately show ?thesis using run by simp
qed

text \<open>A slot cannot leak: an acquisition is refused only when \<open>cap\<close> slots that have not aged out
  are held, and a slot whose holder never returned it stops counting sixty seconds after it
  was granted, on the clock of the caller.\<close>

theorem slot_refused_only_when_full:
  assumes "zkey_ok key" and "acquire_slot_key cap now token t key = (False, key')"
  shows "cap \<le> int (card {m. \<exists>s. zscore (zkey_get t key) m = Some s \<and> now < s}) \<and>
    (\<forall>m s. zscore (zkey_get t key') m = Some s \<longrightarrow> now < s)"
proof -
  let ?z = "zkey_get t key"
  have z: "zset_ok ?z" "zset_ok (zrem_upto now ?z)"
    using assms(1) by (simp_all add: zkey_ok_get zs.ok_trim)
  have dom: "dom (zscore (zrem_upto now ?z)) = {m. \<exists>s. zscore ?z m = Some s \<and> now < s}"
    by (auto simp: zs.score_trim [OF z(1)] dom_def not_le split: option.splits if_splits)
  note cases = acquire_slot_cases [OF assms]
  have "cap \<le> int (length (zrem_upto now ?z))" using cases(2) by simp
  then have "cap \<le> int (card {m. \<exists>s. zscore ?z m = Some s \<and> now < s})"
    using zs.size_score [OF z(2)] dom by simp
  moreover have "zkey_get t key' = zrem_upto now ?z" using cases(3) by simp
  ultimately show ?thesis
    by (auto simp: zs.score_trim [OF z(1)] not_le split: option.splits if_splits)
qed

theorem slot_refused_only_when_full_witness:
  "(1::int) \<le> int (card {m. \<exists>s. zscore (zkey_get 5 (Some ([(''a'', 65)], Some 125))) m = Some s \<and> (5::rat) < s})"
proof -
  have "acquire_slot_key 1 5 ''b'' 5 (Some ([(''a'', 65)], Some 125)) = (False, Some ([(''a'', 65)], Some 125))"
    by (simp add: acquire_slot_key_def ACQUIRE_SLOT_LUA_def zkey_map_def zkey_get_def zrem_upto_def)
  from slot_refused_only_when_full [OF _ this] show ?thesis
    by (simp add: zkey_ok_def zset_ok_def)
qed

end
