(* ===== verification/Ordering.thy ===== *)
theory Ordering
  imports Redis
begin

text \<open>
  Strict per-endpoint order (\<open>relay/delivery/ordering.py\<close>): the endpoint's lock key and its
  list of delivery identifiers, as functions on the values of the two keys.  The interfaces
  the worker relies on are the locales \<open>lease_lock\<close> and \<open>fifo\<close>.
\<close>

section \<open>The lock\<close>

definition LOCK_TTL_MS :: int where "LOCK_TTL_MS = 30000"

definition lock_ttl :: rat where "lock_ttl = of_int LOCK_TTL_MS / 1000"

definition RELEASE_LOCK_LUA :: "string \<Rightarrow> rat \<Rightarrow> string rkey \<Rightarrow> int \<times> string rkey" where
  "RELEASE_LOCK_LUA token t key =
     (if key_get t key = Some token then (1, None) else (0, live t key))"

definition acquire_lock_key :: "string \<Rightarrow> rat \<Rightarrow> string rkey \<Rightarrow> bool \<times> string rkey" where
  "acquire_lock_key token t key = set_nx t token lock_ttl key"

definition release_lock_key :: "string \<Rightarrow> rat \<Rightarrow> string rkey \<Rightarrow> string rkey" where
  "release_lock_key token t key = snd (RELEASE_LOCK_LUA token t key)"

section \<open>The queue\<close>

text \<open>\<open>peek_head\<close> answers \<open>None\<close> when \<open>uuid.UUID(head)\<close> raises.\<close>

definition enqueue_ordered_list :: "uuid \<Rightarrow> string list \<Rightarrow> string list" where
  "enqueue_ordered_list delivery_id q = q @ [uuid_str delivery_id]"

definition peek_head_list :: "string list \<Rightarrow> uuid option option" where
  "peek_head_list q = (case q of
     [] \<Rightarrow> Some None
   | head # _ \<Rightarrow> if head = '''' then Some None else map_option Some (uuid_parse head))"

definition pop_head_list :: "uuid \<Rightarrow> string list \<Rightarrow> bool \<times> string list" where
  "pop_head_list delivery_id q = (uuid_str delivery_id \<in> set q, remove1 (uuid_str delivery_id) q)"

definition queue_depth_list :: "string list \<Rightarrow> int" where
  "queue_depth_list q = int (length q)"

section \<open>A lock that is a lease\<close>

datatype 'k lock_op = Lock 'k | Unlock 'k

text \<open>A run is a list of operations with the server's time of each.\<close>

fun lock_run :: "('k \<Rightarrow> rat \<Rightarrow> 's \<Rightarrow> bool \<times> 's) \<Rightarrow> ('k \<Rightarrow> rat \<Rightarrow> 's \<Rightarrow> 's) \<Rightarrow> ('k lock_op \<times> rat) list \<Rightarrow> 's \<Rightarrow> 's" where
  "lock_run acq rel [] s = s"
| "lock_run acq rel ((Lock k, t) # ops) s = lock_run acq rel ops (snd (acq k t s))"
| "lock_run acq rel ((Unlock k, t) # ops) s = lock_run acq rel ops (rel k t s)"

locale lease_lock =
  fixes acq :: "'k \<Rightarrow> rat \<Rightarrow> 's \<Rightarrow> bool \<times> 's"
    and rel :: "'k \<Rightarrow> rat \<Rightarrow> 's \<Rightarrow> 's"
    and holder :: "rat \<Rightarrow> 's \<Rightarrow> 'k option"
    and ttl :: rat
  assumes acq_granted: "fst (acq k t s) \<longleftrightarrow> holder t s = None"
    and holder_granted: "fst (acq k t s) \<Longrightarrow> t \<le> t' \<Longrightarrow>
          holder t' (snd (acq k t s)) = (if t' < t + ttl then Some k else None)"
    and holder_refused: "\<not> fst (acq k t s) \<Longrightarrow> t \<le> t' \<Longrightarrow> holder t' (snd (acq k t s)) = holder t' s"
    and holder_rel: "t \<le> t' \<Longrightarrow> holder t' (rel k t s) = (if holder t s = Some k then None else holder t' s)"
begin

abbreviation run :: "('k lock_op \<times> rat) list \<Rightarrow> 's \<Rightarrow> 's" where
  "run \<equiv> lock_run acq rel"

text \<open>A holder keeps the lock until it releases it or its lease runs out.\<close>

lemma held_through:
  assumes "\<forall>t'. t \<le> t' \<longrightarrow> t' < e \<longrightarrow> holder t' s = Some k"
    and "sorted (t # map snd ops)" and "last (t # map snd ops) < e"
    and "Unlock k \<notin> fst ` set ops"
  shows "\<forall>t'. last (t # map snd ops) \<le> t' \<longrightarrow> t' < e \<longrightarrow> holder t' (run ops s) = Some k"
  using assms
proof (induction ops arbitrary: t s)
  case Nil
  then show ?case by simp
next
  case (Cons op ops)
  obtain x u where op: "op = (x, u)" by (cases op)
  have u: "t \<le> u" "sorted (u # map snd ops)" using Cons.prems(2) by (auto simp: op)
  have "u \<le> last (u # map snd ops)"
    using u(2) by (cases "map snd ops" rule: rev_cases) auto
  then have ue: "u < e" using Cons.prems(3) by (simp add: op)
  have here: "holder u s = Some k" using Cons.prems(1) u(1) ue by blast
  obtain s' where s': "run (op # ops) s = run ops s'"
    and kept: "\<forall>t'. u \<le> t' \<longrightarrow> t' < e \<longrightarrow> holder t' s' = Some k"
  proof (cases x)
    case (Lock j)
    have "\<not> fst (acq j u s)" using here by (simp add: acq_granted)
    then show ?thesis
      using Cons.prems(1) u(1) by (intro that [of "snd (acq j u s)"]) (auto simp: op Lock holder_refused)
  next
    case (Unlock j)
    have "j \<noteq> k" using Cons.prems(4) by (auto simp: op Unlock)
    then show ?thesis
      using Cons.prems(1) u(1) here by (intro that [of "rel j u s"]) (auto simp: op Unlock holder_rel)
  qed
  have "\<forall>t'. last (u # map snd ops) \<le> t' \<longrightarrow> t' < e \<longrightarrow> holder t' (run ops s') = Some k"
    by (rule Cons.IH [OF kept u(2)]) (use Cons.prems(3,4) in \<open>auto simp: op\<close>)
  then show ?case unfolding s' by (simp add: op)
qed

lemma exclusion:
  assumes "fst (acq k t s)" and "fst (acq k' t' (run ops (snd (acq k t s))))"
    and "sorted (t # map snd ops @ [t'])" and "t' < t + ttl"
  shows "Unlock k \<in> fst ` set ops"
proof (rule ccontr)
  assume no: "Unlock k \<notin> fst ` set ops"
  have sorted: "sorted (t # map snd ops)" and last: "last (t # map snd ops) \<le> t'"
    using assms(3) by (auto simp: sorted_append last_map)
  have "holder t' (run ops (snd (acq k t s))) = Some k"
    using held_through [of t "t + ttl" "snd (acq k t s)" k ops] no sorted last assms(1,4)
    by (auto simp: holder_granted)
  then show False using assms(2) by (simp add: acq_granted)
qed

lemma free_after_expiry:
  "fst (acq k t s) \<Longrightarrow> 0 \<le> ttl \<Longrightarrow> t + ttl \<le> t' \<Longrightarrow> fst (acq k' t' (snd (acq k t s)))"
  by (simp add: acq_granted holder_granted)

lemma free_after_release:
  "fst (acq k t s) \<Longrightarrow> t \<le> t' \<Longrightarrow> t' \<le> t'' \<Longrightarrow> fst (acq k' t'' (rel k t' (snd (acq k t s))))"
  by (simp add: acq_granted holder_granted holder_rel)

end

lemma key_get_later_none: "t \<le> t' \<Longrightarrow> key_get t k = None \<Longrightarrow> key_get t' k = None"
  by (auto simp: key_get_def live_def split: option.splits if_splits)

lemma key_get_live_later: "t \<le> t' \<Longrightarrow> key_get t' (live t k) = key_get t' k"
  by (auto simp: key_get_def live_def split: option.splits)

interpretation elock: lease_lock acquire_lock_key release_lock_key key_get lock_ttl
proof unfold_locales
  fix k :: string and t t' :: rat and s :: "string rkey"
  show "fst (acquire_lock_key k t s) \<longleftrightarrow> key_get t s = None"
    by (auto simp: acquire_lock_key_def set_nx_def key_get_def split: option.splits)
  then show "fst (acquire_lock_key k t s) \<Longrightarrow> t \<le> t' \<Longrightarrow>
      key_get t' (snd (acquire_lock_key k t s)) = (if t' < t + lock_ttl then Some k else None)"
    by (auto simp: acquire_lock_key_def set_nx_def key_get_def split: option.splits)
  assume le: "t \<le> t'"
  show "key_get t' (snd (acquire_lock_key k t s)) = key_get t' s" if "\<not> fst (acquire_lock_key k t s)"
    using that key_get_live_later [OF le, of s]
    by (auto simp: acquire_lock_key_def set_nx_def split: option.splits)
  show "key_get t' (release_lock_key k t s) = (if key_get t s = Some k then None else key_get t' s)"
    using key_get_live_later [OF le, of s]
    by (simp add: release_lock_key_def RELEASE_LOCK_LUA_def)
qed

section \<open>A first-in first-out queue\<close>

datatype 'a fifo_op = Enq 'a | Settle_head

text \<open>Only the head is ever settled; the run returns what was settled, in order.\<close>

fun drain_queue :: "('a \<Rightarrow> 'q \<Rightarrow> 'q) \<Rightarrow> ('q \<Rightarrow> 'a option) \<Rightarrow> ('a \<Rightarrow> 'q \<Rightarrow> 'q) \<Rightarrow> 'a fifo_op list \<Rightarrow> 'q \<Rightarrow> 'a list \<times> 'q" where
  "drain_queue enq head pop [] q = ([], q)"
| "drain_queue enq head pop (Enq x # ops) q = drain_queue enq head pop ops (enq x q)"
| "drain_queue enq head pop (Settle_head # ops) q =
     (case head q of
        None \<Rightarrow> drain_queue enq head pop ops q
      | Some x \<Rightarrow> (case drain_queue enq head pop ops (pop x q) of (xs, q') \<Rightarrow> (x # xs, q')))"

fun enqueued :: "'a fifo_op list \<Rightarrow> 'a list" where
  "enqueued [] = []"
| "enqueued (Enq x # ops) = x # enqueued ops"
| "enqueued (Settle_head # ops) = enqueued ops"

locale fifo =
  fixes ok :: "'q \<Rightarrow> bool" and contents :: "'q \<Rightarrow> 'a list"
    and enq :: "'a \<Rightarrow> 'q \<Rightarrow> 'q" and head :: "'q \<Rightarrow> 'a option" and pop :: "'a \<Rightarrow> 'q \<Rightarrow> 'q"
  assumes ok_enq: "ok q \<Longrightarrow> ok (enq x q)"
    and ok_pop: "ok q \<Longrightarrow> ok (pop x q)"
    and contents_enq: "ok q \<Longrightarrow> contents (enq x q) = contents q @ [x]"
    and head_contents: "ok q \<Longrightarrow> head q = (case contents q of [] \<Rightarrow> None | x # _ \<Rightarrow> Some x)"
    and contents_pop: "ok q \<Longrightarrow> contents (pop x q) = remove1 x (contents q)"
begin

abbreviation drain :: "'a fifo_op list \<Rightarrow> 'q \<Rightarrow> 'a list \<times> 'q" where
  "drain \<equiv> drain_queue enq head pop"

lemma drain_order:
  "ok q \<Longrightarrow> drain ops q = (xs, q') \<Longrightarrow> ok q' \<and> xs @ contents q' = contents q @ enqueued ops"
proof (induction ops arbitrary: q xs)
  case Nil
  then show ?case by simp
next
  case (Cons op ops)
  show ?case
  proof (cases op)
    case (Enq x)
    then show ?thesis using Cons.IH [of "enq x q" xs] Cons.prems by (simp add: ok_enq contents_enq)
  next
    case Settle_head
    show ?thesis
    proof (cases "contents q")
      case Nil
      then show ?thesis using Cons.IH [of q xs] Cons.prems by (simp add: Settle_head head_contents)
    next
      case (Cons x rest)
      then obtain ys where "drain ops (pop x q) = (ys, q')" and "xs = x # ys"
        using Cons.prems by (auto simp: Settle_head head_contents split: prod.splits)
      then show ?thesis
        using Cons.IH [of "pop x q" ys] Cons.prems(1) Cons by (simp add: Settle_head ok_pop contents_pop)
    qed
  qed
qed

end

text \<open>The lists the program writes hold texts of identifiers.\<close>

definition queue_ids :: "string list \<Rightarrow> uuid list" where
  "queue_ids q = map (\<lambda>s. the (uuid_parse s)) q"

definition queue_ok :: "string list \<Rightarrow> bool" where
  "queue_ok q \<longleftrightarrow> q = map uuid_str (queue_ids q)"

lemma queue_ids_strs [simp]: "queue_ids (map uuid_str ds) = ds"
  by (simp add: queue_ids_def comp_def)

lemma queue_ok_strs [simp]: "queue_ok (map uuid_str ds)"
  by (simp add: queue_ok_def)

lemma queue_okE: "queue_ok q \<Longrightarrow> (\<And>ds. q = map uuid_str ds \<Longrightarrow> P) \<Longrightarrow> P"
  by (auto simp: queue_ok_def)

lemma remove1_map_inj: "inj f \<Longrightarrow> remove1 (f x) (map f xs) = map f (remove1 x xs)"
  by (induction xs) (auto simp: inj_eq)

lemma inj_uuid_str: "inj uuid_str"
  by (simp add: inj_def)

lemma pop_head_strs: "snd (pop_head_list d (map uuid_str ds)) = map uuid_str (remove1 d ds)"
  by (simp add: pop_head_list_def remove1_map_inj inj_uuid_str)

lemma enqueue_strs: "enqueue_ordered_list d (map uuid_str ds) = map uuid_str (ds @ [d])"
  by (simp add: enqueue_ordered_list_def)

lemma peek_head_strs:
  "peek_head_list (map uuid_str ds) = Some (case ds of [] \<Rightarrow> None | d # _ \<Rightarrow> Some d)"
  by (cases ds) (simp_all add: peek_head_list_def)

text \<open>\<open>peek_head\<close> as a plain lookup, for queues it never raises on.\<close>

definition peeked :: "string list \<Rightarrow> uuid option" where
  "peeked q = (case peek_head_list q of None \<Rightarrow> None | Some h \<Rightarrow> h)"

definition drop_settled :: "uuid \<Rightarrow> string list \<Rightarrow> string list" where
  "drop_settled d q = snd (pop_head_list d q)"

interpretation equeue: fifo queue_ok queue_ids enqueue_ordered_list peeked drop_settled
proof unfold_locales
  fix q :: "string list" and d :: uuid
  assume "queue_ok q"
  then obtain ds where q: "q = map uuid_str ds" by (rule queue_okE)
  show "queue_ok (enqueue_ordered_list d q)" "queue_ok (drop_settled d q)"
    by (simp_all only: q drop_settled_def enqueue_strs pop_head_strs queue_ok_strs)
  show "queue_ids (enqueue_ordered_list d q) = queue_ids q @ [d]"
    "queue_ids (drop_settled d q) = remove1 d (queue_ids q)"
    by (simp_all only: q drop_settled_def enqueue_strs pop_head_strs queue_ids_strs)
  show "peeked q = (case queue_ids q of [] \<Rightarrow> None | x # _ \<Rightarrow> Some x)"
    by (simp only: q peeked_def peek_head_strs queue_ids_strs option.case)
qed

section \<open>Properties\<close>

text \<open>C25: Mutual exclusion of the endpoint lock: if an acquisition is granted while the lease of an
  earlier granted one has not run out, then the earlier owner itself released the lock in
  between; no other worker's release, with whatever token, can have freed it.\<close>

theorem lock_exclusion:
  assumes "fst (acquire_lock_key a t key)"
    and "fst (acquire_lock_key b t' (lock_run acquire_lock_key release_lock_key ops (snd (acquire_lock_key a t key))))"
    and "sorted (t # map snd ops @ [t'])" and "t' < t + lock_ttl"
  shows "Unlock a \<in> fst ` set ops"
  using assms by (rule elock.exclusion)

theorem lock_exclusion_witness:
  "fst (acquire_lock_key ''b'' 9 (lock_run acquire_lock_key release_lock_key [(Unlock ''c'', 7), (Unlock ''a'', 8)] (snd (acquire_lock_key ''a'' 5 None))))
    \<and> Unlock ''a'' \<in> fst ` set [(Unlock ''c'', 7 :: rat), (Unlock ''a'', 8)]"
proof
  show granted: "fst (acquire_lock_key ''b'' 9
      (lock_run acquire_lock_key release_lock_key [(Unlock ''c'', 7), (Unlock ''a'', 8)] (snd (acquire_lock_key ''a'' 5 None))))"
    by (simp add: acquire_lock_key_def release_lock_key_def RELEASE_LOCK_LUA_def set_nx_def lock_ttl_def LOCK_TTL_MS_def)
  show "Unlock ''a'' \<in> fst ` set [(Unlock ''c'', 7 :: rat), (Unlock ''a'', 8)]"
    by (rule lock_exclusion [OF _ granted]) (simp_all add: acquire_lock_key_def set_nx_def lock_ttl_def LOCK_TTL_MS_def)
qed

text \<open>The lock cannot be lost: thirty seconds after it was granted, or as soon as its owner has
  released it, any worker can acquire it.\<close>

theorem lock_freed:
  assumes "fst (acquire_lock_key a t key)" and "t \<le> t'"
  shows "fst (acquire_lock_key b (t + lock_ttl) (snd (acquire_lock_key a t key))) \<and>
    fst (acquire_lock_key b t' (release_lock_key a t' (snd (acquire_lock_key a t key))))"
  using elock.free_after_expiry [OF assms(1), of "t + lock_ttl" b] elock.free_after_release [OF assms order.refl, of b]
  by (simp add: lock_ttl_def LOCK_TTL_MS_def)

theorem lock_freed_witness:
  "fst (acquire_lock_key ''b'' (5 + lock_ttl) (snd (acquire_lock_key ''a'' 5 None))) \<and>
    fst (acquire_lock_key ''b'' 6 (release_lock_key ''a'' 6 (snd (acquire_lock_key ''a'' 5 None))))"
  by (rule lock_freed) (simp_all add: acquire_lock_key_def set_nx_def)

text \<open>Deliveries leave an endpoint's queue in the order they entered it: over any sequence of
  enqueues and of settlements of the current head, what was settled followed by what is
  still queued is what was queued followed by what was enqueued.\<close>

theorem ordered_fifo:
  assumes "drain_queue enqueue_ordered_list peeked drop_settled ops (map uuid_str ds) = (settled, q)"
  shows "settled @ queue_ids q = ds @ enqueued ops"
  using equeue.drain_order [OF _ assms] by simp

theorem ordered_fifo_witness:
  "\<exists>q. drain_queue enqueue_ordered_list peeked drop_settled [Enq 3, Settle_head] (map uuid_str [1, 2]) = ([1], q) \<and> [1] @ queue_ids q = [1, 2, 3]"
proof -
  obtain settled q where run: "drain_queue enqueue_ordered_list peeked drop_settled [Enq 3, Settle_head] (map uuid_str [1, 2]) = (settled, q)"
    by (cases "drain_queue enqueue_ordered_list peeked drop_settled [Enq 3, Settle_head] (map uuid_str [1, 2])")
  have "settled = [1]"
    using run unfolding drain_queue.simps enqueue_strs peeked_def peek_head_strs by (simp split: prod.splits)
  with run ordered_fifo [OF run] show ?thesis by simp
qed

end
