(* ===== verification/Breaker.thy ===== *)
theory Breaker
  imports Redis
begin

text \<open>
  The per-endpoint circuit breaker (\<open>relay/delivery/circuit_breaker.py\<close>): the two scripts
  and the functions around them, on the values of the endpoint's three keys; a specification
  over the history of recorded outcomes, and the proof that the scripts implement it.
\<close>

section \<open>Constants and state\<close>

definition CONSECUTIVE_FAILURE_THRESHOLD :: int where "CONSECUTIVE_FAILURE_THRESHOLD = 10"
definition CONSECUTIVE_FAILURE_TRIGGER :: int where "CONSECUTIVE_FAILURE_TRIGGER = 5"
definition WINDOW_SECONDS :: rat where "WINDOW_SECONDS = 300"
definition WINDOW_MIN_ATTEMPTS :: nat where "WINDOW_MIN_ATTEMPTS = 20"
definition FAILURE_RATE_THRESHOLD :: rat where "FAILURE_RATE_THRESHOLD = 1 / 2"
definition HALF_OPEN_PROBE_INTERVAL_SECONDS :: rat where "HALF_OPEN_PROBE_INTERVAL_SECONDS = 600"
definition AUTO_DISABLE_AFTER_SECONDS :: rat where "AUTO_DISABLE_AFTER_SECONDS = 72 * 3600"

lemmas breaker_constants = CONSECUTIVE_FAILURE_THRESHOLD_def CONSECUTIVE_FAILURE_TRIGGER_def
  WINDOW_SECONDS_def WINDOW_MIN_ATTEMPTS_def FAILURE_RATE_THRESHOLD_def
  HALF_OPEN_PROBE_INTERVAL_SECONDS_def AUTO_DISABLE_AFTER_SECONDS_def

datatype breaker_state = Closed | Open | Half_open

text \<open>The hash at the state key (a missing field is \<open>None\<close>) and the two window keys.\<close>

record breaker_hash =
  h_state :: "breaker_state option"
  h_consecutive :: "int option"
  h_opened_at :: "rat option"
  h_last_probe_at :: "rat option"

record breaker_keys =
  br_hash :: breaker_hash
  br_attempts :: "string zset rkey"
  br_failures :: "string zset rkey"

definition no_hash :: breaker_hash where
  "no_hash = \<lparr>h_state = None, h_consecutive = None, h_opened_at = None, h_last_probe_at = None\<rparr>"

definition no_breaker :: breaker_keys where
  "no_breaker = \<lparr>br_hash = no_hash, br_attempts = None, br_failures = None\<rparr>"

text \<open>What is published on \<open>BREAKER_EVENTS_CHANNEL\<close>.\<close>

datatype breaker_event =
    Transition (be_endpoint: uuid) (from_state: breaker_state) (to_state: breaker_state) (be_at: rat) (be_consecutive: int)
  | Consecutive_failures (be_endpoint: uuid) (be_consecutive: int) (be_at: rat)

section \<open>The scripts\<close>

definition state_or_closed :: "breaker_hash \<Rightarrow> breaker_state" where
  "state_or_closed h = (case h_state h of None \<Rightarrow> Closed | Some s \<Rightarrow> s)"

definition consecutive_or_0 :: "breaker_hash \<Rightarrow> int" where
  "consecutive_or_0 h = (case h_consecutive h of None \<Rightarrow> 0 | Some n \<Rightarrow> n)"

definition RECORD_OUTCOME_LUA ::
  "rat \<Rightarrow> bool \<Rightarrow> int \<Rightarrow> rat \<Rightarrow> nat \<Rightarrow> rat \<Rightarrow> string \<Rightarrow> uuid \<Rightarrow> rat \<Rightarrow> breaker_keys
    \<Rightarrow> (breaker_state \<times> int \<times> bool) \<times> breaker_event list \<times> breaker_keys" where
  "RECORD_OUTCOME_LUA now success consec_threshold window min_attempts rate_threshold member endpoint_id t k =
     (let state = state_or_closed (br_hash k);
          cutoff = now - window;
          attempts_key = zkey_map t (zrem_upto cutoff) (br_attempts k);
          failures_key = zkey_map t (zrem_upto cutoff) (br_failures k);
          attempts_key = expire t (window * 2) (zkey_map t (zadd member now) attempts_key);
          failures_key = (if success then failures_key
                          else expire t (window * 2) (zkey_map t (zadd member now) failures_key));
          consecutive = (if success then 0 else consecutive_or_0 (br_hash k) + 1);
          h = (br_hash k)\<lparr>h_consecutive := Some consecutive\<rparr>;
          new_state =
            (if success then (if state = Half_open \<or> state = Open then Closed else state)
             else if state = Half_open then Open
             else if state = Closed then
               (let attempts = length (zkey_get t attempts_key);
                    failures = length (zkey_get t failures_key);
                    rate_tripped = (attempts \<ge> min_attempts \<and> of_nat failures / of_nat attempts > rate_threshold)
                in if consecutive \<ge> consec_threshold \<or> rate_tripped then Open else state)
             else state)
      in if new_state = state
         then ((new_state, consecutive, False), [], \<lparr>br_hash = h, br_attempts = attempts_key, br_failures = failures_key\<rparr>)
         else ((new_state, consecutive, True), [Transition endpoint_id state new_state now consecutive],
               (if new_state = Open
                then \<lparr>br_hash = h\<lparr>h_state := Some new_state, h_opened_at := Some now, h_last_probe_at := Some now\<rparr>,
                      br_attempts = attempts_key, br_failures = failures_key\<rparr>
                else if new_state = Closed
                then \<lparr>br_hash = h\<lparr>h_state := Some new_state, h_opened_at := None, h_last_probe_at := None,
                        h_consecutive := Some 0\<rparr>,
                      br_attempts = None, br_failures = None\<rparr>
                else \<lparr>br_hash = h\<lparr>h_state := Some new_state\<rparr>,
                      br_attempts = attempts_key, br_failures = failures_key\<rparr>)))"

datatype gate_decision = Allow | Probe | Deny

definition ALLOW_REQUEST_LUA :: "rat \<Rightarrow> rat \<Rightarrow> breaker_hash \<Rightarrow> (gate_decision \<times> breaker_state) \<times> breaker_hash" where
  "ALLOW_REQUEST_LUA now probe_interval h =
     (let state = state_or_closed h
      in if state = Closed then ((Allow, state), h)
         else if state = Open then
           (let last_probe = (case h_last_probe_at h of None \<Rightarrow> 0 | Some p \<Rightarrow> p)
            in if now - last_probe \<ge> probe_interval
               then ((Probe, Half_open), h\<lparr>h_state := Some Half_open, h_last_probe_at := Some now\<rparr>)
               else ((Deny, state), h))
         else ((Deny, state), h))"

section \<open>The functions around them\<close>

record outcome_result =
  or_state :: breaker_state
  or_consecutive :: int
  or_transitioned :: bool

definition record_outcome_keys ::
  "uuid \<Rightarrow> bool \<Rightarrow> rat \<Rightarrow> string \<Rightarrow> rat \<Rightarrow> breaker_keys \<Rightarrow> outcome_result \<times> breaker_event list \<times> breaker_keys" where
  "record_outcome_keys endpoint_id success now member t k =
     (case RECORD_OUTCOME_LUA now success CONSECUTIVE_FAILURE_THRESHOLD WINDOW_SECONDS WINDOW_MIN_ATTEMPTS
             FAILURE_RATE_THRESHOLD member endpoint_id t k of
        ((state, consecutive, transitioned), evs, k') \<Rightarrow>
          (\<lparr>or_state = state, or_consecutive = consecutive, or_transitioned = transitioned\<rparr>, evs, k'))"

text \<open>The second publication of \<open>record_outcome\<close>: the counter crossing the agent's threshold.\<close>

definition crossing_event :: "uuid \<Rightarrow> bool \<Rightarrow> outcome_result \<Rightarrow> rat \<Rightarrow> breaker_event option" where
  "crossing_event endpoint_id success result now =
     (if \<not> success \<and> or_consecutive result = CONSECUTIVE_FAILURE_TRIGGER \<and> or_state result = Closed
      then Some (Consecutive_failures endpoint_id (or_consecutive result) now) else None)"

definition allow_request_hash :: "rat \<Rightarrow> breaker_hash \<Rightarrow> (gate_decision \<times> breaker_state) \<times> breaker_hash" where
  "allow_request_hash now h = ALLOW_REQUEST_LUA now HALF_OPEN_PROBE_INTERVAL_SECONDS h"

record breaker_view =
  bv_state :: breaker_state
  bv_consecutive :: int
  bv_opened_at :: "rat option"
  bv_last_probe_at :: "rat option"

definition get_state_hash :: "breaker_hash \<Rightarrow> breaker_view" where
  "get_state_hash raw =
     \<lparr>bv_state = state_or_closed raw, bv_consecutive = consecutive_or_0 raw,
      bv_opened_at = h_opened_at raw, bv_last_probe_at = h_last_probe_at raw\<rparr>"

definition reset_keys :: "breaker_keys \<Rightarrow> breaker_keys" where
  "reset_keys k = no_breaker"

definition should_auto_disable_hash :: "rat \<Rightarrow> breaker_hash \<Rightarrow> bool" where
  "should_auto_disable_hash now h =
     (let state = get_state_hash h
      in case bv_opened_at state of
           None \<Rightarrow> False
         | Some opened_at \<Rightarrow>
             if bv_state state = Closed then False else now - opened_at \<ge> AUTO_DISABLE_AFTER_SECONDS)"

section \<open>Specification over the history of outcomes\<close>

text \<open>
  The breaker as its documentation describes it: a phase, and the outcomes recorded since it
  last closed, newest first.  It opens when the ten newest outcomes are failures, or when
  more than half of at least twenty outcomes of the last 300 seconds are.
\<close>

datatype phase = P_closed | P_open (opened: rat) (probed: rat) | P_half (opened: rat) (probed: rat)

type_synonym outcome = "string \<times> rat \<times> bool"

record breaker_spec =
  sp_phase :: phase
  sp_hist :: "outcome list"

definition failed :: "outcome \<Rightarrow> bool" where "failed x = (\<not> snd (snd x))"

definition recent :: "rat \<Rightarrow> outcome \<Rightarrow> bool" where "recent now x = (now - 300 < fst (snd x))"

definition failing_run :: "outcome list \<Rightarrow> nat" where
  "failing_run hist = length (takeWhile failed hist)"

definition trips :: "rat \<Rightarrow> outcome list \<Rightarrow> bool" where
  "trips now hist \<longleftrightarrow> 10 \<le> failing_run hist \<or>
     (let w = filter (recent now) hist in 20 \<le> length w \<and> length w < 2 * length (filter failed w))"

definition spec_outcome :: "string \<Rightarrow> bool \<Rightarrow> rat \<Rightarrow> breaker_spec \<Rightarrow> breaker_spec" where
  "spec_outcome m success now s =
     (let hist = (m, now, success) # sp_hist s in
      case sp_phase s of
        P_closed \<Rightarrow>
          if \<not> success \<and> trips now hist then \<lparr>sp_phase = P_open now now, sp_hist = hist\<rparr>
          else \<lparr>sp_phase = P_closed, sp_hist = hist\<rparr>
      | P_open since probe \<Rightarrow>
          if success then \<lparr>sp_phase = P_closed, sp_hist = []\<rparr>
          else \<lparr>sp_phase = P_open since probe, sp_hist = hist\<rparr>
      | P_half since probe \<Rightarrow>
          if success then \<lparr>sp_phase = P_closed, sp_hist = []\<rparr>
          else \<lparr>sp_phase = P_open now now, sp_hist = hist\<rparr>)"

definition spec_allow :: "rat \<Rightarrow> breaker_spec \<Rightarrow> gate_decision \<times> breaker_spec" where
  "spec_allow now s =
     (case sp_phase s of
        P_closed \<Rightarrow> (Allow, s)
      | P_open since probe \<Rightarrow>
          if now \<ge> probe + 600 then (Probe, s\<lparr>sp_phase := P_half since now\<rparr>) else (Deny, s)
      | P_half since probe \<Rightarrow> (Deny, s))"

definition spec_initial :: breaker_spec where
  "spec_initial = \<lparr>sp_phase = P_closed, sp_hist = []\<rparr>"

text \<open>Histories of calls, each at its time on a clock the workers share with the server;
  the run returns the decisions.\<close>

datatype breaker_op = Outcome string bool | Ask | Reset

fun breaker_run :: "uuid \<Rightarrow> (breaker_op \<times> rat) list \<Rightarrow> breaker_keys \<Rightarrow> gate_decision list \<times> breaker_keys" where
  "breaker_run e [] k = ([], k)"
| "breaker_run e ((Outcome m success, t) # ops) k =
     breaker_run e ops (snd (snd (record_outcome_keys e success t m t k)))"
| "breaker_run e ((Ask, t) # ops) k =
     (case allow_request_hash t (br_hash k) of ((d, _), h) \<Rightarrow>
        (case breaker_run e ops (k\<lparr>br_hash := h\<rparr>) of (ds, k') \<Rightarrow> (d # ds, k')))"
| "breaker_run e ((Reset, t) # ops) k = breaker_run e ops (reset_keys k)"

fun spec_run :: "(breaker_op \<times> rat) list \<Rightarrow> breaker_spec \<Rightarrow> gate_decision list \<times> breaker_spec" where
  "spec_run [] s = ([], s)"
| "spec_run ((Outcome m success, t) # ops) s = spec_run ops (spec_outcome m success t s)"
| "spec_run ((Ask, t) # ops) s =
     (case spec_allow t s of (d, s') \<Rightarrow> (case spec_run ops s' of (ds, s'') \<Rightarrow> (d # ds, s'')))"
| "spec_run ((Reset, t) # ops) s = spec_run ops spec_initial"

fun op_members :: "(breaker_op \<times> rat) list \<Rightarrow> string list" where
  "op_members [] = []"
| "op_members ((Outcome m success, t) # ops) = m # op_members ops"
| "op_members (op # ops) = op_members ops"

section \<open>The scripts implement the specification\<close>

text \<open>A window key holds, at every later time, exactly the outcomes of the history that the
  next trim would keep; the keys' expiry of twice the window never shows.\<close>

definition window_rel :: "(outcome \<Rightarrow> bool) \<Rightarrow> string zset rkey \<Rightarrow> outcome list \<Rightarrow> rat \<Rightarrow> bool" where
  "window_rel P key hist t \<longleftrightarrow> zkey_ok key \<and> (\<forall>now \<ge> t. \<forall>m u.
     (m, u) \<in> set (zrem_upto (now - 300) (zkey_get now key)) \<longleftrightarrow>
     (\<exists>s. (m, u, s) \<in> set hist \<and> P (m, u, s) \<and> recent now (m, u, s)))"

definition phase_rel :: "breaker_hash \<Rightarrow> phase \<Rightarrow> bool" where
  "phase_rel h p \<longleftrightarrow> (case p of
     P_closed \<Rightarrow> state_or_closed h = Closed \<and> h_opened_at h = None \<and> h_last_probe_at h = None
   | P_open since probe \<Rightarrow> h_state h = Some Open \<and> h_opened_at h = Some since \<and> h_last_probe_at h = Some probe
   | P_half since probe \<Rightarrow> h_state h = Some Half_open \<and> h_opened_at h = Some since \<and> h_last_probe_at h = Some probe)"

definition breaker_rel :: "rat \<Rightarrow> breaker_keys \<Rightarrow> breaker_spec \<Rightarrow> bool" where
  "breaker_rel t k s \<longleftrightarrow>
     phase_rel (br_hash k) (sp_phase s) \<and>
     consecutive_or_0 (br_hash k) = int (failing_run (sp_hist s)) \<and>
     distinct (map fst (sp_hist s)) \<and> (\<forall>x \<in> set (sp_hist s). fst (snd x) \<le> t) \<and>
     window_rel (\<lambda>x. True) (br_attempts k) (sp_hist s) t \<and>
     window_rel failed (br_failures k) (sp_hist s) t"

lemma zkey_get_map_later:
  "t \<le> now \<Longrightarrow> f [] = [] \<Longrightarrow> zkey_get now (zkey_map t f k) = f (zkey_get now k)"
  by (auto simp: zkey_map_def zkey_get_def key_get_def live_def Let_def split: option.splits if_splits)

lemma zkey_get_expire_later:
  "t \<le> now \<Longrightarrow> 0 < d \<Longrightarrow> zkey_get now (expire t d k) = (if now < t + d then zkey_get t k else [])"
  by (auto simp: zkey_get_def expire_def key_get_def live_def split: option.splits)

lemma set_zrem_upto: "set (zrem_upto c z) = {p \<in> set z. c < snd p}"
  by (auto simp: zrem_upto_def)

lemma window_rel_ok: "window_rel P key hist t \<Longrightarrow> zkey_ok key"
  by (simp add: window_rel_def)

lemma window_relD:
  "window_rel P key hist t \<Longrightarrow> t \<le> now \<Longrightarrow>
    (m, u) \<in> set (zrem_upto (now - 300) (zkey_get now key)) \<longleftrightarrow>
    (\<exists>s. (m, u, s) \<in> set hist \<and> P (m, u, s) \<and> recent now (m, u, s))"
  by (simp add: window_rel_def)

lemma window_rel_later: "window_rel P key hist t \<Longrightarrow> t \<le> t' \<Longrightarrow> window_rel P key hist t'"
  by (simp add: window_rel_def)

lemma window_rel_empty: "window_rel P None [] t"
  by (simp add: window_rel_def zrem_upto_def)

lemma zkey_ok_trim: "zkey_ok key \<Longrightarrow> zkey_ok (zkey_map t (zrem_upto c) key)"
  by (intro zkey_ok_map zs.ok_trim zkey_ok_get)

lemma window_rel_trim:
  assumes w: "window_rel P key hist t" and "t \<le> t'" and "\<not> P x"
  shows "window_rel P (zkey_map t' (zrem_upto (t' - 300)) key) (x # hist) t'"
proof -
  have "(m, u) \<in> set (zrem_upto (now - 300) (zkey_get now (zkey_map t' (zrem_upto (t' - 300)) key))) \<longleftrightarrow>
      (\<exists>s. (m, u, s) \<in> set (x # hist) \<and> P (m, u, s) \<and> recent now (m, u, s))"
    if now: "t' \<le> now" for now m u
  proof -
    have "zkey_get now (zkey_map t' (zrem_upto (t' - 300)) key) = zrem_upto (t' - 300) (zkey_get now key)"
      using now by (intro zkey_get_map_later) (simp_all add: zrem_upto_def)
    then have "(m, u) \<in> set (zrem_upto (now - 300) (zkey_get now (zkey_map t' (zrem_upto (t' - 300)) key))) \<longleftrightarrow>
        (m, u) \<in> set (zrem_upto (now - 300) (zkey_get now key))"
      using now by (auto simp: set_zrem_upto)
    then show ?thesis using window_relD [OF w, of now m u] assms(2,3) now by auto
  qed
  with zkey_ok_trim [OF window_rel_ok [OF w]] show ?thesis by (simp add: window_rel_def)
qed

text \<open>Recording an outcome: trim, add, refresh the expiry.\<close>

definition window_add :: "string \<Rightarrow> rat \<Rightarrow> string zset rkey \<Rightarrow> string zset rkey" where
  "window_add m t key = expire t 600 (zkey_map t (zadd m t) (zkey_map t (zrem_upto (t - 300)) key))"

lemma window_add_get: "zkey_get t (window_add m t key) = zadd m t (zrem_upto (t - 300) (zkey_get t key))"
  by (simp add: window_add_def zkey_get_expire zkey_get_map)

lemma window_rel_add:
  assumes w: "window_rel P key hist t" and t: "t \<le> t'" and P: "P (m, t', s)"
    and fresh: "m \<notin> fst ` set hist" and old: "\<forall>x \<in> set hist. fst (snd x) \<le> t"
  shows "window_rel P (window_add m t' key) ((m, t', s) # hist) t'"
proof -
  let ?key = "window_add m t' key"
  have at: "(m', u) \<in> set (zrem_upto (t' - 300) (zkey_get t' key)) \<longleftrightarrow>
      (\<exists>s. (m', u, s) \<in> set hist \<and> P (m', u, s) \<and> t' - 300 < u)" for m' u
    using window_relD [OF w t, of m' u] by (simp add: recent_def)
  have content: "(m', u) \<in> set (zkey_get t' ?key) \<longleftrightarrow>
      (\<exists>s'. (m', u, s') \<in> set ((m, t', s) # hist) \<and> P (m', u, s') \<and> t' - 300 < u)" for m' u
  proof (cases "m' = m")
    case True
    then show ?thesis
      using fresh P by (auto simp: window_add_get set_zadd rev_image_eqI)
  next
    case False
    then have "(m', u) \<in> set (zkey_get t' ?key) \<longleftrightarrow> (m', u) \<in> set (zrem_upto (t' - 300) (zkey_get t' key))"
      by (simp add: window_add_get set_zadd)
    with False show ?thesis unfolding at by simp
  qed
  have ok: "zkey_ok ?key"
    unfolding window_add_def
    by (intro zkey_ok_expire zkey_ok_map zs.ok_add zkey_ok_get zkey_ok_trim window_rel_ok [OF w])
  have "(m', u) \<in> set (zrem_upto (now - 300) (zkey_get now ?key)) \<longleftrightarrow>
      (\<exists>s'. (m', u, s') \<in> set ((m, t', s) # hist) \<and> P (m', u, s') \<and> recent now (m', u, s'))"
    if now: "t' \<le> now" for now m' u
  proof (cases "now < t' + 600")
    case True
    then have "zkey_get now ?key = zkey_get t' ?key"
      using now by (simp add: window_add_def zkey_get_expire_later zkey_get_expire)
    then have "(m', u) \<in> set (zrem_upto (now - 300) (zkey_get now ?key)) \<longleftrightarrow>
        (m', u) \<in> set (zkey_get t' ?key) \<and> now - 300 < u"
      by (simp add: set_zrem_upto)
    also have "\<dots> \<longleftrightarrow> (\<exists>s'. (m', u, s') \<in> set ((m, t', s) # hist) \<and> P (m', u, s') \<and> now - 300 < u)"
    proof -
      have "now - 300 < u \<Longrightarrow> t' - 300 < u" using now by simp
      then show ?thesis using content [of m' u] by blast
    qed
    finally show ?thesis by (simp only: recent_def fst_conv snd_conv)
  next
    case False
    then have "zkey_get now ?key = []"
      using now by (simp add: window_add_def zkey_get_expire_later)
    moreover have "\<not> recent now x" if "x \<in> set ((m, t', s) # hist)" for x
      using that old t False by (force simp: recent_def)
    ultimately show ?thesis by (auto simp: zrem_upto_def)
  qed
  with ok show ?thesis by (simp add: window_rel_def)
qed

text \<open>So the cardinalities the script compares are those of the specification's window.\<close>

lemma window_count:
  assumes w: "window_rel P key hist t" and "distinct (map fst hist)"
    and trimmed: "zrem_upto (t - 300) (zkey_get t key) = zkey_get t key"
  shows "length (zkey_get t key) = length (filter (\<lambda>x. P x \<and> recent t x) hist)"
proof -
  let ?h = "filter (\<lambda>x. P x \<and> recent t x) hist" and ?f = "\<lambda>(m, u, s). (m, u) :: string \<times> rat"
  have "distinct (map fst ?h)" using assms(2) by (rule distinct_map_filter)
  then have inj: "distinct (map ?f ?h)"
    by (auto simp: distinct_map inj_on_def)
  have "p \<in> set (zkey_get t key) \<longleftrightarrow> p \<in> set (map ?f ?h)" for p
  proof (cases p)
    case (Pair m u)
    have "(m, u) \<in> set (map ?f ?h) \<longleftrightarrow> (\<exists>s. (m, u, s) \<in> set hist \<and> P (m, u, s) \<and> recent t (m, u, s))"
      by (auto simp: image_iff Bex_def)
    then show ?thesis
      using window_relD [OF w order.refl, of m u] Pair by (simp only: trimmed)
  qed
  then have "set (zkey_get t key) = set (map ?f ?h)" by blast
  moreover have "distinct (zkey_get t key)"
    using zset_ok_distinct [OF zkey_ok_get [OF window_rel_ok [OF w]]] by (simp add: distinct_map)
  ultimately have "length (zkey_get t key) = length (map ?f ?h)"
    using distinct_card [OF inj] distinct_card [of "zkey_get t key"] by (simp only:)
  then show ?thesis by (simp only: length_map)
qed

lemma window_add_trimmed:
  "zrem_upto (t - 300) (zkey_get t (window_add m t key)) = zkey_get t (window_add m t key)"
proof -
  have "\<forall>p \<in> set (zkey_get t (window_add m t key)). \<not> snd p \<le> t - 300"
    unfolding window_add_get set_zadd set_zrem_upto by auto
  then show ?thesis by (simp add: zrem_upto_def filter_id_conv)
qed

lemma window_counts:
  assumes rel: "breaker_rel t k s" and t: "t \<le> t'" and m: "m \<notin> fst ` set (sp_hist s)"
  shows "length (zkey_get t' (window_add m t' (br_attempts k))) =
      length (filter (recent t') ((m, t', False) # sp_hist s))"
    and "length (zkey_get t' (window_add m t' (br_failures k))) =
      length (filter failed (filter (recent t') ((m, t', False) # sp_hist s)))"
proof -
  let ?hist = "(m, t', False) # sp_hist s"
  have rels: "window_rel (\<lambda>x. True) (br_attempts k) (sp_hist s) t" "window_rel failed (br_failures k) (sp_hist s) t"
    "\<forall>x \<in> set (sp_hist s). fst (snd x) \<le> t" "distinct (map fst ?hist)"
    using rel m by (auto simp: breaker_rel_def)
  note count = window_count [OF window_rel_add [OF _ t _ m rels(3)] rels(4) window_add_trimmed]
  show "length (zkey_get t' (window_add m t' (br_attempts k))) = length (filter (recent t') ?hist)"
    using count [OF rels(1)] by simp
  show "length (zkey_get t' (window_add m t' (br_failures k))) =
      length (filter failed (filter (recent t') ?hist))"
    using count [OF rels(2)] by (simp add: failed_def filter_filter conj_commute)
qed

lemma trips_counts:
  assumes rel: "breaker_rel t k s" and t: "t \<le> t'" and m: "m \<notin> fst ` set (sp_hist s)"
  shows "trips t' ((m, t', False) # sp_hist s) \<longleftrightarrow>
    10 \<le> consecutive_or_0 (br_hash k) + 1 \<or>
    (20 \<le> length (zkey_get t' (window_add m t' (br_attempts k))) \<and>
     of_nat (length (zkey_get t' (window_add m t' (br_failures k)))) /
       of_nat (length (zkey_get t' (window_add m t' (br_attempts k)))) > (1 / 2 :: rat))"
proof -
  let ?a = "length (zkey_get t' (window_add m t' (br_attempts k)))"
    and ?f = "length (zkey_get t' (window_add m t' (br_failures k)))"
  have run: "int (failing_run ((m, t', False) # sp_hist s)) = consecutive_or_0 (br_hash k) + 1"
    using rel by (simp add: breaker_rel_def failing_run_def failed_def)
  have "(1 / 2 < (of_nat ?f / of_nat ?a :: rat)) \<longleftrightarrow> ?a < 2 * ?f" if "20 \<le> ?a"
  proof -
    have "(1 / 2 < (of_nat ?f / of_nat ?a :: rat)) \<longleftrightarrow> of_nat ?a < (of_nat (2 * ?f) :: rat)"
    proof -
      have "0 < (of_nat ?a :: rat)" using that by (simp only: of_nat_0_less_iff)
      then show ?thesis by (simp only: pos_less_divide_eq) auto
    qed
    then show ?thesis by (simp only: of_nat_less_iff)
  qed
  then show ?thesis
    using run unfolding trips_def Let_def window_counts [OF assms, symmetric] by linarith
qed

text \<open>What \<open>record_outcome\<close> does to the keys, by the state it finds.\<close>

lemma record_success:
  "record_outcome_keys e True now m t k =
    (if state_or_closed (br_hash k) = Closed
     then (\<lparr>or_state = Closed, or_consecutive = 0, or_transitioned = False\<rparr>, [],
       \<lparr>br_hash = (br_hash k)\<lparr>h_consecutive := Some 0\<rparr>,
        br_attempts = expire t 600 (zkey_map t (zadd m now) (zkey_map t (zrem_upto (now - 300)) (br_attempts k))),
        br_failures = zkey_map t (zrem_upto (now - 300)) (br_failures k)\<rparr>)
     else (\<lparr>or_state = Closed, or_consecutive = 0, or_transitioned = True\<rparr>,
       [Transition e (state_or_closed (br_hash k)) Closed now 0],
       \<lparr>br_hash = \<lparr>h_state = Some Closed, h_consecutive = Some 0, h_opened_at = None, h_last_probe_at = None\<rparr>,
        br_attempts = None, br_failures = None\<rparr>))"
  by (cases "state_or_closed (br_hash k)")
    (simp_all add: record_outcome_keys_def RECORD_OUTCOME_LUA_def breaker_constants Let_def)

definition opens_on_failure :: "string \<Rightarrow> rat \<Rightarrow> breaker_keys \<Rightarrow> bool" where
  "opens_on_failure m t k \<longleftrightarrow>
    10 \<le> consecutive_or_0 (br_hash k) + 1 \<or>
    (20 \<le> length (zkey_get t (window_add m t (br_attempts k))) \<and>
     of_nat (length (zkey_get t (window_add m t (br_failures k)))) /
       of_nat (length (zkey_get t (window_add m t (br_attempts k)))) > (1 / 2 :: rat))"

definition failure_opens :: "string \<Rightarrow> rat \<Rightarrow> breaker_keys \<Rightarrow> bool" where
  "failure_opens m t k \<longleftrightarrow> state_or_closed (br_hash k) = Half_open \<or>
     state_or_closed (br_hash k) = Closed \<and> opens_on_failure m t k"

lemma record_failure:
  "record_outcome_keys e False t m t k =
    (let c = consecutive_or_0 (br_hash k) + 1;
         a = window_add m t (br_attempts k); f = window_add m t (br_failures k)
     in if failure_opens m t k
        then (\<lparr>or_state = Open, or_consecutive = c, or_transitioned = True\<rparr>,
          [Transition e (state_or_closed (br_hash k)) Open t c],
          \<lparr>br_hash = \<lparr>h_state = Some Open, h_consecutive = Some c, h_opened_at = Some t, h_last_probe_at = Some t\<rparr>,
           br_attempts = a, br_failures = f\<rparr>)
        else (\<lparr>or_state = state_or_closed (br_hash k), or_consecutive = c, or_transitioned = False\<rparr>, [],
          \<lparr>br_hash = (br_hash k)\<lparr>h_consecutive := Some c\<rparr>, br_attempts = a, br_failures = f\<rparr>))"
proof -
  have add: "expire t 600 (zkey_map t (zadd m t) (zkey_map t (zrem_upto (t - 300)) key)) = window_add m t key" for key
    by (simp add: window_add_def)
  show ?thesis
    by (cases "state_or_closed (br_hash k)"; cases "opens_on_failure m t k")
      (simp_all add: record_outcome_keys_def RECORD_OUTCOME_LUA_def failure_opens_def Let_def
        breaker_constants add opens_on_failure_def)
qed

lemma failing_run_Cons:
  "failing_run ((m, t, s) # hist) = (if s then 0 else Suc (failing_run hist))"
  by (simp add: failing_run_def failed_def)

lemma phase_rel_state:
  "phase_rel h p \<Longrightarrow> state_or_closed h = (case p of P_closed \<Rightarrow> Closed | P_open _ _ \<Rightarrow> Open | P_half _ _ \<Rightarrow> Half_open)"
  by (auto simp: phase_rel_def state_or_closed_def split: phase.splits)

lemma phase_rel_consecutive [simp]: "phase_rel (h\<lparr>h_consecutive := c\<rparr>) p = phase_rel h p"
  by (simp add: phase_rel_def state_or_closed_def split: phase.splits)

lemma sim_success:
  assumes rel: "breaker_rel t k s" and t: "t \<le> t'" and m: "m \<notin> fst ` set (sp_hist s)"
  shows "breaker_rel t' (snd (snd (record_outcome_keys e True t' m t' k))) (spec_outcome m True t' s)"
proof (cases "sp_phase s")
  case P_closed
  have closed: "state_or_closed (br_hash k) = Closed"
    using rel P_closed phase_rel_state [of "br_hash k" P_closed] by (simp add: breaker_rel_def)
  have w: "window_rel (\<lambda>x. True) (br_attempts k) (sp_hist s) t" "window_rel failed (br_failures k) (sp_hist s) t"
    and old: "\<forall>x \<in> set (sp_hist s). fst (snd x) \<le> t"
    using rel by (simp_all add: breaker_rel_def)
  have "window_rel (\<lambda>x. True) (window_add m t' (br_attempts k)) ((m, t', True) # sp_hist s) t'"
    by (rule window_rel_add [OF w(1) t TrueI m old])
  moreover have "window_rel failed (zkey_map t' (zrem_upto (t' - 300)) (br_failures k)) ((m, t', True) # sp_hist s) t'"
    by (rule window_rel_trim [OF w(2) t]) (simp add: failed_def)
  moreover have "\<forall>x \<in> set ((m, t', True) # sp_hist s). fst (snd x) \<le> t'"
    using old t by force
  ultimately show ?thesis
    using rel m closed P_closed
    by (simp add: breaker_rel_def record_success spec_outcome_def window_add_def failing_run_Cons
        consecutive_or_0_def)
qed (use rel phase_rel_state [of "br_hash k" "sp_phase s"] in
  \<open>simp_all add: breaker_rel_def record_success spec_outcome_def phase_rel_def state_or_closed_def
      consecutive_or_0_def failing_run_def window_rel_empty\<close>)

lemma sim_failure:
  assumes rel: "breaker_rel t k s" and t: "t \<le> t'" and m: "m \<notin> fst ` set (sp_hist s)"
  shows "breaker_rel t' (snd (snd (record_outcome_keys e False t' m t' k))) (spec_outcome m False t' s)"
proof -
  let ?hist = "(m, t', False) # sp_hist s"
  have w: "window_rel (\<lambda>x. True) (br_attempts k) (sp_hist s) t" "window_rel failed (br_failures k) (sp_hist s) t"
    and old: "\<forall>x \<in> set (sp_hist s). fst (snd x) \<le> t"
    and ph: "phase_rel (br_hash k) (sp_phase s)"
    using rel by (simp_all add: breaker_rel_def)
  have wa: "window_rel (\<lambda>x. True) (window_add m t' (br_attempts k)) ?hist t'"
    by (rule window_rel_add [OF w(1) t TrueI m old])
  have wf: "window_rel failed (window_add m t' (br_failures k)) ?hist t'"
    by (rule window_rel_add [OF w(2) t _ m old]) (simp add: failed_def)
  have opens: "failure_opens m t' k \<longleftrightarrow>
      (case sp_phase s of P_closed \<Rightarrow> trips t' ?hist | P_open _ _ \<Rightarrow> False | P_half _ _ \<Rightarrow> True)"
    using phase_rel_state [OF ph] trips_counts [OF assms]
    by (auto simp: failure_opens_def opens_on_failure_def split: phase.splits)
  have rest: "distinct (map fst ?hist)" "\<forall>x \<in> set ?hist. fst (snd x) \<le> t'"
    "consecutive_or_0 (br_hash k) + 1 = int (failing_run ?hist)"
    using rel m old t by (force simp: breaker_rel_def failing_run_Cons)+
  have hist: "sp_hist (spec_outcome m False t' s) = ?hist"
    and phase: "sp_phase (spec_outcome m False t' s) = (if failure_opens m t' k then P_open t' t' else sp_phase s)"
    unfolding opens by (auto simp: spec_outcome_def Let_def split: phase.splits)
  show ?thesis
    unfolding breaker_rel_def hist phase using wa wf rest ph
    by (simp add: record_failure Let_def consecutive_or_0_def) (simp add: phase_rel_def)
qed

lemma sim_allow:
  assumes rel: "breaker_rel t k s" and t: "t \<le> t'"
    and run: "allow_request_hash t' (br_hash k) = ((d, st), h)"
  obtains s' where "spec_allow t' s = (d, s')" and "breaker_rel t' (k\<lparr>br_hash := h\<rparr>) s'"
    and "sp_hist s' = sp_hist s"
proof -
  have ph: "phase_rel (br_hash k) (sp_phase s)" using rel by (simp add: breaker_rel_def)
  have old: "\<forall>x \<in> set (sp_hist s). fst (snd x) \<le> t'"
    using rel t by (force simp: breaker_rel_def)
  have w: "window_rel (\<lambda>x. True) (br_attempts k) (sp_hist s) t'" "window_rel failed (br_failures k) (sp_hist s) t'"
    using rel t window_rel_later by (simp_all add: breaker_rel_def) blast+
  obtain d' s' where spec: "spec_allow t' s = (d', s')" by (cases "spec_allow t' s")
  have "d' = d \<and> phase_rel h (sp_phase s') \<and> sp_hist s' = sp_hist s \<and> h_consecutive h = h_consecutive (br_hash k)"
    using run spec ph phase_rel_state [OF ph]
    by (cases "sp_phase s") (auto simp: allow_request_hash_def ALLOW_REQUEST_LUA_def spec_allow_def phase_rel_def
        HALF_OPEN_PROBE_INTERVAL_SECONDS_def state_or_closed_def Let_def split: if_splits)
  with spec old w rel show ?thesis
    by (intro that [of s']) (simp_all add: breaker_rel_def consecutive_or_0_def)
qed

lemma breaker_rel_initial: "breaker_rel t no_breaker spec_initial"
  by (simp add: breaker_rel_def no_breaker_def spec_initial_def phase_rel_def no_hash_def
      state_or_closed_def consecutive_or_0_def failing_run_def window_rel_empty)

section \<open>Runs\<close>

definition spec_ok :: "breaker_spec \<Rightarrow> bool" where
  "spec_ok s \<longleftrightarrow> (case sp_phase s of
     P_closed \<Rightarrow> failing_run (sp_hist s) < 10
   | P_open since probe \<Rightarrow> since = probe
   | P_half since probe \<Rightarrow> since + 600 \<le> probe)"

lemma spec_ok_initial [simp]: "spec_ok spec_initial"
  by (simp add: spec_ok_def spec_initial_def failing_run_def)

lemma spec_ok_outcome: "spec_ok s \<Longrightarrow> spec_ok (spec_outcome m success t s)"
  by (cases success)
    (auto simp: spec_ok_def spec_outcome_def trips_def failing_run_Cons Let_def failing_run_def failed_def split: phase.splits)

lemma spec_ok_allow: "spec_ok s \<Longrightarrow> spec_ok (snd (spec_allow t s))"
  by (auto simp: spec_ok_def spec_allow_def split: phase.splits)

lemma spec_hist_outcome: "set (sp_hist (spec_outcome m success t s)) \<subseteq> insert (m, t, success) (set (sp_hist s))"
  by (auto simp: spec_outcome_def Let_def split: phase.splits)

lemma run_simulates:
  assumes "breaker_rel t k s" and "spec_ok s" and "sorted (t # map snd ops)"
    and "distinct (op_members ops)" and "fst ` set (sp_hist s) \<inter> set (op_members ops) = {}"
    and "breaker_run e ops k = (ds, k')"
  shows "\<exists>s'. spec_run ops s = (ds, s') \<and> spec_ok s' \<and> breaker_rel (last (t # map snd ops)) k' s' \<and>
    fst ` set (sp_hist s') \<subseteq> fst ` set (sp_hist s) \<union> set (op_members ops)"
  using assms
proof (induction ops arbitrary: t k s ds)
  case Nil
  then show ?case by simp
next
  case (Cons op ops)
  obtain x t' where op: "op = (x, t')" by (cases op)
  have t: "t \<le> t'" "sorted (t' # map snd ops)" using Cons.prems(3) by (auto simp: op)
  have step: "\<exists>s'. spec_run ops s1 = (ds', s') \<and> spec_ok s' \<and> breaker_rel (last (t # map snd (op # ops))) k' s' \<and>
      fst ` set (sp_hist s') \<subseteq> fst ` set (sp_hist s1) \<union> set (op_members ops)"
    if "breaker_rel t' k1 s1" "spec_ok s1" "distinct (op_members ops)"
      "fst ` set (sp_hist s1) \<inter> set (op_members ops) = {}" "breaker_run e ops k1 = (ds', k')" for k1 s1 ds'
    using Cons.IH [OF that(1,2) t(2) that(3-5)] by (simp add: op)
  show ?case
  proof (cases x)
    case (Outcome m success)
    have m: "m \<notin> fst ` set (sp_hist s)" and d: "distinct (op_members ops)" "m \<notin> set (op_members ops)"
      using Cons.prems(4,5) by (auto simp: op Outcome)
    have "breaker_rel t' (snd (snd (record_outcome_keys e success t' m t' k))) (spec_outcome m success t' s)"
      using sim_success [OF Cons.prems(1) t(1) m] sim_failure [OF Cons.prems(1) t(1) m] by (cases success) simp_all
    note rel1 = this
    have sub: "fst ` set (sp_hist (spec_outcome m success t' s)) \<subseteq> insert m (fst ` set (sp_hist s))"
      using image_mono [OF spec_hist_outcome [of m success t' s], of fst] by simp
    have disj: "fst ` set (sp_hist (spec_outcome m success t' s)) \<inter> set (op_members ops) = {}"
    proof -
      have "fst ` set (sp_hist s) \<inter> set (op_members ops) = {}" using Cons.prems(5) by (auto simp: op Outcome)
      with sub d(2) show ?thesis by blast
    qed
    have "breaker_run e ops (snd (snd (record_outcome_keys e success t' m t' k))) = (ds, k')"
      using Cons.prems(6) by (simp add: op Outcome)
    from step [OF rel1 spec_ok_outcome [OF Cons.prems(2)] d(1) disj this]
    obtain s' where s': "spec_run ops (spec_outcome m success t' s) = (ds, s')" "spec_ok s'"
      "breaker_rel (last (t # map snd (op # ops))) k' s'"
      and sub': "fst ` set (sp_hist s') \<subseteq> fst ` set (sp_hist (spec_outcome m success t' s)) \<union> set (op_members ops)"
      by (elim exE conjE)
    have "fst ` set (sp_hist s') \<subseteq> fst ` set (sp_hist s) \<union> set (op_members (op # ops))"
      using subset_trans [OF sub' Un_mono [OF sub subset_refl]] by (simp add: op Outcome)
    moreover have "spec_run (op # ops) s = (ds, s')" using s'(1) by (simp add: op Outcome)
    ultimately show ?thesis using s'(2,3) by blast
  next
    case Ask
    obtain d st h where ask: "allow_request_hash t' (br_hash k) = ((d, st), h)"
      by (metis prod.collapse)
    obtain s1 where s1: "spec_allow t' s = (d, s1)" "breaker_rel t' (k\<lparr>br_hash := h\<rparr>) s1" "sp_hist s1 = sp_hist s"
      by (rule sim_allow [OF Cons.prems(1) t(1) ask])
    obtain ds1 where ds1: "breaker_run e ops (k\<lparr>br_hash := h\<rparr>) = (ds1, k')" "ds = d # ds1"
      using Cons.prems(6) by (auto simp: op Ask ask split: prod.splits)
    have "spec_ok s1" using spec_ok_allow [OF Cons.prems(2), of t'] s1(1) by simp
    then show ?thesis
      using step [OF s1(2) _ _ _ ds1(1)] Cons.prems(4,5) s1(1,3) ds1(2) by (auto simp: op Ask)
  next
    case Reset
    have none: "sp_hist spec_initial = []" by (simp add: spec_initial_def)
    have "breaker_run e ops no_breaker = (ds, k')" "distinct (op_members ops)"
      using Cons.prems(4,6) by (simp_all add: op Reset reset_keys_def)
    from step [OF breaker_rel_initial spec_ok_initial this(2) _ this(1)]
    obtain s' where s': "spec_run ops spec_initial = (ds, s')" "spec_ok s'"
      "breaker_rel (last (t # map snd (op # ops))) k' s'" "fst ` set (sp_hist s') \<subseteq> set (op_members ops)"
      by (auto simp: none)
    then have "fst ` set (sp_hist s') \<subseteq> fst ` set (sp_hist s) \<union> set (op_members (op # ops))"
      by (auto simp: op Reset)
    moreover have "spec_run (op # ops) s = (ds, s')" using s'(1) by (simp add: op Reset)
    ultimately show ?thesis using s'(2,3) by blast
  qed
qed

text \<open>Every state the calls can lead to, seen at a time not before the last of them.\<close>

lemma reachable_rel:
  assumes "sorted (map snd ops @ [u])" and "distinct (op_members ops)" and "breaker_run e ops no_breaker = (ds, k)"
  obtains s where "spec_run ops spec_initial = (ds, s)" and "spec_ok s" and "breaker_rel u k s"
    and "fst ` set (sp_hist s) \<subseteq> set (op_members ops)"
proof -
  define t where "t = (case ops of [] \<Rightarrow> u | op # _ \<Rightarrow> snd op)"
  have sorted: "sorted (t # map snd ops)"
    using assms(1) by (cases ops) (auto simp: t_def sorted_append)
  have last: "last (t # map snd ops) \<le> u"
    using assms(1) by (cases ops rule: rev_cases) (auto simp: t_def sorted_append)
  obtain s where s: "spec_run ops spec_initial = (ds, s)" "spec_ok s"
    "breaker_rel (last (t # map snd ops)) k s" "fst ` set (sp_hist s) \<subseteq> set (op_members ops)"
    using run_simulates [OF breaker_rel_initial [of t] spec_ok_initial sorted assms(2) _ assms(3)]
    by (auto simp: spec_initial_def)
  have "breaker_rel u k s"
    using s(3) last window_rel_later [OF _ last] unfolding breaker_rel_def by force
  with s show ?thesis by (intro that)
qed

section \<open>Properties\<close>

text \<open>C7: The breaker's scripts implement its specification: over any interleaving of recorded
  outcomes, gate requests and resets at non-decreasing times, they answer every request as
  the specification over the history does, and end in the specification's phase with its
  count of consecutive failures.  In particular the sliding window of the two sorted sets,
  with its trimming and expiry, is exactly the outcomes of the last 300 seconds.\<close>

theorem breaker_refines_spec:
  assumes "sorted (map snd ops)" and "distinct (op_members ops)"
    and "breaker_run e ops no_breaker = (ds, k)"
  shows "\<exists>s. spec_run ops spec_initial = (ds, s) \<and> phase_rel (br_hash k) (sp_phase s) \<and>
    bv_consecutive (get_state_hash (br_hash k)) = int (failing_run (sp_hist s))"
proof -
  have "sorted (map snd ops @ [last (0 # map snd ops)])"
    using assms(1) by (cases ops rule: rev_cases) (auto simp: sorted_append)
  then show ?thesis
    using assms(2,3) by (rule reachable_rel) (auto simp: breaker_rel_def get_state_hash_def)
qed

theorem breaker_refines_spec_witness:
  "\<exists>k s. breaker_run 7 [(Outcome ''a'' False, 1), (Ask, 2), (Reset, 3)] no_breaker = ([Allow], k) \<and>
    spec_run [(Outcome ''a'' False, 1), (Ask, 2), (Reset, 3)] spec_initial = ([Allow], s) \<and>
    phase_rel (br_hash k) (sp_phase s)"
proof -
  let ?ops = "[(Outcome ''a'' False, 1), (Ask, 2), (Reset, 3)]"
  obtain ds k where run: "breaker_run 7 ?ops no_breaker = (ds, k)" by (cases "breaker_run 7 ?ops no_breaker")
  have "ds = [Allow]"
    using breaker_refines_spec [OF _ _ run]
    by (auto simp: spec_initial_def spec_outcome_def spec_allow_def trips_def failing_run_def failed_def
        recent_def Let_def)
  with run breaker_refines_spec [OF _ _ run] show ?thesis by auto
qed

text \<open>The rule for opening: a failure recorded in a closed breaker opens it exactly when the ten
  latest outcomes are failures, or at least twenty outcomes fall in the last 300 seconds and
  more than half of them failed; the published event then says so, and nothing is published
  otherwise.\<close>

theorem closed_breaker_opens_iff:
  assumes "sorted (map snd ops @ [t])" and "distinct (m # op_members ops)"
    and "breaker_run e ops no_breaker = (ds, k)" and "spec_run ops spec_initial = (ds, s)"
    and "sp_phase s = P_closed" and "record_outcome_keys e False t m t k = (result, evs, k')"
  shows "(or_state result = Open \<longleftrightarrow> trips t ((m, t, False) # sp_hist s)) \<and>
    evs = (if or_state result = Open
           then [Transition e Closed Open t (int (failing_run ((m, t, False) # sp_hist s)))] else [])"
proof -
  obtain s' where s': "spec_run ops spec_initial = (ds, s')" "breaker_rel t k s'"
    "fst ` set (sp_hist s') \<subseteq> set (op_members ops)"
    using assms(2) by (auto intro: reachable_rel [OF assms(1) _ assms(3)])
  then have rel: "breaker_rel t k s" and m: "m \<notin> fst ` set (sp_hist s)"
    using assms(2,4) by auto
  have "state_or_closed (br_hash k) = Closed"
    using phase_rel_state [of "br_hash k" P_closed] rel assms(5) by (simp add: breaker_rel_def)
  moreover have "opens_on_failure m t k \<longleftrightarrow> trips t ((m, t, False) # sp_hist s)"
    using trips_counts [OF rel order.refl m] by (simp add: opens_on_failure_def)
  moreover have "consecutive_or_0 (br_hash k) + 1 = int (failing_run ((m, t, False) # sp_hist s))"
    using rel by (simp add: breaker_rel_def failing_run_Cons)
  ultimately show ?thesis
    using assms(6) by (auto simp: record_failure failure_opens_def Let_def split: if_splits)
qed

theorem closed_breaker_opens_iff_witness:
  "\<exists>k result evs k'. breaker_run 7 [(Outcome ''a'' False, 1)] no_breaker = ([], k) \<and>
    record_outcome_keys 7 False 2 ''b'' 2 k = (result, evs, k') \<and> or_state result \<noteq> Open \<and> evs = []"
proof -
  obtain k where run: "breaker_run 7 [(Outcome ''a'' False, 1)] no_breaker = ([], k)" by simp
  obtain result evs k' where out: "record_outcome_keys 7 False 2 ''b'' 2 k = (result, evs, k')" by (rule prod_cases3)
  have spec: "spec_run [(Outcome ''a'' False, 1)] spec_initial = ([], \<lparr>sp_phase = P_closed, sp_hist = [(''a'', 1, False)]\<rparr>)"
    by (simp add: spec_initial_def spec_outcome_def trips_def failing_run_def failed_def recent_def)
  have "\<not> trips 2 [(''b'', 2, False), (''a'', 1, False)]"
    by (simp add: trips_def failing_run_def failed_def recent_def)
  then show ?thesis
    using closed_breaker_opens_iff [OF _ _ run spec _ out] run out by auto
qed

text \<open>A probe is exclusive, and for ever: once a caller has been let through as the probe, every
  later request is denied, however long after, until an outcome is recorded or the breaker
  is reset.  A probe whose outcome is never recorded (its worker died, or a later gate
  deferred the delivery) therefore keeps the endpoint shut; no timeout promotes it again.\<close>

theorem probe_exclusive_until_outcome:
  assumes "allow_request_hash t (br_hash k) = ((Probe, st), h)"
  shows "st = Half_open \<and>
    breaker_run e (map (\<lambda>u. (Ask, u)) us) (k\<lparr>br_hash := h\<rparr>) = (replicate (length us) Deny, k\<lparr>br_hash := h\<rparr>)"
proof -
  have st: "st = Half_open" and h: "state_or_closed h = Half_open"
    using assms by (auto simp: allow_request_hash_def ALLOW_REQUEST_LUA_def state_or_closed_def Let_def split: if_splits)
  have "breaker_run e (map (\<lambda>u. (Ask, u)) us) k' = (replicate (length us) Deny, k')"
    if "state_or_closed (br_hash k') = Half_open" for k'
    using that by (induction us) (simp_all add: allow_request_hash_def ALLOW_REQUEST_LUA_def)
  with st h show ?thesis by simp
qed

theorem probe_exclusive_until_outcome_witness:
  "\<exists>h. allow_request_hash 700 \<lparr>h_state = Some Open, h_consecutive = Some 10, h_opened_at = Some 100, h_last_probe_at = Some 100\<rparr>
      = ((Probe, Half_open), h) \<and>
    fst (breaker_run 7 (map (\<lambda>u. (Ask, u)) [701, 1000000]) (no_breaker\<lparr>br_hash := h\<rparr>)) = [Deny, Deny]"
proof -
  let ?h0 = "\<lparr>h_state = Some Open, h_consecutive = Some 10, h_opened_at = Some 100, h_last_probe_at = Some 100\<rparr>"
  obtain h where ask: "allow_request_hash 700 (br_hash (no_breaker\<lparr>br_hash := ?h0\<rparr>)) = ((Probe, Half_open), h)"
    by (simp add: allow_request_hash_def ALLOW_REQUEST_LUA_def state_or_closed_def HALF_OPEN_PROBE_INTERVAL_SECONDS_def)
  have "fst (breaker_run 7 (map (\<lambda>u. (Ask, u)) [701, 1000000]) (no_breaker\<lparr>br_hash := h\<rparr>)) = [Deny, Deny]"
    using probe_exclusive_until_outcome [OF ask, of 7 "[701, 1000000]"] by (simp add: numeral_2_eq_2)
  with ask show ?thesis by auto
qed

text \<open>Auto-disabling never sees an endpoint that is being probed: in every reachable state, a denied
  request finds the endpoint open for 72 hours only in the half-open state, that is, after
  a probe whose outcome was lost.  An open breaker re-probes every ten minutes and each
  failing probe restarts \<open>opened_at\<close>, so an endpoint failing for days with its probes
  completing is never disabled, against the documented rule.\<close>

theorem auto_disable_only_after_lost_probe:
  assumes "sorted (map snd ops @ [t])" and "distinct (op_members ops)"
    and "breaker_run e ops no_breaker = (ds, k)"
    and "allow_request_hash t (br_hash k) = ((Deny, st), h)" and "should_auto_disable_hash t h"
  shows "st = Half_open"
proof -
  obtain s where s: "spec_ok s" "breaker_rel t k s"
    using assms(2) by (auto intro: reachable_rel [OF assms(1) _ assms(3)])
  have "phase_rel (br_hash k) (sp_phase s)" using s(2) by (simp add: breaker_rel_def)
  then show ?thesis
    using s(1) assms(4,5)
    by (cases "sp_phase s")
      (auto simp: phase_rel_def allow_request_hash_def ALLOW_REQUEST_LUA_def should_auto_disable_hash_def
        get_state_hash_def state_or_closed_def spec_ok_def Let_def HALF_OPEN_PROBE_INTERVAL_SECONDS_def
        AUTO_DISABLE_AFTER_SECONDS_def split: if_splits option.splits)
qed

lemma phase_rel_half:
  "phase_rel h (P_half since probe) \<longleftrightarrow>
    h_state h = Some Half_open \<and> h_opened_at h = Some since \<and> h_last_probe_at h = Some probe"
  by (simp add: phase_rel_def)

theorem auto_disable_only_after_lost_probe_witness:
  "\<exists>ds k h st. breaker_run 7 (map (\<lambda>m. (Outcome [m] False, 0)) ''abcdefghij'' @ [(Ask, 600)]) no_breaker = (ds, k) \<and>
    allow_request_hash 259200 (br_hash k) = ((Deny, st), h) \<and> should_auto_disable_hash 259200 h \<and> st = Half_open"
proof -
  let ?ops = "map (\<lambda>m. (Outcome [m] False, 0)) ''abcdefghij'' @ [(Ask, 600 :: rat)]"
  have ops: "sorted (map snd ?ops @ [259200])" "distinct (op_members ?ops)" by simp_all
  obtain ds k where run: "breaker_run 7 ?ops no_breaker = (ds, k)" by (cases "breaker_run 7 ?ops no_breaker")
  obtain s where s: "spec_run ?ops spec_initial = (ds, s)" "breaker_rel 259200 k s"
    by (rule reachable_rel [OF ops run])
  have "sp_phase s = P_half 0 600"
    using s(1) by (auto simp: spec_initial_def spec_outcome_def spec_allow_def trips_def failing_run_def failed_def
        recent_def Let_def)
  then have h: "h_state (br_hash k) = Some Half_open" "h_opened_at (br_hash k) = Some 0"
    using s(2) by (simp_all add: breaker_rel_def phase_rel_half)
  obtain st h where ask: "allow_request_hash 259200 (br_hash k) = ((Deny, st), h)" and "h = br_hash k"
    using h by (simp add: allow_request_hash_def ALLOW_REQUEST_LUA_def state_or_closed_def)
  moreover from this have dis: "should_auto_disable_hash 259200 h"
    using h by (simp add: should_auto_disable_hash_def get_state_hash_def state_or_closed_def AUTO_DISABLE_AFTER_SECONDS_def)
  ultimately show ?thesis
    using auto_disable_only_after_lost_probe [OF ops run ask dis] run by blast
qed

text \<open>The agent's early trigger fires exactly when a failure is the fifth in a row of a closed
  breaker and does not open it; no other outcome publishes it.\<close>

theorem crossing_exactly_at_fifth:
  assumes "sorted (map snd ops @ [t])" and "distinct (m # op_members ops)"
    and "breaker_run e ops no_breaker = (ds, k)" and "spec_run ops spec_initial = (ds, s)"
    and "record_outcome_keys e success t m t k = (result, evs, k')"
  shows "crossing_event e success result t =
    (if \<not> success \<and> sp_phase s = P_closed \<and> failing_run (sp_hist s) = 4 \<and> \<not> trips t ((m, t, False) # sp_hist s)
     then Some (Consecutive_failures e 5 t) else None)"
proof (cases success)
  case True
  then show ?thesis by (simp add: crossing_event_def)
next
  case False
  obtain s' where s': "spec_run ops spec_initial = (ds, s')" "breaker_rel t k s'"
    "fst ` set (sp_hist s') \<subseteq> set (op_members ops)"
    using assms(2) by (auto intro: reachable_rel [OF assms(1) _ assms(3)])
  then have rel: "breaker_rel t k s" and m: "m \<notin> fst ` set (sp_hist s)"
    using assms(2,4) by auto
  have ph: "phase_rel (br_hash k) (sp_phase s)" and c: "consecutive_or_0 (br_hash k) = int (failing_run (sp_hist s))"
    using rel by (simp_all add: breaker_rel_def)
  have "failure_opens m t k \<longleftrightarrow>
      (case sp_phase s of P_closed \<Rightarrow> trips t ((m, t, False) # sp_hist s) | P_open _ _ \<Rightarrow> False | P_half _ _ \<Rightarrow> True)"
    using phase_rel_state [OF ph] trips_counts [OF rel order.refl m]
    by (auto simp: failure_opens_def opens_on_failure_def split: phase.splits)
  then show ?thesis
    using assms(5) False phase_rel_state [OF ph] c
    by (auto simp: record_failure Let_def crossing_event_def breaker_constants split: if_splits phase.splits)
qed

theorem crossing_exactly_at_fifth_witness:
  "\<exists>k result evs k'. breaker_run 7 (map (\<lambda>m. (Outcome [m] False, 0)) ''abcd'') no_breaker = ([], k) \<and>
    record_outcome_keys 7 False 1 ''e'' 1 k = (result, evs, k') \<and>
    crossing_event 7 False result 1 = Some (Consecutive_failures 7 5 1)"
proof -
  let ?ops = "map (\<lambda>m. (Outcome [m] False, 0 :: rat)) ''abcd''"
  obtain k where run: "breaker_run 7 ?ops no_breaker = ([], k)" by simp
  obtain result evs k' where out: "record_outcome_keys 7 False 1 ''e'' 1 k = (result, evs, k')" by (rule prod_cases3)
  have spec: "spec_run ?ops spec_initial = ([], \<lparr>sp_phase = P_closed,
      sp_hist = [(''d'', 0, False), (''c'', 0, False), (''b'', 0, False), (''a'', 0, False)]\<rparr>)"
    by (simp add: spec_initial_def spec_outcome_def trips_def failing_run_def failed_def recent_def)
  have "crossing_event 7 False result 1 = Some (Consecutive_failures 7 5 1)"
    using crossing_exactly_at_fifth [OF _ _ run spec out]
    by (simp add: trips_def failing_run_def failed_def recent_def)
  with run out show ?thesis by blast
qed

end
