(* ===== verification/Signing.thy ===== *)
theory Signing
  imports Digest
begin

text \<open>
  Request signatures (\<open>relay/signing.py\<close>): what is signed, the header value and the
  receiver-side check.  The digests are those of \<^theory_text>\<open>Digest\<close>; \<open>hmac.compare_digest\<close> is
  equality (its timing is not modelled).
\<close>

definition SIGNATURE_VERSION :: string where "SIGNATURE_VERSION = ''v1''"

definition DEFAULT_TOLERANCE_SECONDS :: int where "DEFAULT_TOLERANCE_SECONDS = 300"

definition signed_payload :: "int \<Rightarrow> byte list \<Rightarrow> byte list" where
  "signed_payload timestamp body = encode (str_int timestamp @ ''.'') @ body"

definition compute_signature :: "string \<Rightarrow> int \<Rightarrow> byte list \<Rightarrow> string" where
  "compute_signature secret timestamp body =
     (let digest = hexdigest (hmac_sha256 (encode secret) (signed_payload timestamp body))
      in SIGNATURE_VERSION @ ''='' @ digest)"

definition verify_signature :: "string \<Rightarrow> int \<Rightarrow> byte list \<Rightarrow> string \<Rightarrow> int \<Rightarrow> int \<Rightarrow> bool" where
  "verify_signature secret timestamp body signature tolerance_seconds now =
     (if \<bar>now - timestamp\<bar> > tolerance_seconds then False
      else compute_signature secret timestamp body = signature)"

section \<open>Injectivity of the parts\<close>

lemma digits_base_inject:
  assumes "0 < b" and "m < b ^ k" and "n < b ^ k" and "digits_base b k m = digits_base b k n"
  shows "m = n"
proof -
  have "horner b (digits_base b k m) = horner b (digits_base b k n)" by (simp only: assms(4))
  then show ?thesis
    by (simp only: horner_digits_base [OF assms(1)] mod_less [OF assms(2)] mod_less [OF assms(3)])
qed

lemma digit_char_inject:
  assumes "d < 16" and "d' < 16" and "digit_char d = digit_char d'"
  shows "d = d'"
proof -
  have "hex_val (digit_char d) = hex_val (digit_char d')" by (simp only: assms(3))
  then show ?thesis
    by (simp only: hex_val_digit_char [OF assms(1)] hex_val_digit_char [OF assms(2)] option.inject)
qed

lemma map_digit_char_inject:
  assumes "\<And>d. d \<in> set xs \<union> set ys \<Longrightarrow> d < 16" and "map digit_char xs = map digit_char ys"
  shows "xs = ys"
proof -
  have "inj_on digit_char (set xs \<union> set ys)"
    using assms(1) digit_char_inject by (intro inj_onI) blast
  then show ?thesis using assms(2) by (rule map_inj_on [rotated])
qed

lemma hex_byte_inject:
  fixes a b :: byte
  assumes "map digit_char (digits_base 16 2 (unat a)) = map digit_char (digits_base 16 2 (unat b))"
  shows "a = b"
proof -
  have "digits_base 16 2 (unat a) = digits_base 16 2 (unat b)"
    using digits_base_less [of 16] by (intro map_digit_char_inject [OF _ assms]) auto
  then have "unat a = unat b"
    using unsigned_less [of a, where ?'a = nat] unsigned_less [of b, where ?'a = nat]
    by (intro digits_base_inject [of 16 _ 2]) simp_all
  then show ?thesis by (rule unsigned_word_eqI)
qed

lemma hexdigest_inject: "hexdigest xs = hexdigest ys \<Longrightarrow> xs = ys"
proof (induction xs arbitrary: ys)
  case Nil
  then show ?case by (cases ys) (simp_all add: hexdigest_def numeral_2_eq_2)
next
  case (Cons x xs)
  then obtain y ys' where ys: "ys = y # ys'"
    by (cases ys) (simp_all add: hexdigest_def numeral_2_eq_2)
  have "map digit_char (digits_base 16 2 (unat x)) @ hexdigest xs =
      map digit_char (digits_base 16 2 (unat y)) @ hexdigest ys'"
    using Cons.prems by (simp add: hexdigest_def ys)
  then have "map digit_char (digits_base 16 2 (unat x)) = map digit_char (digits_base 16 2 (unat y))"
    and "hexdigest xs = hexdigest ys'"
    by (simp_all add: append_eq_append_conv)
  then show ?case using Cons.IH hex_byte_inject ys by blast
qed

lemma of_char_byte_inject: "(of_char c :: byte) = of_char d \<Longrightarrow> c = d"
proof -
  have "unat (of_char c :: byte) = of_char c" for c
    unfolding of_nat_of_char [symmetric, where 'a = byte] unat_of_nat by simp
  then show "(of_char c :: byte) = of_char d \<Longrightarrow> c = d"
    by (metis of_char_eq_iff)
qed

lemma encode_inject: "encode s = encode t \<Longrightarrow> s = t"
  unfolding encode_def using of_char_byte_inject by (auto dest: map_injective intro: injI)

lemma encode_append: "encode (s @ t) = encode s @ encode t"
  by (simp add: encode_def)

lemma split_unique:
  "xs @ d # ys = xs' @ d # ys' \<Longrightarrow> d \<notin> set xs \<Longrightarrow> d \<notin> set xs' \<Longrightarrow> xs = xs' \<and> ys = ys'"
proof (induction xs arbitrary: xs')
  case Nil
  then show ?case by (cases xs') auto
next
  case (Cons x xs)
  then show ?case by (cases xs') auto
qed

lemma digit_char_plain:
  assumes "d < 16"
  shows "digit_char d \<noteq> CHR ''.'' \<and> digit_char d \<noteq> CHR ''-''"
proof -
  have "hex_val (CHR ''.'') = None" by (simp add: hex_val_def)
  then show ?thesis
    using hex_val_digit_char [OF assms] hex_val_sep(1) by (metis option.distinct(1))
qed

lemma dec_nat_plain:
  assumes "c \<in> set (dec_nat n)"
  shows "c \<noteq> CHR ''.'' \<and> c \<noteq> CHR ''-''"
proof -
  obtain d where "d < 10" and "c = digit_char d" using dec_nat_digits [OF assms] by blast
  then show ?thesis using digit_char_plain [of d] by simp
qed

lemma str_int_no_dot: "CHR ''.'' \<notin> set (str_int i)"
  using dec_nat_plain by (auto simp: str_int_def)

lemma str_int_eq [simp]: "str_int i = str_int j \<longleftrightarrow> i = j"
proof
  assume eq: "str_int i = str_int j"
  have "hd (dec_nat n) \<noteq> CHR ''-''" for n
    using dec_nat_plain [of "hd (dec_nat n)" n] by simp
  then have "dec_nat n \<noteq> CHR ''-'' # xs" for n xs
    by (metis list.sel(1))
  then show "i = j" using eq by (auto simp: str_int_def split: if_splits) (metis)+
qed simp

lemma signed_payload_inject:
  "signed_payload t body = signed_payload t' body' \<longleftrightarrow> t = t' \<and> body = body'"
proof
  let ?dot = "of_char (CHR ''.'') :: byte"
  assume "signed_payload t body = signed_payload t' body'"
  then have "encode (str_int t) @ ?dot # body = encode (str_int t') @ ?dot # body'"
    by (simp only: signed_payload_def encode_append append_assoc) (simp add: encode_def)
  moreover have "?dot \<notin> set (encode (str_int i))" for i
  proof
    assume "?dot \<in> set (encode (str_int i))"
    then obtain c where "c \<in> set (str_int i)" and "?dot = of_char c"
      unfolding encode_def set_map by (rule imageE)
    then show False using str_int_no_dot [of i] of_char_byte_inject by metis
  qed
  ultimately have "encode (str_int t) = encode (str_int t') \<and> body = body'" by (intro split_unique)
  then show "t = t' \<and> body = body'" using encode_inject by fastforce
qed simp

lemma signature_eq:
  "compute_signature secret t' body' = compute_signature secret t body \<longleftrightarrow>
    hmac_sha256 (encode secret) (signed_payload t' body') = hmac_sha256 (encode secret) (signed_payload t body)"
  using hexdigest_inject by (auto simp: compute_signature_def Let_def)

section \<open>Properties\<close>

text \<open>C33: What a receiver accepts: a signature computed for one timestamp and body is accepted with a
  given timestamp and body exactly when the receiver's clock is within the tolerance of that
  timestamp and HMAC-SHA-256 under the secret agrees on the two signed messages; and those
  messages are equal only for the same timestamp and the same body, so moving a signature
  to a fresh timestamp or another body needs a collision under the secret key.\<close>

theorem signature_accepted_iff:
  "(verify_signature secret t' body' (compute_signature secret t body) tolerance now \<longleftrightarrow>
      \<bar>now - t'\<bar> \<le> tolerance \<and>
      hmac_sha256 (encode secret) (signed_payload t' body') = hmac_sha256 (encode secret) (signed_payload t body)) \<and>
   (signed_payload t' body' = signed_payload t body \<longleftrightarrow> t' = t \<and> body' = body)"
  by (auto simp: verify_signature_def signature_eq signed_payload_inject)

end
