(* ===== verification/Sender.thy ===== *)
theory Sender
  imports Config Signing
begin

text \<open>
  The HTTP sender (\<open>relay/delivery/sender.py\<close>): the request that goes out, and the
  classification of what comes back.  The HTTP client is an argument: one call answers with
  a response or raises.  The call itself is in \<^theory_text>\<open>Delivery_Io\<close>.
\<close>

section \<open>What the HTTP client returns\<close>

text \<open>
  An exception as \<open>classify_exception\<close> sees it: which of the client's classes it is an
  instance of, whether its cause is an \<open>ssl.SSLError\<close>, and its message.
\<close>

datatype exc_class = TimeoutException | ConnectError | Other_exception

record http_exception =
  x_class :: exc_class
  x_cause_ssl :: bool
  x_message :: utext

record http_response =
  rs_status :: int
  rs_text :: utext
  rs_retry_after :: "string option"

type_synonym http_reply = "http_exception + http_response"

record http_request =
  rq_url :: string
  rq_body :: "byte list"
  rq_headers :: "(string \<times> string) list"

section \<open>Results\<close>

definition RESPONSE_SNIPPET_LIMIT :: nat where "RESPONSE_SNIPPET_LIMIT = 1024"

record attempt_result =
  r_latency_ms :: int
  r_http_status :: "int option"
  r_error_class :: "error_class option"
  r_response_snippet :: "utext option"
  r_retry_after :: "string option"

definition succeeded :: "attempt_result \<Rightarrow> bool" where
  "succeeded r \<longleftrightarrow> r_error_class r = None"

text \<open>
  \<open>str.lower\<close> on one code point, for searching ASCII text in it: beside the ASCII capitals
  only the Kelvin sign and the dotted capital I lower to text holding an ASCII letter.
\<close>

definition lower_point :: "nat \<Rightarrow> utext" where
  "lower_point c =
     (if 65 \<le> c \<and> c \<le> 90 then [c + 32] else if c = 8490 then [107] else if c = 304 then [105, 775] else [c])"

definition lower_text :: "utext \<Rightarrow> utext" where
  "lower_text s = concat (map lower_point s)"

fun contains :: "utext \<Rightarrow> utext \<Rightarrow> bool" where
  "contains needle [] = (needle = [])"
| "contains needle (c # cs) = (take (length needle) (c # cs) = needle \<or> contains needle cs)"

definition mentions :: "string \<Rightarrow> utext \<Rightarrow> bool" where
  "mentions needle message = contains (map of_char needle) message"

definition classify_exception :: "http_exception \<Rightarrow> error_class" where
  "classify_exception exc =
     (case x_class exc of
        TimeoutException \<Rightarrow> E_timeout
      | ConnectError \<Rightarrow>
          (let message = lower_text (x_message exc)
           in if x_cause_ssl exc \<or> mentions ''certificate'' message then E_tls
              else if mentions ''name or service not known'' message \<or> mentions ''getaddrinfo'' message then E_dns
              else E_conn_refused)
      | Other_exception \<Rightarrow> E_conn_refused)"

definition classify_status :: "int \<Rightarrow> error_class option" where
  "classify_status status_code =
     (if 200 \<le> status_code \<and> status_code < 300 then None
      else if status_code \<ge> 500 then Some E_http_5xx
      else Some E_http_4xx)"

section \<open>The request\<close>

definition build_headers :: "uuid \<Rightarrow> uuid \<Rightarrow> string \<Rightarrow> byte list \<Rightarrow> int \<Rightarrow> (string \<times> string) list" where
  "build_headers delivery_id event_id secret body timestamp =
     [(''Content-Type'', ''application/json''),
      (''User-Agent'', ''Relay/1.0''),
      (''Relay-Id'', uuid_str delivery_id),
      (''Relay-Event-Id'', uuid_str event_id),
      (''Relay-Timestamp'', str_int timestamp),
      (''Relay-Signature'', compute_signature secret timestamp body)]"

definition serialize_payload :: "json \<Rightarrow> byte list" where
  "serialize_payload payload = encode (dumps payload)"

text \<open>\<open>int(x)\<close> of a float: truncation towards zero.\<close>

definition int_of_float :: "rat \<Rightarrow> int" where
  "int_of_float x = (if 0 \<le> x then \<lfloor>x\<rfloor> else \<lceil>x\<rceil>)"

text \<open>\<open>send_delivery\<close> up to the call and from its reply on; \<open>now\<close> is \<open>time.time()\<close>,
  \<open>elapsed\<close> the difference of the two \<open>perf_counter()\<close> readings.\<close>

definition delivery_request :: "string \<Rightarrow> string \<Rightarrow> uuid \<Rightarrow> uuid \<Rightarrow> json \<Rightarrow> rat \<Rightarrow> http_request" where
  "delivery_request url secret delivery_id event_id payload now =
     (let body = serialize_payload payload;
          headers = build_headers delivery_id event_id secret body (int_of_float now)
      in \<lparr>rq_url = url, rq_body = body, rq_headers = headers\<rparr>)"

definition attempt_result_of :: "rat \<Rightarrow> http_reply \<Rightarrow> attempt_result" where
  "attempt_result_of elapsed reply =
     (case reply of
        Inl exc \<Rightarrow>
          \<lparr>r_latency_ms = int_of_float (elapsed * 1000), r_http_status = None,
           r_error_class = Some (classify_exception exc),
           r_response_snippet = Some (take RESPONSE_SNIPPET_LIMIT (x_message exc)),
           r_retry_after = None\<rparr>
      | Inr response \<Rightarrow>
          \<lparr>r_latency_ms = int_of_float (elapsed * 1000), r_http_status = Some (rs_status response),
           r_error_class = classify_status (rs_status response),
           r_response_snippet = Some (take RESPONSE_SNIPPET_LIMIT (rs_text response)),
           r_retry_after = rs_retry_after response\<rparr>)"

section \<open>Properties\<close>

text \<open>An attempt's result follows the taxonomy: it succeeds exactly when a response with a 2xx
  status came back; a status is recorded exactly when there was a response; an error class
  \<open>http_5xx\<close> means a status of at least 500 and \<open>http_4xx\<close> another non-2xx status; every
  transport exception gets a transport class; and the kept snippet is at most 1024 long.\<close>

theorem attempt_result_taxonomy:
  "(succeeded (attempt_result_of el reply) \<longleftrightarrow> (\<exists>rs. reply = Inr rs \<and> 200 \<le> rs_status rs \<and> rs_status rs < 300)) \<and>
   r_http_status (attempt_result_of el reply) = (case reply of Inl _ \<Rightarrow> None | Inr rs \<Rightarrow> Some (rs_status rs)) \<and>
   (r_error_class (attempt_result_of el reply) = Some E_http_5xx \<longleftrightarrow> (\<exists>rs. reply = Inr rs \<and> 500 \<le> rs_status rs)) \<and>
   (r_error_class (attempt_result_of el reply) = Some E_http_4xx \<longleftrightarrow>
      (\<exists>rs. reply = Inr rs \<and> rs_status rs < 500 \<and> \<not> (200 \<le> rs_status rs \<and> rs_status rs < 300))) \<and>
   (\<exists>txt. r_response_snippet (attempt_result_of el reply) = Some txt \<and> length txt \<le> 1024)"
proof (cases reply)
  case (Inl exc)
  have "classify_exception exc \<noteq> E_http_5xx" "classify_exception exc \<noteq> E_http_4xx"
    by (simp_all add: classify_exception_def Let_def split: exc_class.splits)
  with Inl show ?thesis
    by (simp add: attempt_result_of_def succeeded_def RESPONSE_SNIPPET_LIMIT_def)
next
  case (Inr rs)
  then show ?thesis
    by (auto simp: attempt_result_of_def succeeded_def classify_status_def RESPONSE_SNIPPET_LIMIT_def)
qed

text \<open>Two payloads that are the same dictionary are sent as the same bytes with the same
  signature, in whatever order their keys were stored.\<close>

theorem same_payload_same_request:
  assumes "distinct (map fst kvs)" and "distinct (map fst kvs')" and "set kvs = set kvs'"
  shows "delivery_request url secret d e (JObj kvs) now = delivery_request url secret d e (JObj kvs') now"
  by (simp only: delivery_request_def serialize_payload_def dumps_order_irrelevant [OF assms])

theorem same_payload_same_request_witness:
  "delivery_request ''u'' ''s'' 1 2 (JObj [([97], JInt 1), ([98], JInt 2)]) 5 =
   delivery_request ''u'' ''s'' 1 2 (JObj [([98], JInt 2), ([97], JInt 1)]) 5"
  by (rule same_payload_same_request) auto

end
