(* ===== verification/Effects.thy ===== *)
theory Effects
  imports Retry_Queue Rate_Limit Ordering Breaker Sender
begin

text \<open>
  How a process of the program runs: a function from the world to a result or an exception
  and the world after it.  The world is what all processes share (the committed database,
  Redis and the clock), what is local to this process (its database session, the trace of
  what it did), its inputs, and an oracle with one entry per awaited call.  The entry says
  how much time passes before the call takes effect, what other processes do to the shared
  state meanwhile, and whether the call fails, with or without having taken effect, or the
  process is cancelled or dies there.  An exhausted oracle means calls that succeed with
  nobody interfering.
\<close>

section \<open>Exceptions\<close>

datatype exn =
    Redis_error | Os_error | Sql_error | Integrity_error | Stale_error | Invalid_request
  | Value_error | Type_error | Overflow_error | Zero_division | Missing_greenlet | Assertion_error | No_result | Validation_error
  | Key_error | Attribute_error | Provider_error (pe_name: utext) (pe_message: utext)
  | Api_error (ae_status: int) (ae_code: string) (ae_message: string)
  | Cancelled | Died

text \<open>What \<open>except Exception\<close> catches, and when \<open>finally\<close> blocks still run.\<close>

definition is_exception :: "exn \<Rightarrow> bool" where
  "is_exception e \<longleftrightarrow> e \<noteq> Cancelled \<and> e \<noteq> Died"

definition db_exn :: "db_fault \<Rightarrow> exn" where
  "db_exn x = (case x of Bad_value \<Rightarrow> Sql_error | Integrity \<Rightarrow> Integrity_error | Stale \<Rightarrow> Stale_error)"

section \<open>The world\<close>

record shared =
  sh_now :: rat
  sh_db :: db
  sh_streams :: streams
  sh_retries :: "string zset"
  sh_breakers :: "uuid \<Rightarrow> breaker_keys"
  sh_queues :: "uuid \<Rightarrow> string list"
  sh_locks :: "uuid \<Rightarrow> string rkey"
  sh_buckets :: "uuid \<Rightarrow> bucket rkey"
  sh_inflight :: "uuid \<Rightarrow> string zset rkey"
  sh_claims :: "uuid \<Rightarrow> string rkey"
  sh_daily :: "string \<Rightarrow> int rkey"
  sh_published :: "breaker_event list"

text \<open>What a process did, with the outcome of each call that took effect.\<close>

datatype action =
    Select_delivery uuid "delivery option"
  | Select_endpoint uuid "endpoint option"
  | Select_event uuid "event option"
  | Select_tenant uuid "tenant option"
  | Queried db
  | Committed "db_write list" db
  | Rolled_back
  | Zadd_retry uuid uuid uuid rat
  | Zrem_retry uuid uuid uuid bool
  | Moved_due "nat option"
  | Xadd uuid uuid uuid
  | Rpush uuid uuid
  | Lock_try uuid string bool
  | Lock_release uuid string
  | Peek uuid "uuid option"
  | Popped uuid uuid bool
  | Gate uuid gate_decision
  | Recorded uuid bool
  | Breaker_read uuid
  | Breaker_reset uuid
  | Published breaker_event
  | Token_try uuid bool
  | Slot_try uuid string bool
  | Slot_release uuid string
  | Posted http_request http_reply
  | Xgroup string
  | Xread string "(stream_id \<times> fields) list"
  | Xclaim string "(stream_id \<times> fields) list"
  | Xack string stream_id
  | Redis_read
  | Budget_claim uuid bool
  | Budget_used string int
  | Budget_expire string
  | Budget_back uuid
  | Llm_called
  | Dns_tls_checked string
  | Slept rat

datatype metric =
    M_gated string
  | M_delivery uuid delivery_status rat
  | M_ingested uuid
  | M_gauge string string int
  | M_agent_run string
  | M_agent_cost rat

text \<open>\<open>session_broken\<close> says that a statement failed and the session was not rolled back since (the
  ORM then refuses every use of it).  The last fields are Python locals that \<open>finally\<close> and \<open>except\<close> blocks read: \<open>slot_token\<close> of
  \<open>deliver_with_gates\<close>, and \<open>delay\<close> and the next due time of the polling loops.\<close>

record local_state =
  pending :: "db_write list"
  loaded_deliveries :: "delivery list"
  loaded_endpoints :: "endpoint list"
  trace :: "action list"
  metrics :: "metric list"
  draws :: nat
  session_broken :: bool
  slot_var :: "string option"
  delay_var :: rat
  next_var :: rat

record inputs =
  in_cfg :: settings
  in_uuids :: "nat \<Rightarrow> uuid"
  in_tokens :: "nat \<Rightarrow> string"
  in_randoms :: "nat \<Rightarrow> rat"
  in_replies :: "nat \<Rightarrow> http_reply \<times> rat"
  in_skew :: rat

datatype fault = Up | Fail_before exn | Fail_after exn

record io_event =
  io_dt :: rat
  io_env :: "shared \<Rightarrow> shared"
  io_fault :: fault

record world =
  w_sh :: shared
  w_loc :: local_state
  w_in :: inputs
  w_oracle :: "io_event list"

type_synonym 'a proc = "world \<Rightarrow> (exn + 'a) \<times> world"

section \<open>Control\<close>

definition return :: "'a \<Rightarrow> 'a proc" where "return x w = (Inr x, w)"

definition raise :: "exn \<Rightarrow> 'a proc" where "raise e w = (Inl e, w)"

definition bind :: "'a proc \<Rightarrow> ('a \<Rightarrow> 'b proc) \<Rightarrow> 'b proc" where
  "bind m f w = (case m w of (Inl e, w') \<Rightarrow> (Inl e, w') | (Inr x, w') \<Rightarrow> f x w')"

definition seq :: "'a proc \<Rightarrow> 'b proc \<Rightarrow> 'b proc" where
  "seq m k = bind m (\<lambda>_. k)"

definition only_if :: "bool \<Rightarrow> unit proc \<Rightarrow> unit proc" where
  "only_if b m = (if b then m else return ())"

text \<open>\<open>try: m except Exception as e: h(e)\<close>, and \<open>try: m finally: fin\<close>: an exception of \<open>fin\<close>
  replaces the outcome of \<open>m\<close>; a dead process runs neither.\<close>

definition try_except :: "'a proc \<Rightarrow> (exn \<Rightarrow> 'a proc) \<Rightarrow> 'a proc" where
  "try_except m h w = (case m w of
     (Inl e, w') \<Rightarrow> if is_exception e then h e w' else (Inl e, w')
   | (Inr x, w') \<Rightarrow> (Inr x, w'))"

definition try_finally :: "'a proc \<Rightarrow> unit proc \<Rightarrow> 'a proc" where
  "try_finally m fin w = (case m w of
     (r, w') \<Rightarrow> if r = Inl Died then (r, w')
       else (case fin w' of (Inl e, w'') \<Rightarrow> (Inl e, w'') | (Inr _, w'') \<Rightarrow> (r, w'')))"

fun map_proc :: "('a \<Rightarrow> 'b proc) \<Rightarrow> 'a list \<Rightarrow> 'b list proc" where
  "map_proc f [] = return []"
| "map_proc f (x # xs) = bind (f x) (\<lambda>y. bind (map_proc f xs) (\<lambda>ys. return (y # ys)))"

text \<open>\<open>except E\<close> for the exceptions of a set.\<close>

definition except_in :: "exn set \<Rightarrow> 'a proc \<Rightarrow> (exn \<Rightarrow> 'a proc) \<Rightarrow> 'a proc" where
  "except_in es m h w = (case m w of
     (Inl e, w') \<Rightarrow> if e \<in> es then h e w' else (Inl e, w')
   | (Inr x, w') \<Rightarrow> (Inr x, w'))"

fun for_each :: "'a list \<Rightarrow> ('a \<Rightarrow> unit proc) \<Rightarrow> unit proc" where
  "for_each [] f = return ()"
| "for_each (x # xs) f = seq (f x) (for_each xs f)"

section \<open>Calls\<close>

definition calm_event :: io_event where
  "calm_event = \<lparr>io_dt = 0, io_env = id, io_fault = Up\<rparr>"

text \<open>Time never runs backwards, whatever the oracle says.\<close>

definition advance :: "io_event \<Rightarrow> shared \<Rightarrow> shared" where
  "advance ev s = (io_env ev s)\<lparr>sh_now := sh_now s + \<bar>io_dt ev\<bar>\<rparr>"

text \<open>\<open>effect co f\<close> is an awaited call with effect \<open>f\<close>; \<open>co\<close> confines the failures of the
  oracle to those the called library raises.\<close>

definition effect :: "(exn \<Rightarrow> exn) \<Rightarrow> (world \<Rightarrow> (exn + 'a) \<times> world) \<Rightarrow> 'a proc" where
  "effect co f w =
     (let (ev, rest) = (case w_oracle w of [] \<Rightarrow> (calm_event, []) | ev # rest \<Rightarrow> (ev, rest));
          w1 = w\<lparr>w_sh := advance ev (w_sh w), w_oracle := rest\<rparr>
      in case io_fault ev of
           Up \<Rightarrow> f w1
         | Fail_before e \<Rightarrow> (Inl (co e), w1)
         | Fail_after e \<Rightarrow> (Inl (co e), snd (f w1)))"

definition redis_exns :: "exn set" where "redis_exns = {Redis_error, Os_error, Cancelled, Died}"
definition sql_exns :: "exn set" where "sql_exns = {Sql_error, Os_error, Cancelled, Died}"

definition redis_exn :: "exn \<Rightarrow> exn" where "redis_exn e = (if e \<in> redis_exns then e else Redis_error)"
definition sql_exn :: "exn \<Rightarrow> exn" where "sql_exn e = (if e \<in> sql_exns then e else Sql_error)"
definition http_exn :: "exn \<Rightarrow> exn" where "http_exn e = (if e = Died then Died else Cancelled)"

lemma coerced_exns [simp]: "redis_exn e \<in> redis_exns" "sql_exn e \<in> sql_exns"
  by (simp_all add: redis_exn_def sql_exn_def redis_exns_def sql_exns_def)

definition logged :: "action \<Rightarrow> local_state \<Rightarrow> local_state" where
  "logged a l = l\<lparr>trace := a # trace l\<rparr>"

definition log_action :: "action \<Rightarrow> world \<Rightarrow> world" where
  "log_action a w = w\<lparr>w_loc := logged a (w_loc w)\<rparr>"

text \<open>A Redis command or script that does not raise.\<close>

definition redis :: "('a \<Rightarrow> action) \<Rightarrow> (shared \<Rightarrow> 'a \<times> shared) \<Rightarrow> 'a proc" where
  "redis act f = effect redis_exn (\<lambda>w. case f (w_sh w) of (r, s) \<Rightarrow> (Inr r, log_action (act r) (w\<lparr>w_sh := s\<rparr>)))"

definition redis_unit :: "action \<Rightarrow> (shared \<Rightarrow> shared) \<Rightarrow> unit proc" where
  "redis_unit act f = redis (\<lambda>_. act) (\<lambda>s. ((), f s))"

text \<open>A query sees the committed rows and the session's own changes, which are flushed first
  (the ORM's autoflush); the flush may raise.\<close>

definition query :: "('a \<Rightarrow> action) \<Rightarrow> (db \<Rightarrow> 'a) \<Rightarrow> 'a proc" where
  "query act q = effect sql_exn (\<lambda>w. case apply_writes (pending (w_loc w)) (sh_db (w_sh w)) of
     Inl x \<Rightarrow> (Inl (db_exn x), w)
   | Inr d \<Rightarrow> (Inr (q d), log_action (act (q d)) w))"

text \<open>A query whose result is not a single row records the rows it ran over.\<close>

definition query_rows :: "(db \<Rightarrow> 'a) \<Rightarrow> 'a proc" where
  "query_rows q = bind (query (\<lambda>r. Queried (fst r)) (\<lambda>d. (d, q d))) (\<lambda>r. return (snd r))"

definition commit :: "unit proc" where
  "commit = effect sql_exn (\<lambda>w. case apply_writes (pending (w_loc w)) (sh_db (w_sh w)) of
     Inl x \<Rightarrow> (Inl (db_exn x), w)
   | Inr d \<Rightarrow> (Inr (), log_action (Committed (pending (w_loc w)) d)
       (w\<lparr>w_sh := (w_sh w)\<lparr>sh_db := d\<rparr>, w_loc := (w_loc w)\<lparr>pending := []\<rparr>\<rparr>)))"

definition modify_local :: "(local_state \<Rightarrow> local_state) \<Rightarrow> unit proc" where
  "modify_local f w = (Inr (), w\<lparr>w_loc := f (w_loc w)\<rparr>)"

definition get_local :: "(local_state \<Rightarrow> 'a) \<Rightarrow> 'a proc" where
  "get_local f w = (Inr (f (w_loc w)), w)"

definition add_pending :: "db_write list \<Rightarrow> unit proc" where
  "add_pending ws = modify_local (\<lambda>l. l\<lparr>pending := pending l @ ws\<rparr>)"

definition clear_session :: "local_state \<Rightarrow> local_state" where
  "clear_session l = l\<lparr>pending := [], loaded_deliveries := [], loaded_endpoints := [], session_broken := False\<rparr>"

definition rollback :: "unit proc" where
  "rollback = effect sql_exn (\<lambda>w. (Inr (), log_action Rolled_back (w\<lparr>w_loc := clear_session (w_loc w)\<rparr>)))"

text \<open>A call on a session that may be used again after a failure.\<close>

definition in_session :: "'a proc \<Rightarrow> 'a proc" where
  "in_session m =
     bind (get_local session_broken) (\<lambda>broken.
     if broken then raise Invalid_request
     else try_except m (\<lambda>e. seq (modify_local (\<lambda>l. l\<lparr>session_broken := True\<rparr>)) (raise e)))"

text \<open>A commit whose values the database refuses.\<close>

definition refused_commit :: "exn \<Rightarrow> unit proc" where
  "refused_commit e = effect sql_exn (\<lambda>w. (Inl e, w))"

text \<open>\<open>async with session_factory() as session\<close>: a fresh session, gone afterwards with
  whatever was not committed.\<close>

definition with_session :: "'a proc \<Rightarrow> 'a proc" where
  "with_session m w =
     (case m (w\<lparr>w_loc := clear_session (w_loc w)\<rparr>) of (r, w') \<Rightarrow> (r, w'\<lparr>w_loc := clear_session (w_loc w')\<rparr>))"

definition settings_of :: "settings proc" where
  "settings_of w = (Inr (in_cfg (w_in w)), w)"

text \<open>\<open>time.time()\<close> of this process, and the database's \<open>now()\<close>.\<close>

definition time_time :: "rat proc" where
  "time_time w = (Inr (sh_now (w_sh w) + in_skew (w_in w)), w)"

definition db_now :: "rat proc" where
  "db_now w = (Inr (sh_now (w_sh w)), w)"

definition next_draw :: "nat proc" where
  "next_draw w = (Inr (draws (w_loc w)), w\<lparr>w_loc := (w_loc w)\<lparr>draws := Suc (draws (w_loc w))\<rparr>\<rparr>)"

definition uuid4 :: "uuid proc" where
  "uuid4 = bind next_draw (\<lambda>n w. (Inr (in_uuids (w_in w) n), w))"

text \<open>\<open>secrets.token_urlsafe(n)\<close>.\<close>

definition token_urlsafe :: "string proc" where
  "token_urlsafe = bind next_draw (\<lambda>n w. (Inr (in_tokens (w_in w) n), w))"

definition random_draw :: "rat proc" where
  "random_draw = bind next_draw (\<lambda>n w. (Inr (in_randoms (w_in w) n), w))"

definition count_metric :: "metric \<Rightarrow> unit proc" where
  "count_metric m = modify_local (\<lambda>l. l\<lparr>metrics := m # metrics l\<rparr>)"

text \<open>\<open>client.post\<close>: the reply and how long it took are inputs; a transport exception is a
  reply, so only cancellation and death interrupt the call.\<close>

definition reply_input :: "(http_reply \<times> rat) proc" where
  "reply_input = bind next_draw (\<lambda>n w. (Inr (in_replies (w_in w) n), w))"

definition http_post :: "http_request \<Rightarrow> (http_reply \<times> rat) proc" where
  "http_post rq =
     bind reply_input (\<lambda>(reply, elapsed).
     effect http_exn (\<lambda>w. (Inr (reply, elapsed), log_action (Posted rq reply)
       (w\<lparr>w_sh := (w_sh w)\<lparr>sh_now := sh_now (w_sh w) + \<bar>elapsed\<bar>\<rparr>\<rparr>))))"

section \<open>Reasoning over every oracle\<close>

text \<open>
  \<open>safe m Q E l\<close>: started with local state \<open>l\<close>, whatever the shared state, the inputs and the
  oracle are, \<open>m\<close> ends with \<open>Q\<close> on its result or \<open>E\<close> on its exception and the local state
  then.  The rules below compute it through the program text.
\<close>

definition safe :: "'a proc \<Rightarrow> ('a \<Rightarrow> local_state \<Rightarrow> bool) \<Rightarrow> (exn \<Rightarrow> local_state \<Rightarrow> bool) \<Rightarrow> local_state \<Rightarrow> bool" where
  "safe m Q E l \<longleftrightarrow> (\<forall>w. w_loc w = l \<longrightarrow> (case m w of
     (Inr x, w') \<Rightarrow> Q x (w_loc w') | (Inl e, w') \<Rightarrow> E e (w_loc w')))"

named_theorems safe_intro "rules computing safety through a program"

lemma safeI:
  assumes "\<And>w x w'. w_loc w = l \<Longrightarrow> m w = (Inr x, w') \<Longrightarrow> Q x (w_loc w')"
    and "\<And>w e w'. w_loc w = l \<Longrightarrow> m w = (Inl e, w') \<Longrightarrow> E e (w_loc w')"
  shows "safe m Q E l"
  unfolding safe_def using assms by (auto split: prod.splits sum.splits)

lemma safe_run:
  "safe m Q E l \<Longrightarrow> w_loc w = l \<Longrightarrow> m w = (Inr x, w') \<Longrightarrow> Q x (w_loc w')"
  "safe m Q E l \<Longrightarrow> w_loc w = l \<Longrightarrow> m w = (Inl e, w') \<Longrightarrow> E e (w_loc w')"
  unfolding safe_def by fastforce+

lemma snd_run: "safe m (\<lambda>_ l. P l) (\<lambda>_ l. P l) (w_loc w) \<Longrightarrow> P (w_loc (snd (m w)))"
  by (cases "m w"; cases "fst (m w)") (auto dest: safe_run [OF _ refl])

lemma safe_mono:
  "safe m Q E l \<Longrightarrow> (\<And>x l'. Q x l' \<Longrightarrow> Q' x l') \<Longrightarrow> (\<And>e l'. E e l' \<Longrightarrow> E' e l') \<Longrightarrow> safe m Q' E' l"
  unfolding safe_def by (fastforce split: prod.splits sum.splits)

lemma safe_conj:
  "safe m Q E l \<Longrightarrow> safe m Q' E' l \<Longrightarrow> safe m (\<lambda>x l. Q x l \<and> Q' x l) (\<lambda>e l. E e l \<and> E' e l) l"
  unfolding safe_def by (fastforce split: prod.splits sum.splits)

lemma safe_return [safe_intro]: "Q x l \<Longrightarrow> safe (return x) Q E l"
  by (simp add: safe_def return_def)

lemma safe_raise [safe_intro]: "E e l \<Longrightarrow> safe (raise e) Q E l"
  by (simp add: safe_def raise_def)

lemma safe_bind [safe_intro]: "safe m (\<lambda>x. safe (f x) Q E) E l \<Longrightarrow> safe (bind m f) Q E l"
  unfolding safe_def bind_def by (fastforce split: prod.splits sum.splits)

text \<open>With a known specification of the first part.\<close>

lemma safe_bind_spec:
  assumes "safe m P E1 l" and "\<And>e l'. E1 e l' \<Longrightarrow> E e l'" and "\<And>x l'. P x l' \<Longrightarrow> safe (f x) Q E l'"
  shows "safe (bind m f) Q E l"
  by (rule safe_bind, rule safe_mono [OF assms(1)]) (use assms(2,3) in auto)

lemma safe_seq [safe_intro]: "safe m (\<lambda>_. safe k Q E) E l \<Longrightarrow> safe (seq m k) Q E l"
  unfolding seq_def by (rule safe_bind)

lemma safe_only_if [safe_intro]:
  "(b \<Longrightarrow> safe m Q E l) \<Longrightarrow> (\<not> b \<Longrightarrow> Q () l) \<Longrightarrow> safe (only_if b m) Q E l"
  by (simp add: only_if_def safe_return)

lemma safe_try_except [safe_intro]:
  "safe m Q (\<lambda>e l'. if is_exception e then safe (h e) Q E l' else E e l') l \<Longrightarrow> safe (try_except m h) Q E l"
  unfolding safe_def try_except_def by (fastforce split: prod.splits sum.splits if_splits)

lemma safe_try_finally [safe_intro]:
  assumes "safe m (\<lambda>x. safe fin (\<lambda>_. Q x) E) (\<lambda>e l'. if e = Died then E Died l' else safe fin (\<lambda>_. E e) E l') l"
  shows "safe (try_finally m fin) Q E l"
proof (rule safeI)
  fix w x w'
  assume w: "w_loc w = l" and run: "try_finally m fin w = (Inr x, w')"
  then obtain w1 y where "m w = (Inr x, w1)" and "fin w1 = (Inr y, w')"
    by (auto simp: try_finally_def split: prod.splits sum.splits if_splits)
  then show "Q x (w_loc w')" using safe_run [OF assms w] safe_run(1) by metis
next
  fix w e w'
  assume w: "w_loc w = l" and run: "try_finally m fin w = (Inl e, w')"
  obtain r w1 where m: "m w = (r, w1)" by (cases "m w")
  show "E e (w_loc w')"
  proof (cases r)
    case (Inl e1)
    then have s: "if e1 = Died then E Died (w_loc w1) else safe fin (\<lambda>_. E e1) E (w_loc w1)"
      using safe_run(2) [OF assms w] m by simp
    show ?thesis
    proof (cases "e1 = Died")
      case True
      then show ?thesis using s run m Inl by (simp add: try_finally_def)
    next
      case False
      then have s: "safe fin (\<lambda>_. E e1) E (w_loc w1)" using s by simp
      obtain r2 w2 where fin: "fin w1 = (r2, w2)" by (cases "fin w1")
      then show ?thesis using safe_run [OF s refl] run m Inl False
        by (cases r2) (auto simp: try_finally_def)
    qed
  next
    case (Inr x)
    then have "safe fin (\<lambda>_. Q x) E (w_loc w1)" using safe_run(1) [OF assms w] m by simp
    moreover have "fin w1 = (Inl e, w')"
      using run m Inr by (auto simp: try_finally_def split: prod.splits sum.splits)
    ultimately show ?thesis by (rule safe_run(2) [OF _ refl])
  qed
qed

lemma safe_if [safe_intro]:
  "(b \<Longrightarrow> safe m Q E l) \<Longrightarrow> (\<not> b \<Longrightarrow> safe k Q E l) \<Longrightarrow> safe (if b then m else k) Q E l"
  by simp

lemma safe_case_option [safe_intro]:
  "(x = None \<Longrightarrow> safe m Q E l) \<Longrightarrow> (\<And>y. x = Some y \<Longrightarrow> safe (k y) Q E l)
    \<Longrightarrow> safe (case x of None \<Rightarrow> m | Some y \<Rightarrow> k y) Q E l"
  by (cases x) simp_all

lemma safe_case_prod [safe_intro]:
  "(\<And>a b. p = (a, b) \<Longrightarrow> safe (f a b) Q E l) \<Longrightarrow> safe (case p of (a, b) \<Rightarrow> f a b) Q E l"
  by (cases p) simp

lemma safe_let [safe_intro]: "safe (f x) Q E l \<Longrightarrow> safe (let y = x in f y) Q E l"
  by simp

lemma safe_for_each:
  assumes "I l" and "\<And>x l. x \<in> set xs \<Longrightarrow> I l \<Longrightarrow> safe (f x) (\<lambda>_. I) E l"
  shows "safe (for_each xs f) (\<lambda>_. I) E l"
  using assms
proof (induction xs arbitrary: l)
  case Nil
  then show ?case by (simp add: safe_return)
next
  case (Cons x xs)
  have "safe (f x) (\<lambda>_ l. safe (for_each xs f) (\<lambda>_. I) E l) E l"
    by (rule safe_mono [of _ "\<lambda>_. I"]) (use Cons in auto)
  then show ?case by (simp add: safe_seq)
qed

lemma safe_effect:
  assumes "\<And>w x w'. w_loc w = l \<Longrightarrow> f w = (Inr x, w') \<Longrightarrow> Q x (w_loc w') \<and> (\<forall>e. E (co e) (w_loc w'))"
    and "\<And>w e' w'. w_loc w = l \<Longrightarrow> f w = (Inl e', w') \<Longrightarrow> E e' (w_loc w') \<and> (\<forall>e. E (co e) (w_loc w'))"
    and "\<And>e. E (co e) l"
  shows "safe (effect co f) Q E l"
proof -
  have step: "case (case io_fault ev of Up \<Rightarrow> f w1 | Fail_before e \<Rightarrow> (Inl (co e), w1) | Fail_after e \<Rightarrow> (Inl (co e), snd (f w1)))
      of (Inr x, w') \<Rightarrow> Q x (w_loc w') | (Inl e, w') \<Rightarrow> E e (w_loc w')"
    if "w_loc w1 = l" for ev w1
  proof (cases "f w1")
    case (Pair r w')
    then show ?thesis
      using assms(1,2) [OF that] assms(3) that by (cases r; cases "io_fault ev") simp_all
  qed
  show ?thesis
    unfolding safe_def effect_def
  proof (intro allI impI)
    fix w :: world assume w: "w_loc w = l"
    obtain ev rest where o: "(case w_oracle w of [] \<Rightarrow> (calm_event, []) | ev # rest \<Rightarrow> (ev, rest)) = (ev, rest)"
      by (rule prod.exhaust)
    have "w_loc (w\<lparr>w_sh := advance ev (w_sh w), w_oracle := rest\<rparr>) = l" using w by simp
    from step [OF this, of ev] show "case let (ev, rest) = case w_oracle w of [] \<Rightarrow> (calm_event, []) | ev # rest \<Rightarrow> (ev, rest);
              w1 = w\<lparr>w_sh := advance ev (w_sh w), w_oracle := rest\<rparr>
          in case io_fault ev of Up \<Rightarrow> f w1 | Fail_before e \<Rightarrow> (Inl (co e), w1) | Fail_after e \<Rightarrow> (Inl (co e), snd (f w1))
        of (Inl e, w') \<Rightarrow> E e (w_loc w') | (Inr x, w') \<Rightarrow> Q x (w_loc w')"
      by (simp only: o prod.case Let_def)
  qed
qed

lemma safe_redis [safe_intro]:
  assumes "\<And>s. Q (fst (f s)) (logged (act (fst (f s))) l)"
    and "\<And>e s. e \<in> redis_exns \<Longrightarrow> E e (logged (act (fst (f s))) l)" and "\<And>e. e \<in> redis_exns \<Longrightarrow> E e l"
  shows "safe (redis act f) Q E l"
  unfolding redis_def
proof (rule safe_effect)
  fix w x w'
  assume w: "w_loc w = l"
    and "(case f (w_sh w) of (r, s) \<Rightarrow> (Inr r, log_action (act r) (w\<lparr>w_sh := s\<rparr>))) = (Inr x, w')"
  then have x: "x = fst (f (w_sh w))" and w': "w_loc w' = logged (act x) l"
    by (auto simp: log_action_def split: prod.splits)
  show "Q x (w_loc w') \<and> (\<forall>e. E (redis_exn e) (w_loc w'))"
    unfolding w' x using assms(1,2) by simp
qed (use assms(3) in \<open>auto split: prod.splits\<close>)

lemma safe_redis_unit [safe_intro]:
  assumes "Q () (logged act l)" and "\<And>e. e \<in> redis_exns \<Longrightarrow> E e (logged act l)" and "\<And>e. e \<in> redis_exns \<Longrightarrow> E e l"
  shows "safe (redis_unit act f) Q E l"
  unfolding redis_unit_def using assms by (intro safe_redis) simp_all

text \<open>A flush that fails raises one of the ORM errors or the error of a refused value.\<close>

definition flush_exns :: "exn set" where "flush_exns = insert Integrity_error (insert Stale_error sql_exns)"

lemma flush_exns_simps [simp]: "sql_exn e \<in> flush_exns" "db_exn x \<in> flush_exns"
proof -
  have "sql_exn e \<in> sql_exns" by simp
  then show "sql_exn e \<in> flush_exns" by (simp add: flush_exns_def)
  show "db_exn x \<in> flush_exns" by (cases x) (simp_all add: flush_exns_def db_exn_def sql_exns_def)
qed

lemma safe_query [safe_intro]:
  assumes "\<And>d. Q (q d) (logged (act (q d)) l)" and "\<And>e d. e \<in> flush_exns \<Longrightarrow> E e (logged (act (q d)) l)"
    and "\<And>e. e \<in> flush_exns \<Longrightarrow> E e l"
  shows "safe (query act q) Q E l"
  unfolding query_def
  by (rule safe_effect) (use assms in \<open>auto simp: log_action_def split: sum.splits\<close>)

lemma safe_query_rows [safe_intro]:
  assumes "\<And>d. Q (q d) (logged (Queried d) l)" and "\<And>e d. e \<in> flush_exns \<Longrightarrow> E e (logged (Queried d) l)"
    and "\<And>e. e \<in> flush_exns \<Longrightarrow> E e l"
  shows "safe (query_rows q) Q E l"
  unfolding query_rows_def by (intro safe_bind safe_query safe_return) (use assms in simp_all)

lemma safe_except_in [safe_intro]:
  "safe m Q (\<lambda>e l'. if e \<in> es then safe (h e) Q E l' else E e l') l \<Longrightarrow> safe (except_in es m h) Q E l"
  unfolding safe_def except_in_def by (fastforce split: prod.splits sum.splits if_splits)

text \<open>Over a list: \<open>I xs ys\<close> relates the elements done to the results so far.\<close>

lemma safe_map_proc:
  assumes "I [] l" and "\<And>x ys l. x \<in> set xs \<Longrightarrow> I ys l \<Longrightarrow> safe (f x) (\<lambda>y. I (ys @ [y])) E l"
  shows "safe (map_proc f xs) I E l"
proof -
  have "safe (map_proc f xs') (\<lambda>zs. I (ys @ zs)) E l" if "I ys l" "set xs' \<subseteq> set xs" for xs' ys l
    using that
  proof (induction xs' arbitrary: ys l)
    case Nil
    then show ?case by (simp add: safe_return)
  next
    case (Cons x xs')
    have step: "safe (f x) (\<lambda>y. I (ys @ [y])) E l" by (rule assms(2)) (use Cons.prems in auto)
    have rest: "safe (bind (map_proc f xs') (\<lambda>zs. return (y # zs))) (\<lambda>zs. I (ys @ zs)) E l'" if "I (ys @ [y]) l'" for y l'
      by (rule safe_bind, rule safe_mono [OF Cons.IH [OF that]]) (use Cons.prems in \<open>auto intro: safe_return\<close>)
    show ?case
      unfolding map_proc.simps by (rule safe_bind, rule safe_mono [OF step]) (auto intro: rest)
  qed
  from this [of "[]" l xs] assms(1) show ?thesis by simp
qed

lemma safe_commit [safe_intro]:
  assumes "\<And>d0 d. apply_writes (pending l) d0 = Inr d \<Longrightarrow> Q () (logged (Committed (pending l) d) (l\<lparr>pending := []\<rparr>))"
    and "\<And>e d0 d. e \<in> flush_exns \<Longrightarrow> apply_writes (pending l) d0 = Inr d
          \<Longrightarrow> E e (logged (Committed (pending l) d) (l\<lparr>pending := []\<rparr>))"
    and "\<And>e. e \<in> flush_exns \<Longrightarrow> E e l"
  shows "safe commit Q E l"
  unfolding commit_def
  by (rule safe_effect) (use assms in \<open>auto simp: log_action_def split: sum.splits\<close>)

lemma safe_rollback [safe_intro]:
  assumes "Q () (logged Rolled_back (clear_session l))"
    and "\<And>e. e \<in> sql_exns \<Longrightarrow> E e (logged Rolled_back (clear_session l))" and "\<And>e. e \<in> sql_exns \<Longrightarrow> E e l"
  shows "safe rollback Q E l"
  unfolding rollback_def
  by (rule safe_effect) (use assms in \<open>auto simp: log_action_def\<close>)

lemma safe_modify_local [safe_intro]: "Q () (f l) \<Longrightarrow> safe (modify_local f) Q E l"
  by (simp add: safe_def modify_local_def)

lemma safe_get_local [safe_intro]: "Q (f l) l \<Longrightarrow> safe (get_local f) Q E l"
  by (simp add: safe_def get_local_def)

lemma safe_add_pending [safe_intro]: "Q () (l\<lparr>pending := pending l @ ws\<rparr>) \<Longrightarrow> safe (add_pending ws) Q E l"
  unfolding add_pending_def by (rule safe_modify_local)

lemma safe_count_metric [safe_intro]: "Q () (l\<lparr>metrics := m # metrics l\<rparr>) \<Longrightarrow> safe (count_metric m) Q E l"
  unfolding count_metric_def by (rule safe_modify_local)

lemma safe_with_session [safe_intro]:
  assumes "safe m (\<lambda>x l. Q x (clear_session l)) (\<lambda>e l. E e (clear_session l)) (clear_session l)"
  shows "safe (with_session m) Q E l"
proof (rule safeI)
  fix w x w' assume w: "w_loc w = l" and run: "with_session m w = (Inr x, w')"
  obtain r w1 where m: "m (w\<lparr>w_loc := clear_session (w_loc w)\<rparr>) = (r, w1)" by (rule prod.exhaust)
  then have "r = Inr x" and "w_loc w' = clear_session (w_loc w1)" using run by (auto simp: with_session_def)
  then show "Q x (w_loc w')" using safe_run(1) [OF assms _ m [unfolded \<open>r = Inr x\<close>]] w by simp
next
  fix w e w' assume w: "w_loc w = l" and run: "with_session m w = (Inl e, w')"
  obtain r w1 where m: "m (w\<lparr>w_loc := clear_session (w_loc w)\<rparr>) = (r, w1)" by (rule prod.exhaust)
  then have "r = Inl e" and "w_loc w' = clear_session (w_loc w1)" using run by (auto simp: with_session_def)
  then show "E e (w_loc w')" using safe_run(2) [OF assms _ m [unfolded \<open>r = Inl e\<close>]] w by simp
qed

lemma safe_in_session [safe_intro]:
  assumes "\<not> session_broken l \<Longrightarrow>
      safe m Q (\<lambda>e l'. if is_exception e then E e (l'\<lparr>session_broken := True\<rparr>) else E e l') l"
    and "E Invalid_request l"
  shows "safe (in_session m) Q E l"
  unfolding in_session_def
proof (intro safe_bind safe_get_local safe_if safe_raise safe_try_except)
  assume "\<not> session_broken l"
  then show "safe m Q (\<lambda>e l'. if is_exception e then safe (seq (modify_local (\<lambda>l. l\<lparr>session_broken := True\<rparr>)) (raise e)) Q E l' else E e l') l"
    by (rule safe_mono [OF assms(1)]) (auto intro!: safe_seq safe_modify_local safe_raise split: if_splits)
qed (rule assms(2))

lemma safe_refused_commit [safe_intro]: "(\<And>e'. e' \<in> insert e sql_exns \<Longrightarrow> E e' l) \<Longrightarrow> safe (refused_commit e) Q E l"
  unfolding refused_commit_def by (rule safe_effect) auto

lemma safe_inputs [safe_intro]:
  "(\<And>c. Q c l) \<Longrightarrow> safe settings_of Q E l"
  "(\<And>t. Q1 t l) \<Longrightarrow> safe time_time Q1 E l"
  "(\<And>t. Q1 t l) \<Longrightarrow> safe db_now Q1 E l"
  by (simp_all add: safe_def settings_of_def time_time_def db_now_def)

lemma safe_uuid4 [safe_intro]: "(\<And>u. Q u (l\<lparr>draws := Suc (draws l)\<rparr>)) \<Longrightarrow> safe uuid4 Q E l"
  by (simp add: safe_def uuid4_def next_draw_def bind_def)

lemma safe_token_urlsafe [safe_intro]: "(\<And>u. Q u (l\<lparr>draws := Suc (draws l)\<rparr>)) \<Longrightarrow> safe token_urlsafe Q E l"
  by (simp add: safe_def token_urlsafe_def next_draw_def bind_def)

lemma safe_random_draw [safe_intro]: "(\<And>u. Q u (l\<lparr>draws := Suc (draws l)\<rparr>)) \<Longrightarrow> safe random_draw Q E l"
  by (simp add: safe_def random_draw_def next_draw_def bind_def)

lemma safe_reply_input [safe_intro]: "(\<And>r. Q r (l\<lparr>draws := Suc (draws l)\<rparr>)) \<Longrightarrow> safe reply_input Q E l"
  by (simp add: safe_def reply_input_def next_draw_def bind_def)

lemma safe_http_post [safe_intro]:
  assumes "\<And>r. Q r (logged (Posted rq (fst r)) (l\<lparr>draws := Suc (draws l)\<rparr>))"
    and "\<And>e r. \<not> is_exception e \<Longrightarrow> E e (logged (Posted rq r) (l\<lparr>draws := Suc (draws l)\<rparr>))"
    and "\<And>e. \<not> is_exception e \<Longrightarrow> E e (l\<lparr>draws := Suc (draws l)\<rparr>)"
  shows "safe (http_post rq) Q E l"
proof -
  have "\<not> is_exception (http_exn e)" for e by (simp add: http_exn_def is_exception_def)
  then show ?thesis
    unfolding http_post_def
    by (intro safe_bind safe_reply_input safe_case_prod, intro safe_effect)
      (use assms in \<open>auto simp: log_action_def\<close>)
qed

section \<open>Invariants of the trace\<close>

text \<open>\<open>keeps J m\<close>: whatever happens, \<open>m\<close> preserves the property \<open>J\<close> of the trace and of the
  variables that outlive exceptions.\<close>

definition vars :: "local_state \<Rightarrow> string option \<times> rat \<times> rat" where
  "vars l = (slot_var l, delay_var l, next_var l)"

abbreviation on_trace :: "(action list \<Rightarrow> bool) \<Rightarrow> action list \<Rightarrow> string option \<times> rat \<times> rat \<Rightarrow> bool" where
  "on_trace P \<equiv> (\<lambda>tr v. P tr)"

definition keeps :: "(action list \<Rightarrow> string option \<times> rat \<times> rat \<Rightarrow> bool) \<Rightarrow> 'a proc \<Rightarrow> bool" where
  "keeps J m \<longleftrightarrow> (\<forall>w r w'. m w = (r, w') \<longrightarrow> J (trace (w_loc w)) (vars (w_loc w)) \<longrightarrow> J (trace (w_loc w')) (vars (w_loc w')))"

named_theorems keeps_intro "rules propagating a trace invariant through a program"

lemma keepsD: "keeps J m \<Longrightarrow> m w = (r, w') \<Longrightarrow> J (trace (w_loc w)) (vars (w_loc w)) \<Longrightarrow> J (trace (w_loc w')) (vars (w_loc w'))"
  by (simp add: keeps_def)

lemma keeps_safe: "keeps J m \<Longrightarrow> J (trace l) (vars l) \<Longrightarrow> safe m (\<lambda>_ l. J (trace l) (vars l)) (\<lambda>_ l. J (trace l) (vars l)) l"
  by (rule safeI) (auto dest: keepsD)

lemma trace_logged [simp]: "trace (logged a l) = a # trace l"
  by (simp add: logged_def)

lemma trace_clear_session [simp]: "trace (clear_session l) = trace l" "vars (clear_session l) = vars l"
  by (simp_all add: clear_session_def vars_def)

lemma vars_simps [simp]:
  "vars (logged a l) = vars l" "vars (l\<lparr>pending := ws\<rparr>) = vars l" "vars (l\<lparr>loaded_deliveries := ds\<rparr>) = vars l"
  "vars (l\<lparr>loaded_endpoints := es\<rparr>) = vars l" "vars (l\<lparr>metrics := ms\<rparr>) = vars l" "vars (l\<lparr>draws := n\<rparr>) = vars l"
  "vars (l\<lparr>session_broken := b\<rparr>) = vars l"
  by (simp_all add: vars_def logged_def)

lemma keeps_return [keeps_intro]: "keeps J (return x)"
  by (simp add: keeps_def return_def)

lemma keeps_raise [keeps_intro]: "keeps J (raise e)"
  by (simp add: keeps_def raise_def)

lemma keeps_bind [keeps_intro]: "keeps J m \<Longrightarrow> (\<And>x. keeps J (f x)) \<Longrightarrow> keeps J (bind m f)"
  unfolding keeps_def bind_def by (fastforce split: prod.splits sum.splits)

lemma keeps_seq [keeps_intro]: "keeps J m \<Longrightarrow> keeps J k \<Longrightarrow> keeps J (seq m k)"
  unfolding seq_def by (intro keeps_bind)

lemma keeps_only_if [keeps_intro]: "(b \<Longrightarrow> keeps J m) \<Longrightarrow> keeps J (only_if b m)"
  by (simp add: only_if_def keeps_return)

lemma keeps_if [keeps_intro]: "(b \<Longrightarrow> keeps J m) \<Longrightarrow> (\<not> b \<Longrightarrow> keeps J k) \<Longrightarrow> keeps J (if b then m else k)"
  by simp

lemma keeps_case_option [keeps_intro]:
  "keeps J m \<Longrightarrow> (\<And>y. x = Some y \<Longrightarrow> keeps J (k y)) \<Longrightarrow> keeps J (case x of None \<Rightarrow> m | Some y \<Rightarrow> k y)"
  by (cases x) simp_all

lemma keeps_case_prod [keeps_intro]: "(\<And>a b. keeps J (f a b)) \<Longrightarrow> keeps J (case p of (a, b) \<Rightarrow> f a b)"
  by (cases p) simp

lemma keeps_let [keeps_intro]: "keeps J (f x) \<Longrightarrow> keeps J (let y = x in f y)"
  by simp

lemma keeps_try_except [keeps_intro]: "keeps J m \<Longrightarrow> (\<And>e. keeps J (h e)) \<Longrightarrow> keeps J (try_except m h)"
  unfolding keeps_def try_except_def by (fastforce split: prod.splits sum.splits if_splits)

lemma keeps_try_finally [keeps_intro]: "keeps J m \<Longrightarrow> keeps J fin \<Longrightarrow> keeps J (try_finally m fin)"
  unfolding keeps_def try_finally_def by (fastforce split: prod.splits sum.splits if_splits)

lemma keeps_for_each [keeps_intro]: "(\<And>x. keeps J (f x)) \<Longrightarrow> keeps J (for_each xs f)"
  by (induction xs) (simp_all add: keeps_return keeps_seq)

lemma keeps_modify_local [keeps_intro]: "(\<And>l. trace (f l) = trace l) \<Longrightarrow> (\<And>l. vars (f l) = vars l) \<Longrightarrow> keeps J (modify_local f)"
  by (simp add: keeps_def modify_local_def)

lemma keeps_inputs [keeps_intro]:
  "keeps J settings_of" "keeps J time_time" "keeps J db_now" "keeps J uuid4" "keeps J random_draw"
  "keeps J reply_input" "keeps J (get_local g)" "keeps J (count_metric m)" "keeps J (add_pending ws)"
  by (simp_all add: keeps_def settings_of_def time_time_def db_now_def uuid4_def random_draw_def next_draw_def
      bind_def reply_input_def get_local_def count_metric_def add_pending_def modify_local_def)

lemma keeps_effect:
  assumes "\<And>w r w'. f w = (r, w') \<Longrightarrow> J (trace (w_loc w)) (vars (w_loc w)) \<Longrightarrow> J (trace (w_loc w')) (vars (w_loc w'))"
  shows "keeps J (effect co f)"
proof -
  have "J (trace (w_loc (snd (f w)))) (vars (w_loc (snd (f w))))" if "J (trace (w_loc w)) (vars (w_loc w))" for w
    using assms [OF prod.collapse [symmetric]] that by blast
  then show ?thesis
    unfolding keeps_def effect_def Let_def
    by (auto split: prod.splits fault.splits dest: assms)
qed

lemma keeps_redis [keeps_intro]: "(\<And>r tr v. J tr v \<Longrightarrow> J (act r # tr) v) \<Longrightarrow> keeps J (redis act f)"
  unfolding redis_def by (rule keeps_effect) (auto simp: log_action_def split: prod.splits)

lemma keeps_redis_unit [keeps_intro]: "(\<And>tr v. J tr v \<Longrightarrow> J (act # tr) v) \<Longrightarrow> keeps J (redis_unit act f)"
  unfolding redis_unit_def by (rule keeps_redis)

lemma keeps_query [keeps_intro]: "(\<And>r tr v. J tr v \<Longrightarrow> J (act r # tr) v) \<Longrightarrow> keeps J (query act q)"
  unfolding query_def by (rule keeps_effect) (auto simp: log_action_def split: sum.splits)

lemma keeps_query_rows [keeps_intro]: "(\<And>d tr v. J tr v \<Longrightarrow> J (Queried d # tr) v) \<Longrightarrow> keeps J (query_rows q)"
  unfolding query_rows_def by (intro keeps_bind keeps_query keeps_return) simp

lemma keeps_commit [keeps_intro]: "(\<And>ws d tr v. J tr v \<Longrightarrow> J (Committed ws d # tr) v) \<Longrightarrow> keeps J commit"
  unfolding commit_def by (rule keeps_effect) (auto simp: log_action_def split: sum.splits)

lemma keeps_rollback [keeps_intro]: "(\<And>tr v. J tr v \<Longrightarrow> J (Rolled_back # tr) v) \<Longrightarrow> keeps J rollback"
  unfolding rollback_def by (rule keeps_effect) (auto simp: log_action_def)

lemma keeps_http_post [keeps_intro]: "(\<And>r tr v. J tr v \<Longrightarrow> J (Posted rq r # tr) v) \<Longrightarrow> keeps J (http_post rq)"
  unfolding http_post_def
  by (intro keeps_intro, rule keeps_effect) (auto simp: log_action_def)

lemma keeps_in_session [keeps_intro]: "keeps J m \<Longrightarrow> keeps J (in_session m)"
  unfolding in_session_def by (intro keeps_intro; simp)

lemma keeps_refused_commit [keeps_intro]: "keeps J (refused_commit e)"
  unfolding refused_commit_def by (rule keeps_effect) auto

lemma keeps_with_session [keeps_intro]: "keeps J m \<Longrightarrow> keeps J (with_session m)"
  by (force simp: keeps_def with_session_def split: prod.splits)

end
