(* ===== verification/Delivery_Io.thy ===== *)
theory Delivery_Io
  imports Effects
begin

text \<open>
  The calls of the delivery modules as processes: each Redis command or script of
  \<open>relay/delivery/\<close> and each database access the worker and the API make, built from the
  functions on values of the component theories and the primitives of \<^theory_text>\<open>Effects\<close>.
\<close>

section \<open>Rows through the session\<close>

text \<open>The identity map: a row already loaded is answered with its object as it is in memory.\<close>

definition load_delivery :: "delivery \<Rightarrow> delivery proc" where
  "load_delivery row w =
     (case find_by d_id (d_id row) (loaded_deliveries (w_loc w)) of
        Some obj \<Rightarrow> (Inr obj, w)
      | None \<Rightarrow> (Inr row, w\<lparr>w_loc := (w_loc w)\<lparr>loaded_deliveries := row # loaded_deliveries (w_loc w)\<rparr>\<rparr>))"

definition load_endpoint :: "endpoint \<Rightarrow> endpoint proc" where
  "load_endpoint row w =
     (case find_by ep_id (ep_id row) (loaded_endpoints (w_loc w)) of
        Some obj \<Rightarrow> (Inr obj, w)
      | None \<Rightarrow> (Inr row, w\<lparr>w_loc := (w_loc w)\<lparr>loaded_endpoints := row # loaded_endpoints (w_loc w)\<rparr>\<rparr>))"

definition option_map_proc :: "('a \<Rightarrow> 'a proc) \<Rightarrow> 'a option \<Rightarrow> 'a option proc" where
  "option_map_proc f x = (case x of None \<Rightarrow> return None | Some y \<Rightarrow> bind (f y) (\<lambda>z. return (Some z)))"

definition select_delivery :: "uuid \<Rightarrow> delivery option proc" where
  "select_delivery i = bind (query (Select_delivery i) (the_delivery i)) (option_map_proc load_delivery)"

definition select_endpoint :: "uuid \<Rightarrow> endpoint option proc" where
  "select_endpoint i = bind (query (Select_endpoint i) (the_endpoint i)) (option_map_proc load_endpoint)"

definition select_event :: "uuid \<Rightarrow> event option proc" where
  "select_event i = query (Select_event i) (the_event i)"

text \<open>\<open>scalar_one\<close> raises when there is no row.\<close>

definition select_tenant_one :: "uuid \<Rightarrow> tenant proc" where
  "select_tenant_one i = bind (query (Select_tenant i) (the_tenant i))
     (\<lambda>r. case r of None \<Rightarrow> raise No_result | Some t \<Rightarrow> return t)"

text \<open>\<open>session.refresh(delivery)\<close> reads the row again into the object.\<close>

definition refresh_delivery :: "delivery \<Rightarrow> delivery proc" where
  "refresh_delivery d =
     bind (query (Select_delivery (d_id d)) (the_delivery (d_id d))) (\<lambda>r. case r of
       None \<Rightarrow> raise Invalid_request
     | Some row \<Rightarrow>
         seq (modify_local (\<lambda>l. l\<lparr>loaded_deliveries := update_by d_id (d_id d) (\<lambda>_. row) (loaded_deliveries l)\<rparr>))
           (return row))"

text \<open>
  Assigning attributes of an object: the object changes in memory, and the next flush
  updates the row's columns whose value changed (and \<open>updated_at\<close>, here with the time of the
  assignment; the database takes that of the transaction of the flush, and nothing reads it but
  the answers of the API).  The result is the changed object.
\<close>

definition assign_delivery :: "delivery \<Rightarrow> (delivery \<Rightarrow> delivery) \<Rightarrow> delivery proc" where
  "assign_delivery d f =
     (if f d = d then return d
      else bind db_now (\<lambda>t.
        seq (add_pending [Upd_delivery (d_id d) (\<lambda>r. (f r)\<lparr>d_updated_at := t\<rparr>)])
       (seq (modify_local (\<lambda>l. l\<lparr>loaded_deliveries := update_by d_id (d_id d) f (loaded_deliveries l)\<rparr>))
            (return (f d)))))"

definition assign_endpoint :: "endpoint \<Rightarrow> (endpoint \<Rightarrow> endpoint) \<Rightarrow> endpoint proc" where
  "assign_endpoint e f =
     (if f e = e then return e
      else seq (add_pending [Upd_endpoint (ep_id e) f])
          (seq (modify_local (\<lambda>l. l\<lparr>loaded_endpoints := update_by ep_id (ep_id e) f (loaded_endpoints l)\<rparr>))
               (return (f e))))"

section \<open>Streams\<close>

text \<open>The millisecond of the server's clock, for stream identifiers.\<close>

definition server_ms :: "shared \<Rightarrow> nat" where "server_ms s = nat \<lfloor>sh_now s * 1000\<rfloor>"

definition enqueue_delivery :: "uuid \<Rightarrow> uuid \<Rightarrow> uuid \<Rightarrow> unit proc" where
  "enqueue_delivery delivery_id event_id endpoint_id =
     bind settings_of (\<lambda>cfg. case shard_for cfg endpoint_id of
       None \<Rightarrow> raise Zero_division
     | Some shard \<Rightarrow>
         redis_unit (Xadd delivery_id event_id endpoint_id)
           (\<lambda>s. s\<lparr>sh_streams := add_to (stream_key shard) (server_ms s)
                    (delivery_fields delivery_id event_id endpoint_id) (sh_streams s)\<rparr>))"

section \<open>The retry queue\<close>

definition schedule_retry :: "uuid \<Rightarrow> uuid \<Rightarrow> uuid \<Rightarrow> rat \<Rightarrow> rat option \<Rightarrow> rat proc" where
  "schedule_retry delivery_id event_id endpoint_id delay_seconds now =
     bind (case now of None \<Rightarrow> time_time | Some t \<Rightarrow> return t) (\<lambda>t.
     let due_at = t + delay_seconds in
     bind settings_of (\<lambda>cfg. case encode_member cfg delivery_id event_id endpoint_id of
       None \<Rightarrow> raise Zero_division
     | Some m \<Rightarrow>
         seq (redis_unit (Zadd_retry delivery_id event_id endpoint_id due_at)
                (\<lambda>s. s\<lparr>sh_retries := zadd m due_at (sh_retries s)\<rparr>))
             (return due_at)))"

definition move_due_to_streams :: "int \<Rightarrow> rat option \<Rightarrow> nat proc" where
  "move_due_to_streams limit now =
     bind (case now of None \<Rightarrow> time_time | Some t \<Rightarrow> return t) (\<lambda>t.
     bind (redis Moved_due (\<lambda>s. case MOVE_DUE_LUA t limit (server_ms s) (sh_retries s) (sh_streams s) of
            (r, z, strs) \<Rightarrow> (r, s\<lparr>sh_retries := z, sh_streams := strs\<rparr>)))
       (\<lambda>r. case r of None \<Rightarrow> raise Redis_error | Some n \<Rightarrow> return n))"

definition retry_queue_depth :: "int proc" where
  "retry_queue_depth = redis (\<lambda>_. Redis_read) (\<lambda>s. (int (length (sh_retries s)), s))"

definition remove_from_retry_queue :: "uuid \<Rightarrow> uuid \<Rightarrow> uuid \<Rightarrow> bool proc" where
  "remove_from_retry_queue delivery_id event_id endpoint_id =
     bind settings_of (\<lambda>cfg. case encode_member cfg delivery_id event_id endpoint_id of
       None \<Rightarrow> raise Zero_division
     | Some m \<Rightarrow>
         redis (Zrem_retry delivery_id event_id endpoint_id)
           (\<lambda>s. (zscore (sh_retries s) m \<noteq> None, s\<lparr>sh_retries := zrem m (sh_retries s)\<rparr>)))"

section \<open>Ordering\<close>

definition enqueue_ordered :: "uuid \<Rightarrow> uuid \<Rightarrow> unit proc" where
  "enqueue_ordered endpoint_id delivery_id =
     redis_unit (Rpush endpoint_id delivery_id)
       (\<lambda>s. s\<lparr>sh_queues := (sh_queues s)(endpoint_id := enqueue_ordered_list delivery_id (sh_queues s endpoint_id))\<rparr>)"

definition acquire_lock :: "uuid \<Rightarrow> string option proc" where
  "acquire_lock endpoint_id =
     bind uuid4 (\<lambda>u. let token = uuid_hex u in
     bind (redis (Lock_try endpoint_id token)
            (\<lambda>s. case acquire_lock_key token (sh_now s) (sh_locks s endpoint_id) of (acquired, key) \<Rightarrow>
               (acquired, s\<lparr>sh_locks := (sh_locks s)(endpoint_id := key)\<rparr>)))
       (\<lambda>acquired. return (if acquired then Some token else None)))"

definition release_lock :: "uuid \<Rightarrow> string \<Rightarrow> unit proc" where
  "release_lock endpoint_id token =
     redis_unit (Lock_release endpoint_id token)
       (\<lambda>s. s\<lparr>sh_locks := (sh_locks s)(endpoint_id := release_lock_key token (sh_now s) (sh_locks s endpoint_id))\<rparr>)"

text \<open>\<open>Peek\<close> records what the caller gets; text that is no identifier raises.\<close>

definition peek_head :: "uuid \<Rightarrow> uuid option proc" where
  "peek_head endpoint_id =
     bind (redis (\<lambda>r. Peek endpoint_id (case r of None \<Rightarrow> None | Some h \<Rightarrow> h))
            (\<lambda>s. (peek_head_list (sh_queues s endpoint_id), s)))
       (\<lambda>r. case r of None \<Rightarrow> raise Value_error | Some head \<Rightarrow> return head)"

definition pop_head :: "uuid \<Rightarrow> uuid \<Rightarrow> bool proc" where
  "pop_head endpoint_id delivery_id =
     redis (Popped endpoint_id delivery_id)
       (\<lambda>s. case pop_head_list delivery_id (sh_queues s endpoint_id) of (removed, q) \<Rightarrow>
          (removed, s\<lparr>sh_queues := (sh_queues s)(endpoint_id := q)\<rparr>))"

definition queue_depth :: "uuid \<Rightarrow> int proc" where
  "queue_depth endpoint_id = redis (\<lambda>_. Redis_read) (\<lambda>s. (queue_depth_list (sh_queues s endpoint_id), s))"

section \<open>Rate limits\<close>

definition take_token :: "uuid \<Rightarrow> int \<Rightarrow> rat \<Rightarrow> bool proc" where
  "take_token tenant_id rate_per_sec now =
     redis (Token_try tenant_id)
       (\<lambda>s. case take_token_key rate_per_sec now (sh_now s) (sh_buckets s tenant_id) of (granted, key) \<Rightarrow>
          (granted, s\<lparr>sh_buckets := (sh_buckets s)(tenant_id := key)\<rparr>))"

definition acquire_slot :: "uuid \<Rightarrow> int \<Rightarrow> rat \<Rightarrow> string option proc" where
  "acquire_slot tenant_id max_inflight now =
     bind uuid4 (\<lambda>u. let token = uuid_hex u in
     bind (redis (Slot_try tenant_id token)
            (\<lambda>s. case acquire_slot_key max_inflight now token (sh_now s) (sh_inflight s tenant_id) of (granted, key) \<Rightarrow>
               (granted, s\<lparr>sh_inflight := (sh_inflight s)(tenant_id := key)\<rparr>)))
       (\<lambda>granted. return (if granted then Some token else None)))"

definition release_slot :: "uuid \<Rightarrow> string \<Rightarrow> unit proc" where
  "release_slot tenant_id token =
     redis_unit (Slot_release tenant_id token)
       (\<lambda>s. s\<lparr>sh_inflight := (sh_inflight s)(tenant_id := release_slot_key token (sh_now s) (sh_inflight s tenant_id))\<rparr>)"

text \<open>Two commands, not one script.\<close>

definition inflight_count :: "uuid \<Rightarrow> rat \<Rightarrow> int proc" where
  "inflight_count tenant_id now =
     seq (redis_unit Redis_read
           (\<lambda>s. s\<lparr>sh_inflight := (sh_inflight s)(tenant_id := zkey_map (sh_now s) (zrem_upto now) (sh_inflight s tenant_id))\<rparr>))
         (redis (\<lambda>_. Redis_read) (\<lambda>s. (int (length (zkey_get (sh_now s) (sh_inflight s tenant_id))), s)))"

section \<open>The breaker\<close>

definition record_outcome :: "uuid \<Rightarrow> bool \<Rightarrow> rat \<Rightarrow> outcome_result proc" where
  "record_outcome endpoint_id success now =
     bind uuid4 (\<lambda>u.
     bind (redis (\<lambda>_. Recorded endpoint_id success)
            (\<lambda>s. case record_outcome_keys endpoint_id success now (uuid_hex u) (sh_now s) (sh_breakers s endpoint_id) of
               (result, evs, k) \<Rightarrow>
                 (result, s\<lparr>sh_breakers := (sh_breakers s)(endpoint_id := k), sh_published := evs @ sh_published s\<rparr>)))
       (\<lambda>result. case crossing_event endpoint_id success result now of
           None \<Rightarrow> return result
         | Some ev \<Rightarrow> seq (redis_unit (Published ev) (\<lambda>s. s\<lparr>sh_published := ev # sh_published s\<rparr>)) (return result)))"

definition allow_request :: "uuid \<Rightarrow> rat \<Rightarrow> (gate_decision \<times> breaker_state) proc" where
  "allow_request endpoint_id now =
     redis (\<lambda>r. Gate endpoint_id (fst r))
       (\<lambda>s. case allow_request_hash now (br_hash (sh_breakers s endpoint_id)) of (r, h) \<Rightarrow>
          (r, s\<lparr>sh_breakers := (sh_breakers s)(endpoint_id := (sh_breakers s endpoint_id)\<lparr>br_hash := h\<rparr>)\<rparr>))"

definition get_breaker_state :: "uuid \<Rightarrow> breaker_view proc" where
  "get_breaker_state endpoint_id =
     redis (\<lambda>_. Breaker_read endpoint_id) (\<lambda>s. (get_state_hash (br_hash (sh_breakers s endpoint_id)), s))"

definition reset_breaker :: "uuid \<Rightarrow> unit proc" where
  "reset_breaker endpoint_id =
     redis_unit (Breaker_reset endpoint_id)
       (\<lambda>s. s\<lparr>sh_breakers := (sh_breakers s)(endpoint_id := reset_keys (sh_breakers s endpoint_id))\<rparr>)"

definition should_auto_disable :: "uuid \<Rightarrow> rat \<Rightarrow> bool proc" where
  "should_auto_disable endpoint_id now =
     redis (\<lambda>_. Breaker_read endpoint_id)
       (\<lambda>s. (should_auto_disable_hash now (br_hash (sh_breakers s endpoint_id)), s))"

section \<open>Sending\<close>

definition send_delivery :: "string \<Rightarrow> string \<Rightarrow> uuid \<Rightarrow> uuid \<Rightarrow> json \<Rightarrow> attempt_result proc" where
  "send_delivery url secret delivery_id event_id payload =
     bind time_time (\<lambda>now.
     bind (http_post (delivery_request url secret delivery_id event_id payload now)) (\<lambda>(reply, elapsed).
     return (attempt_result_of elapsed reply)))"

section \<open>What they do to the local state\<close>

lemma logged_fields [simp]:
  "pending (logged a l) = pending l" "loaded_deliveries (logged a l) = loaded_deliveries l"
  "loaded_endpoints (logged a l) = loaded_endpoints l" "draws (logged a l) = draws l"
  "slot_var (logged a l) = slot_var l" "delay_var (logged a l) = delay_var l" "next_var (logged a l) = next_var l"
  by (simp_all add: logged_def)

lemma safe_load_endpoint [safe_intro]:
  assumes "\<And>obj. ep_id obj = ep_id row \<Longrightarrow> Q obj l"
    and "find_by ep_id (ep_id row) (loaded_endpoints l) = None \<Longrightarrow> Q row (l\<lparr>loaded_endpoints := row # loaded_endpoints l\<rparr>)"
  shows "safe (load_endpoint row) Q E l"
  using assms find_by_key by (fastforce simp: safe_def load_endpoint_def split: option.splits)

lemma safe_select_delivery [safe_intro]:
  assumes "Q None (logged (Select_delivery i None) l)"
    and "\<And>row obj. find_by d_id i (loaded_deliveries l) = Some obj \<Longrightarrow> d_id row = i \<Longrightarrow> d_id obj = i
      \<Longrightarrow> Q (Some obj) (logged (Select_delivery i (Some row)) l)"
    and "\<And>row. find_by d_id i (loaded_deliveries l) = None \<Longrightarrow> d_id row = i
      \<Longrightarrow> Q (Some row) (logged (Select_delivery i (Some row)) l\<lparr>loaded_deliveries := row # loaded_deliveries l\<rparr>)"
    and "\<And>e r. e \<in> flush_exns \<Longrightarrow> E e (logged (Select_delivery i r) l)" and "\<And>e. e \<in> flush_exns \<Longrightarrow> E e l"
  shows "safe (select_delivery i) Q E l"
  unfolding select_delivery_def
proof (intro safe_bind safe_query)
  fix db
  let ?r = "the_delivery i db"
  show "safe (option_map_proc load_delivery ?r) Q E (logged (Select_delivery i ?r) l)"
  proof (cases ?r)
    case None
    then show ?thesis using assms(1) by (simp add: option_map_proc_def safe_return)
  next
    case (Some row)
    then have row: "d_id row = i" by (rule find_by_key)
    show ?thesis
    proof (cases "find_by d_id i (loaded_deliveries l)")
      case None
      then show ?thesis
        using assms(3) [OF None row] Some row
        by (simp add: option_map_proc_def safe_def bind_def load_delivery_def return_def)
    next
      case (Some obj)
      then show ?thesis
        using assms(2) [OF Some row find_by_key [OF Some]] \<open>?r = Some row\<close> row
        by (simp add: option_map_proc_def safe_def bind_def load_delivery_def return_def)
    qed
  qed
qed (use assms(4,5) in auto)

lemma safe_select_endpoint [safe_intro]:
  assumes "Q None (logged (Select_endpoint i None) l)"
    and "\<And>row obj. find_by ep_id i (loaded_endpoints l) = Some obj \<Longrightarrow> ep_id row = i \<Longrightarrow> ep_id obj = i
      \<Longrightarrow> Q (Some obj) (logged (Select_endpoint i (Some row)) l)"
    and "\<And>row. find_by ep_id i (loaded_endpoints l) = None \<Longrightarrow> ep_id row = i
      \<Longrightarrow> Q (Some row) (logged (Select_endpoint i (Some row)) l\<lparr>loaded_endpoints := row # loaded_endpoints l\<rparr>)"
    and "\<And>e r. e \<in> flush_exns \<Longrightarrow> E e (logged (Select_endpoint i r) l)" and "\<And>e. e \<in> flush_exns \<Longrightarrow> E e l"
  shows "safe (select_endpoint i) Q E l"
  unfolding select_endpoint_def
proof (intro safe_bind safe_query)
  fix db
  let ?r = "the_endpoint i db"
  show "safe (option_map_proc load_endpoint ?r) Q E (logged (Select_endpoint i ?r) l)"
  proof (cases ?r)
    case None
    then show ?thesis using assms(1) by (simp add: option_map_proc_def safe_return)
  next
    case (Some row)
    then have row: "ep_id row = i" by (rule find_by_key)
    show ?thesis
    proof (cases "find_by ep_id i (loaded_endpoints l)")
      case None
      then show ?thesis
        using assms(3) [OF None row] Some row
        by (simp add: option_map_proc_def safe_def bind_def load_endpoint_def return_def)
    next
      case (Some obj)
      then show ?thesis
        using assms(2) [OF Some row find_by_key [OF Some]] \<open>?r = Some row\<close> row
        by (simp add: option_map_proc_def safe_def bind_def load_endpoint_def return_def)
    qed
  qed
qed (use assms(4,5) in auto)

lemma safe_select_event [safe_intro]:
  assumes "Q None (logged (Select_event i None) l)"
    and "\<And>row. ev_id row = i \<Longrightarrow> Q (Some row) (logged (Select_event i (Some row)) l)"
    and "\<And>e r. e \<in> flush_exns \<Longrightarrow> E e (logged (Select_event i r) l)" and "\<And>e. e \<in> flush_exns \<Longrightarrow> E e l"
  shows "safe (select_event i) Q E l"
  unfolding select_event_def
proof (rule safe_query)
  show "Q (the_event i db) (logged (Select_event i (the_event i db)) l)" for db
    using assms(1,2) find_by_key [of ev_id i "events db"] by (cases "the_event i db") simp_all
qed (use assms(3,4) in auto)

lemma safe_select_tenant_one [safe_intro]:
  assumes "\<And>row. t_id row = i \<Longrightarrow> Q row (logged (Select_tenant i (Some row)) l)"
    and "\<And>e r. e \<in> insert No_result flush_exns \<Longrightarrow> E e (logged (Select_tenant i r) l)"
    and "\<And>e. e \<in> flush_exns \<Longrightarrow> E e l"
  shows "safe (select_tenant_one i) Q E l"
  unfolding select_tenant_one_def
proof (intro safe_bind safe_query)
  fix db
  show "safe (case the_tenant i db of None \<Rightarrow> raise No_result | Some t \<Rightarrow> return t) Q E
      (logged (Select_tenant i (the_tenant i db)) l)"
    using assms(1,2) find_by_key [of t_id i "tenants db"]
    by (cases "the_tenant i db") (simp_all add: safe_raise safe_return)
qed (use assms(2,3) in auto)

lemma safe_refresh_delivery [safe_intro]:
  assumes "\<And>row. d_id row = d_id d \<Longrightarrow> Q row (logged (Select_delivery (d_id d) (Some row))
      l\<lparr>loaded_deliveries := update_by d_id (d_id d) (\<lambda>_. row) (loaded_deliveries l)\<rparr>)"
    and "\<And>e r. e \<in> insert Invalid_request flush_exns \<Longrightarrow> E e (logged (Select_delivery (d_id d) r) l)"
    and "\<And>e. e \<in> flush_exns \<Longrightarrow> E e l"
  shows "safe (refresh_delivery d) Q E l"
  unfolding refresh_delivery_def
proof (intro safe_bind safe_query)
  fix db
  let ?r = "the_delivery (d_id d) db"
  show "safe (case ?r of None \<Rightarrow> raise Invalid_request | Some row \<Rightarrow>
      seq (modify_local (\<lambda>l. l\<lparr>loaded_deliveries := update_by d_id (d_id d) (\<lambda>_. row) (loaded_deliveries l)\<rparr>))
        (return row)) Q E (logged (Select_delivery (d_id d) ?r) l)"
  proof (cases ?r)
    case None
    then show ?thesis using assms(2) by (simp add: safe_raise)
  next
    case (Some row)
    have "d_id row = d_id d" by (rule find_by_key [OF Some])
    then show ?thesis
      using assms(1) [of row] Some by (simp add: safe_return safe_seq safe_modify_local)
  qed
qed (use assms(2,3) in auto)

text \<open>An assignment: nothing happens when no value changes.\<close>

definition assigned :: "delivery \<Rightarrow> (delivery \<Rightarrow> delivery) \<Rightarrow> rat \<Rightarrow> local_state \<Rightarrow> local_state" where
  "assigned d f t l = l\<lparr>pending := pending l @ [Upd_delivery (d_id d) (\<lambda>r. (f r)\<lparr>d_updated_at := t\<rparr>)],
     loaded_deliveries := update_by d_id (d_id d) f (loaded_deliveries l)\<rparr>"

lemma safe_assign_delivery [safe_intro]:
  assumes "f d = d \<Longrightarrow> Q d l" and "\<And>t. f d \<noteq> d \<Longrightarrow> Q (f d) (assigned d f t l)"
  shows "safe (assign_delivery d f) Q E l"
  unfolding assign_delivery_def
  by (intro safe_intro) (use assms in \<open>simp_all add: assigned_def\<close>)

lemma safe_assign_endpoint [safe_intro]:
  assumes "f e = e \<Longrightarrow> Q e l"
    and "f e \<noteq> e \<Longrightarrow> Q (f e) (l\<lparr>pending := pending l @ [Upd_endpoint (ep_id e) f],
      loaded_endpoints := update_by ep_id (ep_id e) f (loaded_endpoints l)\<rparr>)"
  shows "safe (assign_endpoint e f) Q E l"
  unfolding assign_endpoint_def by (intro safe_intro) (use assms in simp_all)

text \<open>The exceptions of calls that first compute a shard.\<close>

definition keyed_exns :: "exn set" where "keyed_exns = insert Zero_division redis_exns"

lemma safe_enqueue_delivery [safe_intro]:
  assumes "Q () (logged (Xadd d e p) l)" and "\<And>x. x \<in> keyed_exns \<Longrightarrow> E x (logged (Xadd d e p) l)"
    and "\<And>x. x \<in> keyed_exns \<Longrightarrow> E x l"
  shows "safe (enqueue_delivery d e p) Q E l"
  unfolding enqueue_delivery_def by (intro safe_intro) (use assms in \<open>simp_all add: keyed_exns_def\<close>)

lemma safe_schedule_retry [safe_intro]:
  assumes "\<And>due. Q due (logged (Zadd_retry d e p due) l)"
    and "\<And>x due. x \<in> keyed_exns \<Longrightarrow> E x (logged (Zadd_retry d e p due) l)" and "\<And>x. x \<in> keyed_exns \<Longrightarrow> E x l"
  shows "safe (schedule_retry d e p delay now) Q E l"
  unfolding schedule_retry_def Let_def by (intro safe_intro) (use assms in \<open>simp_all add: keyed_exns_def\<close>)

lemma safe_remove_from_retry_queue [safe_intro]:
  assumes "\<And>b. Q b (logged (Zrem_retry d e p b) l)"
    and "\<And>x b. x \<in> keyed_exns \<Longrightarrow> E x (logged (Zrem_retry d e p b) l)" and "\<And>x. x \<in> keyed_exns \<Longrightarrow> E x l"
  shows "safe (remove_from_retry_queue d e p) Q E l"
  unfolding remove_from_retry_queue_def by (intro safe_intro) (use assms in \<open>simp_all add: keyed_exns_def\<close>)

text \<open>A token that is returned was granted; one that is not was drawn and refused.\<close>

lemma safe_acquire_lock [safe_intro]:
  assumes "\<And>tok. Q (Some tok) (logged (Lock_try p tok True) (l\<lparr>draws := Suc (draws l)\<rparr>))"
    and "\<And>tok. Q None (logged (Lock_try p tok False) (l\<lparr>draws := Suc (draws l)\<rparr>))"
    and "\<And>x tok b. x \<in> redis_exns \<Longrightarrow> E x (logged (Lock_try p tok b) (l\<lparr>draws := Suc (draws l)\<rparr>))"
    and "\<And>x. x \<in> redis_exns \<Longrightarrow> E x (l\<lparr>draws := Suc (draws l)\<rparr>)"
  shows "safe (acquire_lock p) Q E l"
  unfolding acquire_lock_def Let_def
proof (intro safe_intro)
  fix u s
  let ?b = "fst (case acquire_lock_key (uuid_hex u) (sh_now s) (sh_locks s p) of (acquired, key) \<Rightarrow>
      (acquired, s\<lparr>sh_locks := (sh_locks s)(p := key)\<rparr>))"
  show "Q (if ?b then Some (uuid_hex u) else None) (logged (Lock_try p (uuid_hex u) ?b) (l\<lparr>draws := Suc (draws l)\<rparr>))"
    using assms(1,2) [of "uuid_hex u"] by simp
qed (use assms(3,4) in simp_all)

lemma safe_acquire_slot [safe_intro]:
  assumes "\<And>tok. Q (Some tok) (logged (Slot_try p tok True) (l\<lparr>draws := Suc (draws l)\<rparr>))"
    and "\<And>tok. Q None (logged (Slot_try p tok False) (l\<lparr>draws := Suc (draws l)\<rparr>))"
    and "\<And>x tok b. x \<in> redis_exns \<Longrightarrow> E x (logged (Slot_try p tok b) (l\<lparr>draws := Suc (draws l)\<rparr>))"
    and "\<And>x. x \<in> redis_exns \<Longrightarrow> E x (l\<lparr>draws := Suc (draws l)\<rparr>)"
  shows "safe (acquire_slot p cap now) Q E l"
  unfolding acquire_slot_def Let_def
proof (intro safe_intro)
  fix u s
  let ?b = "fst (case acquire_slot_key cap now (uuid_hex u) (sh_now s) (sh_inflight s p) of (granted, key) \<Rightarrow>
      (granted, s\<lparr>sh_inflight := (sh_inflight s)(p := key)\<rparr>))"
  show "Q (if ?b then Some (uuid_hex u) else None) (logged (Slot_try p (uuid_hex u) ?b) (l\<lparr>draws := Suc (draws l)\<rparr>))"
    using assms(1,2) [of "uuid_hex u"] by simp
qed (use assms(3,4) in simp_all)

lemma safe_peek_head [safe_intro]:
  assumes "\<And>h. Q h (logged (Peek p h) l)"
    and "\<And>x h. x \<in> insert Value_error redis_exns \<Longrightarrow> E x (logged (Peek p h) l)" and "\<And>x. x \<in> redis_exns \<Longrightarrow> E x l"
  shows "safe (peek_head p) Q E l"
  unfolding peek_head_def
proof (intro safe_bind safe_redis)
  fix s
  show "safe (case fst (peek_head_list (sh_queues s p), s) of None \<Rightarrow> raise Value_error | Some head \<Rightarrow> return head) Q E
      (logged (Peek p (case fst (peek_head_list (sh_queues s p), s) of None \<Rightarrow> None | Some h \<Rightarrow> h)) l)"
    using assms(1,2) by (cases "peek_head_list (sh_queues s p)") (simp_all add: safe_raise safe_return)
qed (use assms(2,3) in auto)

lemma safe_record_outcome [safe_intro]:
  assumes "\<And>r. Q r (logged (Recorded p success) (l\<lparr>draws := Suc (draws l)\<rparr>))"
    and "\<And>r ev. Q r (logged (Published ev) (logged (Recorded p success) (l\<lparr>draws := Suc (draws l)\<rparr>)))"
    and "\<And>x ev. x \<in> redis_exns \<Longrightarrow> E x (logged (Published ev) (logged (Recorded p success) (l\<lparr>draws := Suc (draws l)\<rparr>)))"
    and "\<And>x. x \<in> redis_exns \<Longrightarrow> E x (logged (Recorded p success) (l\<lparr>draws := Suc (draws l)\<rparr>))"
    and "\<And>x. x \<in> redis_exns \<Longrightarrow> E x (l\<lparr>draws := Suc (draws l)\<rparr>)"
  shows "safe (record_outcome p success now) Q E l"
  unfolding record_outcome_def by (intro safe_intro) (use assms in simp_all)

lemma safe_gate_calls [safe_intro]:
  "(\<And>decision state. Q1 (decision, state) (logged (Gate p decision) l)) \<Longrightarrow> (\<And>x decision. x \<in> redis_exns \<Longrightarrow> E x (logged (Gate p decision) l))
    \<Longrightarrow> (\<And>x. x \<in> redis_exns \<Longrightarrow> E x l) \<Longrightarrow> safe (allow_request p now) Q1 E l"
  "(\<And>b. Q2 b (logged (Breaker_read p) l)) \<Longrightarrow> (\<And>x. x \<in> redis_exns \<Longrightarrow> E x (logged (Breaker_read p) l))
    \<Longrightarrow> (\<And>x. x \<in> redis_exns \<Longrightarrow> E x l) \<Longrightarrow> safe (should_auto_disable p now) Q2 E l"
  "(\<And>b. Q2 b (logged (Token_try t b) l)) \<Longrightarrow> (\<And>x b. x \<in> redis_exns \<Longrightarrow> E x (logged (Token_try t b) l))
    \<Longrightarrow> (\<And>x. x \<in> redis_exns \<Longrightarrow> E x l) \<Longrightarrow> safe (take_token t rate now) Q2 E l"
  unfolding allow_request_def should_auto_disable_def take_token_def
  by (intro safe_redis; simp split: prod.splits; metis prod.collapse fst_conv)+

lemma safe_commands [safe_intro]:
  "Q0 () (logged (Lock_release p tok) l) \<Longrightarrow> (\<And>x. x \<in> redis_exns \<Longrightarrow> E x (logged (Lock_release p tok) l))
    \<Longrightarrow> (\<And>x. x \<in> redis_exns \<Longrightarrow> E x l) \<Longrightarrow> safe (release_lock p tok) Q0 E l"
  "Q0 () (logged (Slot_release p tok) l) \<Longrightarrow> (\<And>x. x \<in> redis_exns \<Longrightarrow> E x (logged (Slot_release p tok) l))
    \<Longrightarrow> (\<And>x. x \<in> redis_exns \<Longrightarrow> E x l) \<Longrightarrow> safe (release_slot p tok) Q0 E l"
  "(\<And>b. Q1 b (logged (Popped p d b) l)) \<Longrightarrow> (\<And>x b. x \<in> redis_exns \<Longrightarrow> E x (logged (Popped p d b) l))
    \<Longrightarrow> (\<And>x. x \<in> redis_exns \<Longrightarrow> E x l) \<Longrightarrow> safe (pop_head p d) Q1 E l"
  "Q0 () (logged (Rpush p d) l) \<Longrightarrow> (\<And>x. x \<in> redis_exns \<Longrightarrow> E x (logged (Rpush p d) l))
    \<Longrightarrow> (\<And>x. x \<in> redis_exns \<Longrightarrow> E x l) \<Longrightarrow> safe (enqueue_ordered p d) Q0 E l"
  "Q0 () (logged (Breaker_reset p) l) \<Longrightarrow> (\<And>x. x \<in> redis_exns \<Longrightarrow> E x (logged (Breaker_reset p) l))
    \<Longrightarrow> (\<And>x. x \<in> redis_exns \<Longrightarrow> E x l) \<Longrightarrow> safe (reset_breaker p) Q0 E l"
  "(\<And>v. Q2 v (logged (Breaker_read p) l)) \<Longrightarrow> (\<And>x. x \<in> redis_exns \<Longrightarrow> E x (logged (Breaker_read p) l))
    \<Longrightarrow> (\<And>x. x \<in> redis_exns \<Longrightarrow> E x l) \<Longrightarrow> safe (get_breaker_state p) Q2 E l"
  unfolding release_lock_def release_slot_def pop_head_def enqueue_ordered_def reset_breaker_def get_breaker_state_def
  by (intro safe_redis safe_redis_unit; simp)+

section \<open>What they add to the trace\<close>

lemma keeps_loads [keeps_intro]: "keeps J (load_delivery row)" "keeps J (load_endpoint row2)"
  by (auto simp: keeps_def load_delivery_def load_endpoint_def split: option.splits)

lemma keeps_selects [keeps_intro]:
  "(\<And>r tr v. J tr v \<Longrightarrow> J (Select_delivery i r # tr) v) \<Longrightarrow> keeps J (select_delivery i)"
  "(\<And>r tr v. J tr v \<Longrightarrow> J (Select_endpoint i r # tr) v) \<Longrightarrow> keeps J (select_endpoint i)"
  "(\<And>r tr v. J tr v \<Longrightarrow> J (Select_event i r # tr) v) \<Longrightarrow> keeps J (select_event i)"
  "(\<And>r tr v. J tr v \<Longrightarrow> J (Select_tenant i r # tr) v) \<Longrightarrow> keeps J (select_tenant_one i)"
  "(\<And>r tr v. J tr v \<Longrightarrow> J (Select_delivery (d_id d) r # tr) v) \<Longrightarrow> keeps J (refresh_delivery d)"
  unfolding select_delivery_def select_endpoint_def select_event_def select_tenant_one_def refresh_delivery_def
    option_map_proc_def
  by (intro keeps_intro; simp)+

lemma keeps_assign [keeps_intro]: "keeps J (assign_delivery d f)" "keeps J (assign_endpoint e g)"
  unfolding assign_delivery_def assign_endpoint_def by (intro keeps_intro; simp)+

lemma keeps_retry [keeps_intro]:
  "(\<And>due tr v. J tr v \<Longrightarrow> J (Zadd_retry d e p due # tr) v) \<Longrightarrow> keeps J (schedule_retry d e p delay now)"
  "(\<And>b tr v. J tr v \<Longrightarrow> J (Zrem_retry d e p b # tr) v) \<Longrightarrow> keeps J (remove_from_retry_queue d e p)"
  "(\<And>tr v. J tr v \<Longrightarrow> J (Xadd d e p # tr) v) \<Longrightarrow> keeps J (enqueue_delivery d e p)"
  unfolding schedule_retry_def remove_from_retry_queue_def enqueue_delivery_def Let_def
  by (intro keeps_intro; simp)+

lemma keeps_locks [keeps_intro]:
  "(\<And>tok b tr v. J tr v \<Longrightarrow> J (Lock_try p tok b # tr) v) \<Longrightarrow> keeps J (acquire_lock p)"
  "(\<And>tr v. J tr v \<Longrightarrow> J (Lock_release p tok # tr) v) \<Longrightarrow> keeps J (release_lock p tok)"
  "(\<And>h tr v. J tr v \<Longrightarrow> J (Peek p h # tr) v) \<Longrightarrow> keeps J (peek_head p)"
  "(\<And>b tr v. J tr v \<Longrightarrow> J (Popped p d b # tr) v) \<Longrightarrow> keeps J (pop_head p d)"
  "(\<And>tr v. J tr v \<Longrightarrow> J (Rpush p d # tr) v) \<Longrightarrow> keeps J (enqueue_ordered p d)"
  unfolding acquire_lock_def release_lock_def peek_head_def pop_head_def enqueue_ordered_def Let_def
  by (intro keeps_intro; simp)+

lemma keeps_limits [keeps_intro]:
  "(\<And>b tr v. J tr v \<Longrightarrow> J (Token_try t b # tr) v) \<Longrightarrow> keeps J (take_token t rate now)"
  "(\<And>tok b tr v. J tr v \<Longrightarrow> J (Slot_try t tok b # tr) v) \<Longrightarrow> keeps J (acquire_slot t cap now)"
  "(\<And>tr v. J tr v \<Longrightarrow> J (Slot_release t tok # tr) v) \<Longrightarrow> keeps J (release_slot t tok)"
  unfolding take_token_def acquire_slot_def release_slot_def Let_def by (intro keeps_intro; simp)+

lemma keeps_breaker [keeps_intro]:
  "(\<And>tr v. J tr v \<Longrightarrow> J (Recorded p success # tr) v) \<Longrightarrow> (\<And>ev tr v. J tr v \<Longrightarrow> J (Published ev # tr) v)
    \<Longrightarrow> keeps J (record_outcome p success now)"
  "(\<And>d tr v. J tr v \<Longrightarrow> J (Gate p d # tr) v) \<Longrightarrow> keeps J (allow_request p now)"
  "(\<And>tr v. J tr v \<Longrightarrow> J (Breaker_read p # tr) v) \<Longrightarrow> keeps J (should_auto_disable p now)"
  "(\<And>tr v. J tr v \<Longrightarrow> J (Breaker_read p # tr) v) \<Longrightarrow> keeps J (get_breaker_state p)"
  "(\<And>tr v. J tr v \<Longrightarrow> J (Breaker_reset p # tr) v) \<Longrightarrow> keeps J (reset_breaker p)"
  unfolding record_outcome_def allow_request_def should_auto_disable_def get_breaker_state_def reset_breaker_def
  by (intro keeps_intro; simp)+

lemma keeps_send [keeps_intro]:
  "(\<And>rq r tr v. J tr v \<Longrightarrow> J (Posted rq r # tr) v) \<Longrightarrow> keeps J (send_delivery url secret d e payload)"
  unfolding send_delivery_def by (intro keeps_intro; simp)

end
