(* ===== verification/Worker.thy ===== *)
theory Worker
  imports Delivery_Io Retry
begin

text \<open>
  The delivery worker (\<open>relay/delivery/worker.py\<close>): one attempt, the gates in front of it, the
  handling of a stream entry, reclaiming, and the shard loops.  Structured logging is left
  out; the two Prometheus calls are kept as metrics.
\<close>

section \<open>Constants\<close>

definition CONSUMER_GROUP :: string where "CONSUMER_GROUP = ''workers''"
definition RECONNECT_BASE_DELAY_S :: rat where "RECONNECT_BASE_DELAY_S = 1 / 2"
definition RECONNECT_MAX_DELAY_S :: rat where "RECONNECT_MAX_DELAY_S = 10"
definition RECLAIM_MIN_IDLE_MS :: int where "RECLAIM_MIN_IDLE_MS = 60000"
definition RECLAIM_INTERVAL_S :: rat where "RECLAIM_INTERVAL_S = 30"
definition RATE_LIMIT_RETRY_DELAY_S :: rat where "RATE_LIMIT_RETRY_DELAY_S = 1 / 2"
definition CONCURRENCY_RETRY_DELAY_S :: rat where "CONCURRENCY_RETRY_DELAY_S = 1 / 2"
definition ORDERED_WAIT_S :: rat where "ORDERED_WAIT_S = 1 / 4"
definition BREAKER_RECHECK_DELAY_S :: rat where "BREAKER_RECHECK_DELAY_S = 30"

lemmas worker_constants = RATE_LIMIT_RETRY_DELAY_S_def CONCURRENCY_RETRY_DELAY_S_def ORDERED_WAIT_S_def
  BREAKER_RECHECK_DELAY_S_def

section \<open>One attempt\<close>

text \<open>\<open>timedelta(seconds=x)\<close>, in seconds: NaN raises \<open>ValueError\<close>, an infinity \<open>OverflowError\<close>.\<close>

definition timedelta_seconds :: "pyfloat \<Rightarrow> rat proc" where
  "timedelta_seconds x = (case x of
     Fin s \<Rightarrow> return s | NaN \<Rightarrow> raise Value_error | PosInf \<Rightarrow> raise Overflow_error | NegInf \<Rightarrow> raise Overflow_error)"

definition record_delivery :: "uuid \<Rightarrow> delivery_status \<Rightarrow> rat \<Rightarrow> unit proc" where
  "record_delivery tenant_id outcome latency_seconds = count_metric (M_delivery tenant_id outcome latency_seconds)"

text \<open>From the result of the request to the row's new state: the changed object, and the delay
  when the delivery is to be retried.\<close>

definition settle_delivery :: "delivery \<Rightarrow> int \<Rightarrow> attempt_result \<Rightarrow> (delivery \<times> rat option) proc" where
  "settle_delivery delivery attempt_number result =
     (if succeeded result then
        bind (assign_delivery delivery (\<lambda>d. d\<lparr>d_status := Delivered\<rparr>)) (\<lambda>delivery.
        bind (assign_delivery delivery (\<lambda>d. d\<lparr>d_next_attempt_at := None\<rparr>)) (\<lambda>delivery.
        return (delivery, None)))
      else
        bind settings_of (\<lambda>cfg.
        bind random_draw (\<lambda>u.
        case next_delay_seconds attempt_number (r_http_status result) (r_retry_after result) (max_attempts cfg) u of
          None \<Rightarrow>
            bind (assign_delivery delivery (\<lambda>d. d\<lparr>d_status := Dead\<rparr>)) (\<lambda>delivery.
            bind (assign_delivery delivery (\<lambda>d. d\<lparr>d_next_attempt_at := None\<rparr>)) (\<lambda>delivery.
            return (delivery, None)))
        | Some delay_seconds \<Rightarrow>
            bind (assign_delivery delivery (\<lambda>d. d\<lparr>d_status := Failed\<rparr>)) (\<lambda>delivery.
            bind time_time (\<lambda>now.
            bind (timedelta_seconds delay_seconds) (\<lambda>delay.
            bind (assign_delivery delivery (\<lambda>d. d\<lparr>d_next_attempt_at := Some (now + delay)\<rparr>)) (\<lambda>delivery.
            return (delivery, Some delay))))))))"

definition attempt_row :: "uuid \<Rightarrow> int \<Rightarrow> attempt_result \<Rightarrow> rat \<Rightarrow> attempt" where
  "attempt_row delivery_id attempt_number result t =
     \<lparr>a_id = 0, a_delivery_id = delivery_id, a_attempt_number = attempt_number, a_started_at = t,
      a_latency_ms = r_latency_ms result, a_http_status = r_http_status result,
      a_error_class = r_error_class result, a_response_snippet = r_response_snippet result\<rparr>"

text \<open>What follows the request: the attempt row, the row's new state, and only after their
  commit the retry.\<close>

definition record_attempt :: "delivery \<Rightarrow> endpoint \<Rightarrow> event \<Rightarrow> int \<Rightarrow> attempt_result \<Rightarrow> bool proc" where
  "record_attempt delivery endpoint event attempt_number result =
     bind db_now (\<lambda>t.
     seq (add_pending [Ins_attempt (attempt_row (d_id delivery) attempt_number result t)]) (
     bind (settle_delivery delivery attempt_number result) (\<lambda>(delivery, delay_seconds).
     seq commit (
     seq (case delay_seconds of
            None \<Rightarrow> return ()
          | Some delay \<Rightarrow> bind (schedule_retry (d_id delivery) (ev_id event) (ep_id endpoint) delay None) (\<lambda>_. return ())) (
     seq (record_delivery (ep_tenant_id endpoint) (d_status delivery) (of_int (r_latency_ms result) / 1000)) (
     return True))))))"

definition attempt_delivery :: "delivery \<Rightarrow> endpoint \<Rightarrow> event \<Rightarrow> bool proc" where
  "attempt_delivery delivery endpoint event =
     bind (assign_delivery delivery (\<lambda>d. d\<lparr>d_status := Delivering\<rparr>)) (\<lambda>delivery.
     let attempt_number = d_attempt_count delivery + 1 in
     bind (assign_delivery delivery (\<lambda>d. d\<lparr>d_attempt_count := attempt_number\<rparr>)) (\<lambda>delivery.
     seq commit (
     bind (send_delivery (ep_url endpoint) (ep_signing_secret endpoint) (d_id delivery) (ev_id event)
             (ev_payload event)) (\<lambda>result.
     record_attempt delivery endpoint event attempt_number result))))"

definition process_delivery :: "uuid \<Rightarrow> bool proc" where
  "process_delivery delivery_id =
     bind (select_delivery delivery_id) (\<lambda>row. case row of
       None \<Rightarrow> return True
     | Some delivery \<Rightarrow>
         if d_status delivery = Delivered then return True
         else
           bind (select_endpoint (d_endpoint_id delivery)) (\<lambda>ep.
           bind (select_event (d_event_id delivery)) (\<lambda>ev.
           case ep of None \<Rightarrow> return True | Some endpoint \<Rightarrow>
           (case ev of None \<Rightarrow> return True | Some event \<Rightarrow>
             attempt_delivery delivery endpoint event))))"

section \<open>The gates\<close>

definition defer_delivery :: "uuid \<Rightarrow> uuid \<Rightarrow> uuid \<Rightarrow> rat \<Rightarrow> unit proc" where
  "defer_delivery delivery_id event_id endpoint_id delay_s =
     bind (schedule_retry delivery_id event_id endpoint_id delay_s None) (\<lambda>_. return ())"

definition state_text :: "breaker_state \<Rightarrow> string" where
  "state_text s = (case s of Closed \<Rightarrow> ''closed'' | Open \<Rightarrow> ''open'' | Half_open \<Rightarrow> ''half_open'')"

text \<open>\<open>x or y\<close> on an optional number: 0 counts as absent.\<close>

definition or_default :: "int option \<Rightarrow> int \<Rightarrow> int" where
  "or_default x y = (case x of None \<Rightarrow> y | Some n \<Rightarrow> if n = 0 then y else n)"

definition check_gates :: "delivery \<Rightarrow> endpoint \<Rightarrow> rat \<Rightarrow> (bool \<times> string option \<times> rat) proc" where
  "check_gates delivery endpoint now =
     bind settings_of (\<lambda>settings.
     bind (allow_request (ep_id endpoint) now) (\<lambda>(decision, state).
     if decision = Deny then
       bind (should_auto_disable (ep_id endpoint) now) (\<lambda>disable.
       if disable then
         bind (assign_endpoint endpoint (\<lambda>e. e\<lparr>ep_status := Disabled\<rparr>)) (\<lambda>_.
         seq commit (
         return (False, Some ''endpoint_disabled'', BREAKER_RECHECK_DELAY_S)))
       else return (False, Some (''breaker_'' @ state_text state), BREAKER_RECHECK_DELAY_S))
     else
       bind (select_tenant_one (ep_tenant_id endpoint)) (\<lambda>tenant.
       let rate = or_default (t_rate_per_sec tenant) (default_tenant_rate_per_sec settings) in
       bind (take_token (t_id tenant) rate now) (\<lambda>granted.
       if \<not> granted then return (False, Some ''rate_limited'', RATE_LIMIT_RETRY_DELAY_S)
       else return (True, None, 0)))))"

text \<open>Rejecting and putting back: the metric and the deferral every gate shares.\<close>

definition gate_out :: "delivery \<Rightarrow> endpoint \<Rightarrow> string \<Rightarrow> rat \<Rightarrow> bool proc" where
  "gate_out delivery endpoint reason delay =
     seq (count_metric (M_gated reason))
    (seq (defer_delivery (d_id delivery) (d_event_id delivery) (ep_id endpoint) delay)
         (return True))"

text \<open>The body of the \<open>try\<close>: from the held slot on, and the whole of it.\<close>

definition attempt_and_record :: "uuid \<Rightarrow> delivery \<Rightarrow> endpoint \<Rightarrow> bool proc" where
  "attempt_and_record delivery_id delivery endpoint =
     bind (process_delivery delivery_id) (\<lambda>should_ack.
     bind (refresh_delivery delivery) (\<lambda>delivery.
     bind time_time (\<lambda>t.
     bind (record_outcome (ep_id endpoint) (d_status delivery = Delivered) t) (\<lambda>_.
     seq (only_if (ep_ordering endpoint = Ordered \<and> d_status delivery \<in> {Delivered, Dead})
            (bind (pop_head (ep_id endpoint) (d_id delivery)) (\<lambda>_. return ())))
         (return should_ack)))))"

definition gated_body :: "uuid \<Rightarrow> delivery \<Rightarrow> endpoint \<Rightarrow> rat \<Rightarrow> bool proc" where
  "gated_body delivery_id delivery endpoint now =
     bind (check_gates delivery endpoint now) (\<lambda>(allowed, reason, retry_in).
     if \<not> allowed then
       gate_out delivery endpoint (case reason of None \<Rightarrow> ''unknown'' | Some r \<Rightarrow> r) retry_in
     else
       bind settings_of (\<lambda>settings.
       bind (select_tenant_one (ep_tenant_id endpoint)) (\<lambda>tenant.
       let cap = or_default (t_max_inflight tenant) (default_tenant_max_inflight settings) in
       bind (acquire_slot (t_id tenant) cap now) (\<lambda>slot_token.
       case slot_token of
         None \<Rightarrow> gate_out delivery endpoint ''max_inflight'' CONCURRENCY_RETRY_DELAY_S
       | Some token \<Rightarrow>
           seq (modify_local (\<lambda>l. l\<lparr>slot_var := Some token\<rparr>))
               (attempt_and_record delivery_id delivery endpoint)))))"

definition release_all :: "endpoint \<Rightarrow> string option \<Rightarrow> unit proc" where
  "release_all endpoint lock_token =
     bind (get_local slot_var) (\<lambda>slot_token.
     seq (case slot_token of None \<Rightarrow> return () | Some token \<Rightarrow> release_slot (ep_tenant_id endpoint) token)
         (case lock_token of None \<Rightarrow> return () | Some token \<Rightarrow> release_lock (ep_id endpoint) token))"

definition with_slot_and_lock :: "uuid \<Rightarrow> delivery \<Rightarrow> endpoint \<Rightarrow> rat \<Rightarrow> string option \<Rightarrow> bool proc" where
  "with_slot_and_lock delivery_id delivery endpoint now lock_token =
     seq (modify_local (\<lambda>l. l\<lparr>slot_var := None\<rparr>))
         (try_finally (gated_body delivery_id delivery endpoint now) (release_all endpoint lock_token))"

definition deliver_with_gates :: "uuid \<Rightarrow> bool proc" where
  "deliver_with_gates delivery_id =
     bind time_time (\<lambda>now.
     bind (select_delivery delivery_id) (\<lambda>row. case row of
       None \<Rightarrow> return True
     | Some delivery \<Rightarrow>
         if d_status delivery \<in> {Delivered, Dead} then return True
         else
           bind (select_endpoint (d_endpoint_id delivery)) (\<lambda>ep. case ep of
             None \<Rightarrow> return True
           | Some endpoint \<Rightarrow>
               if ep_status endpoint \<noteq> Active then return True
               else if ep_ordering endpoint = Ordered then
                 bind (acquire_lock (ep_id endpoint)) (\<lambda>lock. case lock of
                   None \<Rightarrow> gate_out delivery endpoint ''ordered_wait'' ORDERED_WAIT_S
                 | Some lock_token \<Rightarrow>
                     bind (peek_head (ep_id endpoint)) (\<lambda>head.
                     if head \<noteq> None \<and> head \<noteq> Some (d_id delivery) then
                       seq (release_lock (ep_id endpoint) lock_token)
                           (gate_out delivery endpoint ''ordered_wait'' ORDERED_WAIT_S)
                     else with_slot_and_lock delivery_id delivery endpoint now (Some lock_token)))
               else with_slot_and_lock delivery_id delivery endpoint now None)))"

section \<open>Stream entries\<close>

definition xack_proc :: "string \<Rightarrow> stream_id \<Rightarrow> unit proc" where
  "xack_proc key message_id =
     redis_unit (Xack key message_id) (\<lambda>s. s\<lparr>sh_streams := (sh_streams s)(key := xack message_id (sh_streams s key))\<rparr>)"

definition handle_message :: "string \<Rightarrow> stream_id \<Rightarrow> fields \<Rightarrow> unit proc" where
  "handle_message key message_id flds =
     (case uuid_parse (f_delivery_id flds) of
        None \<Rightarrow> raise Value_error
      | Some delivery_id \<Rightarrow>
          bind (try_except
                 (bind (with_session (deliver_with_gates delivery_id)) (\<lambda>should_ack. return (Some should_ack)))
                 (\<lambda>exc. return None))
            (\<lambda>outcome. case outcome of
               None \<Rightarrow> return ()
             | Some should_ack \<Rightarrow> only_if should_ack (xack_proc key message_id)))"

text \<open>\<open>XAUTOCLAIM\<close> and \<open>XREADGROUP\<close>; a missing group is a \<open>ResponseError\<close>, a \<open>RedisError\<close>.\<close>

definition xautoclaim_proc ::
  "string \<Rightarrow> string \<Rightarrow> int \<Rightarrow> stream_id \<Rightarrow> nat \<Rightarrow> (stream_id \<times> (stream_id \<times> fields) list) proc" where
  "xautoclaim_proc key consumer_name min_idle_time start_id count =
     bind (redis (\<lambda>r. Xclaim key (case r of None \<Rightarrow> [] | Some (cursor, messages) \<Rightarrow> messages))
            (\<lambda>s. case xautoclaim consumer_name (sh_now s) (of_int min_idle_time) start_id count (sh_streams s key) of
               None \<Rightarrow> (None, s)
             | Some (cursor, messages, st) \<Rightarrow>
                 (Some (cursor, messages), s\<lparr>sh_streams := (sh_streams s)(key := st)\<rparr>)))
       (\<lambda>r. case r of None \<Rightarrow> raise Redis_error | Some x \<Rightarrow> return x)"

definition xreadgroup_proc :: "string \<Rightarrow> string \<Rightarrow> (stream_id \<times> fields) list proc" where
  "xreadgroup_proc key consumer_name =
     bind (redis (\<lambda>r. Xread key (case r of None \<Rightarrow> [] | Some messages \<Rightarrow> messages))
            (\<lambda>s. case xread_new consumer_name (sh_now s) (sh_streams s key) of
               None \<Rightarrow> (None, s)
             | Some (messages, st) \<Rightarrow> (Some messages, s\<lparr>sh_streams := (sh_streams s)(key := st)\<rparr>)))
       (\<lambda>r. case r of None \<Rightarrow> raise Redis_error | Some x \<Rightarrow> return x)"

text \<open>Creating the group, tolerating \<open>BUSYGROUP\<close>.\<close>

definition ensure_group :: "int \<Rightarrow> unit proc" where
  "ensure_group shard =
     redis_unit (Xgroup (stream_key shard))
       (\<lambda>s. case xgroup_create (sh_streams s (stream_key shard)) of
          None \<Rightarrow> s
        | Some st \<Rightarrow> s\<lparr>sh_streams := (sh_streams s)(stream_key shard := st)\<rparr>)"

text \<open>
  The loop of \<open>reclaim_stale\<close>, with \<open>fuel\<close> for its rounds: \<open>None\<close> means the fuel ran out.
\<close>

fun reclaim_loop :: "nat \<Rightarrow> string \<Rightarrow> string \<Rightarrow> stream_id \<Rightarrow> nat \<Rightarrow> nat option proc" where
  "reclaim_loop 0 key consumer_name cursor reclaimed = return None"
| "reclaim_loop (Suc fuel) key consumer_name cursor reclaimed =
     bind (xautoclaim_proc key consumer_name RECLAIM_MIN_IDLE_MS cursor 10) (\<lambda>(cursor, messages).
     seq (for_each messages (\<lambda>(message_id, flds). handle_message key message_id flds))
         (if cursor = Sid 0 0 \<or> messages = [] then return (Some (reclaimed + length messages))
          else reclaim_loop fuel key consumer_name cursor (reclaimed + length messages)))"

definition reclaim_stale :: "nat \<Rightarrow> string \<Rightarrow> string \<Rightarrow> nat option proc" where
  "reclaim_stale fuel key consumer_name = reclaim_loop fuel key consumer_name (Sid 0 0) 0"

section \<open>The shard loop\<close>

definition sleep :: "rat \<Rightarrow> unit proc" where
  "sleep d = effect http_exn (\<lambda>w. (Inr (), log_action (Slept d)
     (w\<lparr>w_sh := (w_sh w)\<lparr>sh_now := sh_now (w_sh w) + \<bar>d\<bar>\<rparr>\<rparr>)))"

text \<open>\<open>loop.time()\<close>, a monotonic clock.\<close>

definition loop_time :: "rat proc" where "loop_time = db_now"

text \<open>\<open>contextlib.suppress(Exception)\<close>, and \<open>except (RedisError, OSError)\<close>.\<close>

definition suppress :: "unit proc \<Rightarrow> unit proc" where
  "suppress m = try_except m (\<lambda>_. return ())"

definition except_redis :: "unit proc \<Rightarrow> unit proc \<Rightarrow> unit proc" where
  "except_redis m h w = (case m w of
     (Inl e, w') \<Rightarrow> if e \<in> {Redis_error, Os_error} then h w' else (Inl e, w')
   | (Inr x, w') \<Rightarrow> (Inr x, w'))"

text \<open>The two loops' backoff: sleep, then double up to the maximum.\<close>

definition backoff :: "rat \<Rightarrow> unit proc" where
  "backoff max_delay =
     bind (get_local delay_var) (\<lambda>delay.
     seq (sleep delay)
         (modify_local (\<lambda>l. l\<lparr>delay_var := min (delay_var l * 2) max_delay\<rparr>)))"

text \<open>The body of the \<open>try\<close>, and a round of the loop.\<close>

definition read_and_handle :: "nat \<Rightarrow> int \<Rightarrow> string \<Rightarrow> unit proc" where
  "read_and_handle fuel shard consumer_name =
     bind loop_time (\<lambda>t.
     bind (get_local next_var) (\<lambda>next_reclaim.
     seq (only_if (t \<ge> next_reclaim)
           (seq (bind (reclaim_stale fuel (stream_key shard) consumer_name) (\<lambda>_. return ()))
                (bind loop_time (\<lambda>t. modify_local (\<lambda>l. l\<lparr>next_var := t + RECLAIM_INTERVAL_S\<rparr>)))))
    (bind (xreadgroup_proc (stream_key shard) consumer_name) (\<lambda>messages.
     seq (modify_local (\<lambda>l. l\<lparr>delay_var := RECONNECT_BASE_DELAY_S\<rparr>))
         (for_each messages (\<lambda>(message_id, flds). handle_message (stream_key shard) message_id flds))))))"

definition consume_round :: "nat \<Rightarrow> int \<Rightarrow> string \<Rightarrow> unit proc" where
  "consume_round fuel shard consumer_name =
     except_redis (read_and_handle fuel shard consumer_name)
       (seq (backoff RECONNECT_MAX_DELAY_S)
            (suppress (ensure_group shard)))"

text \<open>The loop until \<open>stop\<close> is set: \<open>rounds\<close> is how many times the loop's condition held.\<close>

fun consume_rounds :: "nat \<Rightarrow> nat \<Rightarrow> int \<Rightarrow> string \<Rightarrow> unit proc" where
  "consume_rounds 0 fuel shard consumer_name = return ()"
| "consume_rounds (Suc rounds) fuel shard consumer_name =
     seq (consume_round fuel shard consumer_name) (consume_rounds rounds fuel shard consumer_name)"

definition consume_shard :: "nat \<Rightarrow> nat \<Rightarrow> int \<Rightarrow> string \<Rightarrow> unit proc" where
  "consume_shard rounds fuel shard consumer_name =
     seq (modify_local (\<lambda>l. l\<lparr>delay_var := RECONNECT_BASE_DELAY_S\<rparr>))
    (seq (bind loop_time (\<lambda>t. modify_local (\<lambda>l. l\<lparr>next_var := t\<rparr>)))
         (consume_rounds rounds fuel shard consumer_name))"

section \<open>Supervision\<close>

text \<open>The tasks of \<open>supervise_shards\<close> by handle, with the shard each consumes.\<close>

record supervisor =
  sup_tasks :: "(nat \<times> int) list"
  sup_next :: nat

definition spawn :: "int \<Rightarrow> supervisor \<Rightarrow> supervisor" where
  "spawn shard s = \<lparr>sup_tasks = sup_tasks s @ [(sup_next s, shard)], sup_next = Suc (sup_next s)\<rparr>"

definition start_shards :: "int \<Rightarrow> supervisor" where
  "start_shards shards = foldl (\<lambda>s shard. spawn shard s) \<lparr>sup_tasks = [], sup_next = 0\<rparr> [0..shards - 1]"

text \<open>One task of \<open>done\<close>: it is popped, and respawned on its shard unless stopping.\<close>

definition reap :: "bool \<Rightarrow> supervisor \<Rightarrow> nat \<Rightarrow> supervisor" where
  "reap stopping s task =
     (case map_of (sup_tasks s) task of
        None \<Rightarrow> s
      | Some shard \<Rightarrow>
          (let s' = s\<lparr>sup_tasks := filter (\<lambda>p. fst p \<noteq> task) (sup_tasks s)\<rparr>
           in if stopping then s' else spawn shard s'))"

definition supervise_round :: "bool \<Rightarrow> nat list \<Rightarrow> supervisor \<Rightarrow> supervisor" where
  "supervise_round stopping finished s = foldl (reap stopping) s finished"

end
