(* ===== verification/Worker_Safety.thy ===== *)
theory Worker_Safety
  imports Worker
begin

text \<open>
  What the worker guarantees whatever fails and whatever other processes do meanwhile, read
  off the trace of its calls: requests leave only through the gates, an entry is
  acknowledged only when its delivery is accounted for, a gated delivery leaves the database
  alone, and what was acquired is released.
\<close>

section \<open>Requests are guarded\<close>

text \<open>
  \<open>tr\<close> is what was done before a request for delivery \<open>d\<close>, latest first.  The delivery was read
  unsettled, its endpoint was read active, that endpoint's breaker answered other than
  "deny", its tenant's bucket granted a token, a slot of the tenant is held, and if the
  endpoint is ordered its lock is held and \<open>d\<close> is the head of its queue (or the queue empty).
\<close>

definition head_held :: "uuid \<Rightarrow> uuid \<Rightarrow> action list \<Rightarrow> bool" where
  "head_held e d tr \<longleftrightarrow> (\<exists>token. Lock_try e token True \<in> set tr \<and> Lock_release e token \<notin> set tr \<and>
     (Peek e None \<in> set tr \<or> Peek e (Some d) \<in> set tr))"

definition may_enter :: "uuid \<Rightarrow> endpoint \<Rightarrow> action list \<Rightarrow> bool" where
  "may_enter d ep tr \<longleftrightarrow>
     (\<exists>dl. Select_delivery d (Some dl) \<in> set tr \<and> d_status dl \<notin> {Delivered, Dead} \<and> d_endpoint_id dl = ep_id ep) \<and>
     Select_endpoint (ep_id ep) (Some ep) \<in> set tr \<and> ep_status ep = Active \<and>
     (ep_ordering ep = Ordered \<longrightarrow> head_held (ep_id ep) d tr)"

definition gated_in :: "endpoint \<Rightarrow> action list \<Rightarrow> bool" where
  "gated_in ep tr \<longleftrightarrow> (\<exists>decision. decision \<noteq> Deny \<and> Gate (ep_id ep) decision \<in> set tr) \<and>
     Token_try (ep_tenant_id ep) True \<in> set tr"

definition gates_passed :: "uuid \<Rightarrow> action list \<Rightarrow> bool" where
  "gates_passed d tr \<longleftrightarrow> (\<exists>ep. may_enter d ep tr \<and> gated_in ep tr \<and>
     (\<exists>token. Slot_try (ep_tenant_id ep) token True \<in> set tr \<and> Slot_release (ep_tenant_id ep) token \<notin> set tr))"

fun sends_guarded :: "uuid \<Rightarrow> action list \<Rightarrow> bool" where
  "sends_guarded d [] = True"
| "sends_guarded d (Posted rq reply # tr) = (gates_passed d tr \<and> sends_guarded d tr)"
| "sends_guarded d (a # tr) = sends_guarded d tr"

definition is_release :: "action \<Rightarrow> bool" where
  "is_release a = (case a of Lock_release _ _ \<Rightarrow> True | Slot_release _ _ \<Rightarrow> True | _ \<Rightarrow> False)"

lemma head_held_Cons: "head_held e d tr \<Longrightarrow> \<not> is_release a \<Longrightarrow> head_held e d (a # tr)"
  by (fastforce simp: head_held_def is_release_def)

lemma may_enter_Cons: "may_enter d ep tr \<Longrightarrow> \<not> is_release a \<Longrightarrow> may_enter d ep (a # tr)"
  by (auto simp: may_enter_def head_held_Cons)

lemma gated_in_Cons: "gated_in ep tr \<Longrightarrow> gated_in ep (a # tr)"
  by (auto simp: gated_in_def)

lemma gates_passed_Cons: "gates_passed d tr \<Longrightarrow> \<not> is_release a \<Longrightarrow> gates_passed d (a # tr)"
  unfolding gates_passed_def using may_enter_Cons gated_in_Cons by (fastforce simp: is_release_def)

definition no_slot_yet :: "action list \<Rightarrow> bool" where
  "no_slot_yet tr \<longleftrightarrow> (\<forall>t token. Slot_release t token \<notin> set tr)"

lemma may_enter_append: "may_enter d ep tr \<Longrightarrow> \<forall>a \<in> set as. \<not> is_release a \<Longrightarrow> may_enter d ep (as @ tr)"
  by (induction as) (simp_all add: may_enter_Cons)

lemmas worker_unfold = process_delivery_def settle_delivery_def timedelta_seconds_def record_delivery_def
  attempt_and_record_def check_gates_def gate_out_def defer_delivery_def gated_body_def release_all_def
  with_slot_and_lock_def deliver_with_gates_def

lemma keeps_pyfloat [keeps_intro]:
  "(\<And>s. x = Fin s \<Longrightarrow> keeps J (f s)) \<Longrightarrow> keeps J a \<Longrightarrow> keeps J b \<Longrightarrow> keeps J c
    \<Longrightarrow> keeps J (case x of Fin s \<Rightarrow> f s | PosInf \<Rightarrow> a | NegInf \<Rightarrow> b | NaN \<Rightarrow> c)"
  by (cases x) simp_all

text \<open>What one attempt adds to the trace, and what a gate does.\<close>

lemma process_keeps:
  assumes "\<And>a tr v. J tr v \<Longrightarrow> (case a of Select_delivery _ _ \<Rightarrow> True | Select_endpoint _ _ \<Rightarrow> True | Select_event _ _ \<Rightarrow> True
      | Committed _ _ \<Rightarrow> True | Posted _ _ \<Rightarrow> True | Zadd_retry _ _ _ _ \<Rightarrow> True | _ \<Rightarrow> False) \<Longrightarrow> J (a # tr) v"
  shows "keeps J (process_delivery i)"
  unfolding process_delivery_def attempt_delivery_def record_attempt_def settle_delivery_def timedelta_seconds_def record_delivery_def Let_def
  by (intro keeps_intro) (simp_all add: assms)

lemma process_guarded: "keeps (on_trace (\<lambda>tr. gates_passed d tr \<and> sends_guarded d tr)) (process_delivery i)"
proof (rule process_keeps)
  fix a tr
  assume "gates_passed d tr \<and> sends_guarded d tr"
    and "case a of Select_delivery _ _ \<Rightarrow> True | Select_endpoint _ _ \<Rightarrow> True | Select_event _ _ \<Rightarrow> True
      | Committed _ _ \<Rightarrow> True | Posted _ _ \<Rightarrow> True | Zadd_retry _ _ _ _ \<Rightarrow> True | _ \<Rightarrow> False"
  then show "gates_passed d (a # tr) \<and> sends_guarded d (a # tr)"
    by (cases a) (simp_all add: gates_passed_Cons is_release_def)
qed

text \<open>Once the trace has the property, calls that send nothing keep it.\<close>

lemma safe_bind_keeps:
  assumes "safe m (\<lambda>_ l. J (trace l)) (\<lambda>_ l. J (trace l)) l" and "\<And>x. keeps (on_trace J) (f x)"
  shows "safe (bind m f) (\<lambda>_ l. J (trace l)) (\<lambda>_ l. J (trace l)) l"
  by (intro safe_bind safe_mono [OF assms(1)] keeps_safe assms(2))

definition posts :: "action \<Rightarrow> bool" where
  "posts a = (case a of Posted _ _ \<Rightarrow> True | _ \<Rightarrow> False)"

lemma sends_guarded_Cons: "\<not> posts a \<Longrightarrow> sends_guarded d (a # tr) = sends_guarded d tr"
  by (cases a) (simp_all add: posts_def)

lemma attempt_guarded:
  assumes "gates_passed d (trace l)" and "sends_guarded d (trace l)"
  shows "safe (attempt_and_record i dl ep) (\<lambda>_ l. sends_guarded d (trace l)) (\<lambda>_ l. sends_guarded d (trace l)) l"
  unfolding attempt_and_record_def
proof (rule safe_bind_keeps)
  show "safe (process_delivery i) (\<lambda>_ l. sends_guarded d (trace l)) (\<lambda>_ l. sends_guarded d (trace l)) l"
    by (rule safe_mono [OF keeps_safe [OF process_guarded]]) (use assms in auto)
qed (intro keeps_intro; simp)

lemma gates_guarded: "keeps (on_trace (sends_guarded d)) (check_gates dl ep now)" "keeps (on_trace (sends_guarded d)) (gate_out dl ep r delay)"
  "keeps (on_trace (sends_guarded d)) (release_all ep tok)"
  unfolding check_gates_def gate_out_def defer_delivery_def release_all_def Let_def
  by (intro keeps_intro; simp)+

text \<open>Passing the breaker and the token bucket shows in the trace.\<close>

lemma check_gates_passed:
  assumes "sends_guarded d (trace l)"
  shows "safe (check_gates dl ep now)
    (\<lambda>x l'. sends_guarded d (trace l') \<and> (\<exists>as. trace l' = as @ trace l \<and> (\<forall>a \<in> set as. \<not> is_release a) \<and>
       (fst x \<longrightarrow> gated_in ep as)))
    (\<lambda>_ l'. sends_guarded d (trace l')) l"
  unfolding check_gates_def Let_def
  by (intro safe_intro) (use assms in \<open>auto simp: is_release_def gated_in_def\<close>)

lemma gated_body_guarded:
  assumes "may_enter d ep (trace l)" and "sends_guarded d (trace l)" and "no_slot_yet (trace l)"
  shows "safe (gated_body i dl ep now) (\<lambda>_ l. sends_guarded d (trace l)) (\<lambda>_ l. sends_guarded d (trace l)) l"
  unfolding gated_body_def
proof (rule safe_bind_spec [OF check_gates_passed [OF assms(2)]], goal_cases)
  case (2 x l')
  then obtain allowed reason retry_in as where x: "x = (allowed, reason, retry_in)"
    and as: "sends_guarded d (trace l')" "trace l' = as @ trace l" "\<forall>a \<in> set as. \<not> is_release a" "allowed \<longrightarrow> gated_in ep as"
    by (cases x) auto
  have passed: "gates_passed d (Slot_try t tok True # Select_tenant t' row # trace l')"
    if "allowed" and "t = ep_tenant_id ep" for t tok t' row
  proof -
    have "may_enter d ep (Slot_try t tok True # Select_tenant t' row # trace l')"
      using may_enter_append [OF assms(1) as(3)] by (simp add: may_enter_Cons is_release_def as(2))
    moreover have "gated_in ep (Slot_try t tok True # Select_tenant t' row # trace l')"
      using that(1) as(4) by (auto simp: gated_in_def as(2))
    moreover have "Slot_release t tok \<notin> set (trace l')"
      using as(3) assms(3) by (auto simp: as(2) no_slot_yet_def is_release_def)
    ultimately show ?thesis
      unfolding gates_passed_def using that(2) by auto
  qed
  show ?case
    unfolding x prod.case Let_def
    by (intro safe_bind safe_if safe_inputs safe_select_tenant_one safe_acquire_slot safe_case_option
        safe_seq safe_modify_local keeps_safe gates_guarded attempt_guarded) (simp_all add: passed as(1))
qed

lemma with_slot_and_lock_guarded:
  assumes "may_enter d ep (trace l)" and "sends_guarded d (trace l)" and "no_slot_yet (trace l)"
  shows "safe (with_slot_and_lock i dl ep now tok) (\<lambda>_ l. sends_guarded d (trace l)) (\<lambda>_ l. sends_guarded d (trace l)) l"
  unfolding with_slot_and_lock_def
proof (intro safe_seq safe_modify_local safe_try_finally, rule safe_mono [OF gated_body_guarded])
  show "may_enter d ep (trace (l\<lparr>slot_var := None\<rparr>))" "sends_guarded d (trace (l\<lparr>slot_var := None\<rparr>))"
    "no_slot_yet (trace (l\<lparr>slot_var := None\<rparr>))"
    using assms by simp_all
qed (auto intro!: keeps_safe gates_guarded)

lemma deliver_guarded:
  assumes "loaded_deliveries l = []" and "loaded_endpoints l = []"
    and "trace l = []"
  shows "safe (deliver_with_gates d) (\<lambda>_ l. sends_guarded d (trace l)) (\<lambda>_ l. sends_guarded d (trace l)) l"
  unfolding deliver_with_gates_def
  by (intro safe_bind safe_if safe_inputs safe_select_delivery safe_select_endpoint safe_acquire_lock safe_peek_head
      safe_case_option safe_seq safe_return safe_commands with_slot_and_lock_guarded keeps_safe gates_guarded)
    (use assms in \<open>auto simp: may_enter_def head_held_def no_slot_yet_def\<close>)

section \<open>Acknowledged entries are accounted for\<close>

definition settled_row :: "uuid \<Rightarrow> db \<Rightarrow> bool" where
  "settled_row d db \<longleftrightarrow> (\<exists>row. the_delivery d db = Some row \<and> d_status row \<in> {Delivered, Dead})"

text \<open>The reasons for which an entry for \<open>d\<close> may be dropped: a retry is scheduled, a settled row
  was committed or read, the row, its endpoint or its event is gone, or the endpoint is
  not active.\<close>

definition accounts :: "uuid \<Rightarrow> action \<Rightarrow> bool" where
  "accounts d a = (case a of
     Zadd_retry d' _ _ _ \<Rightarrow> d' = d
   | Committed _ db \<Rightarrow> settled_row d db
   | Select_delivery d' row \<Rightarrow> d' = d \<and> (case row of None \<Rightarrow> True | Some r \<Rightarrow> d_status r \<in> {Delivered, Dead})
   | Select_endpoint _ row \<Rightarrow> (case row of None \<Rightarrow> True | Some r \<Rightarrow> ep_status r \<noteq> Active)
   | Select_event _ row \<Rightarrow> row = None
   | _ \<Rightarrow> False)"

definition accounted :: "uuid \<Rightarrow> action list \<Rightarrow> bool" where
  "accounted d tr \<longleftrightarrow> (\<exists>a \<in> set tr. accounts d a)"

lemma accounted_Cons [simp]: "accounted d (a # tr) \<longleftrightarrow> accounts d a \<or> accounted d tr"
  by (simp add: accounted_def)

definition settles :: "uuid \<Rightarrow> db_write list \<Rightarrow> bool" where
  "settles d ws \<longleftrightarrow> (\<forall>d0 db. apply_writes ws d0 = Inr db \<longrightarrow> settled_row d db)"

lemma settles_status:
  assumes "\<And>r. d_id (f r) = d_id r" and "\<And>r. d_status (f r) \<in> {Delivered, Dead}"
  shows "settles d (ws @ [Upd_delivery d f])"
  using assms by (auto simp: settles_def apply_writes_append settled_row_def row_simps split: sum.splits)

lemma settles_status_next:
  assumes "\<And>r. d_id (f r) = d_id r" and "\<And>r. d_status (f r) \<in> {Delivered, Dead}"
    and "\<And>r. d_id (g r) = d_id r" and "\<And>r. d_status (g r) = d_status r"
  shows "settles d (ws @ [Upd_delivery d f, Upd_delivery d g])"
  using assms by (auto simp: settles_def apply_writes_append settled_row_def row_simps split: sum.splits)

lemma assigned_simps [simp]:
  "trace (assigned d f t l) = trace l"
  "pending (assigned d f t l) = pending l @ [Upd_delivery (d_id d) (\<lambda>r. (f r)\<lparr>d_updated_at := t\<rparr>)]"
  by (simp_all add: assigned_def)

lemma safe_pyfloat [safe_intro]:
  "(\<And>s. x = Fin s \<Longrightarrow> safe (f s) Q E l) \<Longrightarrow> safe a Q E l \<Longrightarrow> safe b Q E l \<Longrightarrow> safe c Q E l
    \<Longrightarrow> safe (case x of Fin s \<Rightarrow> f s | PosInf \<Rightarrow> a | NegInf \<Rightarrow> b | NaN \<Rightarrow> c) Q E l"
  by (cases x) simp_all

lemma same_status [simp]: "dl\<lparr>d_status := st\<rparr> = dl \<longleftrightarrow> d_status dl = st"
  by (cases dl) auto

lemma settle_spec:
  assumes "d_status dl = Delivering"
  shows "safe (settle_delivery dl n result)
    (\<lambda>(dl', delay) l'. trace l' = trace l \<and> d_id dl' = d_id dl \<and> (delay = None \<longrightarrow> settles (d_id dl) (pending l')))
    (\<lambda>_ _. True) l"
  unfolding settle_delivery_def timedelta_seconds_def
  by (intro safe_intro) (use assms in \<open>auto intro!: settles_status settles_status_next\<close>)

text \<open>One attempt accounts for its delivery, unless it was already delivered in this session.\<close>

lemma record_accounted:
  assumes "d_status dl = Delivering" and "d_id dl = d"
  shows "safe (record_attempt dl ep ev n result) (\<lambda>_ l'. accounted d (trace l')) (\<lambda>_ _. True) l"
  unfolding record_attempt_def
proof (rule safe_bind, rule safe_inputs, rule safe_seq, rule safe_add_pending,
    rule safe_bind_spec [OF settle_spec [OF assms(1)]], goal_cases)
  case (2 t x l2)
  obtain dl' delay where x: "x = (dl', delay)" by (cases x)
  have post: "d_id dl' = d" "delay = None \<Longrightarrow> settles d (pending l2)"
    using 2 assms(2) by (auto simp: x)
  show ?case
    unfolding x prod.case record_delivery_def
    by (intro safe_seq safe_commit safe_case_option safe_return safe_bind safe_schedule_retry safe_count_metric)
      (use post in \<open>auto simp: accounts_def settles_def\<close>)
qed simp

lemma attempt_accounted:
  "safe (attempt_delivery dl ep ev) (\<lambda>_ l'. accounted (d_id dl) (trace l')) (\<lambda>_ _. True) l"
  unfolding attempt_delivery_def send_delivery_def Let_def
  by (intro safe_bind safe_assign_delivery safe_inputs safe_seq safe_commit safe_http_post safe_case_prod safe_return
      record_accounted) simp_all

lemma process_accounted:
  assumes "\<And>obj. find_by d_id d (loaded_deliveries l) = Some obj \<Longrightarrow> d_status obj \<noteq> Delivered"
  shows "safe (process_delivery d) (\<lambda>_ l'. accounted d (trace l')) (\<lambda>_ _. True) l"
proof -
  have attempt: "safe (attempt_delivery dl ep ev) (\<lambda>_ l'. accounted d (trace l')) (\<lambda>_ _. True) l1"
    if "d_id dl = d" for dl ep ev l1
    using attempt_accounted [of dl] that by simp
  show ?thesis
    unfolding process_delivery_def
    by (intro safe_bind safe_if safe_select_delivery safe_select_endpoint safe_select_event safe_case_option safe_return attempt)
      (use assms in \<open>auto simp: accounts_def\<close>)
qed

lemma gate_out_accounted: "safe (gate_out dl ep r delay) (\<lambda>_ l'. accounted (d_id dl) (trace l')) (\<lambda>_ _. True) l"
  unfolding gate_out_def defer_delivery_def
  by (intro safe_bind safe_seq safe_count_metric safe_schedule_retry safe_return) (simp_all add: accounts_def)

lemma attempt_and_record_accounted:
  assumes "\<And>obj. find_by d_id d (loaded_deliveries l) = Some obj \<Longrightarrow> d_status obj \<noteq> Delivered"
  shows "safe (attempt_and_record d dl ep) (\<lambda>_ l'. accounted d (trace l')) (\<lambda>_ _. True) l"
  unfolding attempt_and_record_def
proof (rule safe_bind_spec [OF process_accounted], fact assms, goal_cases)
  case (2 x l')
  have keep: "keeps (on_trace (accounted d)) (bind (refresh_delivery dl) (\<lambda>delivery. bind time_time (\<lambda>t.
      bind (record_outcome (ep_id ep) (d_status delivery = Delivered) t) (\<lambda>_.
      seq (only_if (ep_ordering ep = Ordered \<and> d_status delivery \<in> {Delivered, Dead})
            (bind (pop_head (ep_id ep) (d_id delivery)) (\<lambda>_. return ()))) (return x)))))"
    by (intro keeps_intro) simp_all
  show ?case by (rule safe_mono [OF keeps_safe [OF keep]]) (use 2 in simp_all)
qed simp

lemma check_gates_loaded:
  "safe (check_gates dl ep now) (\<lambda>_ l'. loaded_deliveries l' = loaded_deliveries l) (\<lambda>_ _. True) l"
  unfolding check_gates_def Let_def by (intro safe_intro) simp_all

lemma gated_body_accounted:
  assumes "\<And>obj. find_by d_id d (loaded_deliveries l) = Some obj \<Longrightarrow> d_status obj \<noteq> Delivered" and "d_id dl = d"
  shows "safe (gated_body d dl ep now) (\<lambda>_ l'. accounted d (trace l')) (\<lambda>_ _. True) l"
proof -
  have out: "safe (gate_out dl ep r delay) (\<lambda>_ l'. accounted d (trace l')) (\<lambda>_ _. True) l1" for r delay l1
    using gate_out_accounted [of dl] assms(2) by simp
  show ?thesis
    unfolding gated_body_def Let_def
    by (rule safe_bind_spec [OF check_gates_loaded], simp,
        intro safe_bind safe_case_prod safe_if safe_inputs safe_select_tenant_one safe_acquire_slot safe_case_option
          safe_seq safe_modify_local out attempt_and_record_accounted) (use assms(1) in simp_all)
qed

lemma with_slot_and_lock_accounted:
  assumes "\<And>obj. find_by d_id d (loaded_deliveries l) = Some obj \<Longrightarrow> d_status obj \<noteq> Delivered" and "d_id dl = d"
  shows "safe (with_slot_and_lock d dl ep now tok) (\<lambda>_ l'. accounted d (trace l')) (\<lambda>_ _. True) l"
  unfolding with_slot_and_lock_def
proof (rule safe_seq, rule safe_modify_local, rule safe_try_finally)
  have rel: "keeps (on_trace (accounted d)) (release_all ep tok)"
    unfolding release_all_def by (intro keeps_intro) simp_all
  have rel': "keeps (\<lambda>_ _. True) (release_all ep tok)"
    unfolding release_all_def by (intro keeps_intro) simp_all
  show "safe (gated_body d dl ep now)
      (\<lambda>x. safe (release_all ep tok) (\<lambda>_ l'. accounted d (trace l')) (\<lambda>_ _. True))
      (\<lambda>e l'. if e = Died then True else safe (release_all ep tok) (\<lambda>_ _. True) (\<lambda>_ _. True) l') (l\<lparr>slot_var := None\<rparr>)"
    by (rule safe_mono [OF gated_body_accounted])
      (use assms in \<open>auto intro: safe_mono [OF keeps_safe [OF rel]] safe_mono [OF keeps_safe [OF rel']]\<close>)
qed

lemma deliver_accounted:
  assumes "loaded_deliveries l = []" and "loaded_endpoints l = []"
  shows "safe (deliver_with_gates d) (\<lambda>_ l'. accounted d (trace l')) (\<lambda>_ _. True) l"
proof -
  have out: "safe (gate_out dl ep r delay) (\<lambda>_ l'. accounted d (trace l')) (\<lambda>_ _. True) l1" if "d_id dl = d" for dl ep r delay l1
    using gate_out_accounted [of dl] that by simp
  show ?thesis
    unfolding deliver_with_gates_def
    by (intro safe_bind safe_if safe_inputs safe_select_delivery safe_select_endpoint safe_acquire_lock safe_peek_head
        safe_case_option safe_seq safe_return safe_commands with_slot_and_lock_accounted out)
      (use assms in \<open>auto simp: accounts_def\<close>)
qed

section \<open>Gated deliveries leave the database alone\<close>

text \<open>A write that touches a delivery or its attempts.\<close>

definition touches_delivery :: "db_write \<Rightarrow> bool" where
  "touches_delivery w = (case w of Upd_delivery _ _ \<Rightarrow> True | Ins_attempt _ \<Rightarrow> True | Ins_delivery _ \<Rightarrow> True
     | Del_endpoint _ \<Rightarrow> True | _ \<Rightarrow> False)"

definition spends_attempt :: "action \<Rightarrow> bool" where
  "spends_attempt a = (case a of Posted _ _ \<Rightarrow> True | Committed ws _ \<Rightarrow> list_ex touches_delivery ws | _ \<Rightarrow> False)"

definition slot_granted :: "action \<Rightarrow> bool" where
  "slot_granted a = (case a of Slot_try _ _ b \<Rightarrow> b | _ \<Rightarrow> False)"

definition gates_free :: "action list \<Rightarrow> bool" where
  "gates_free tr \<longleftrightarrow> list_ex slot_granted tr \<or> \<not> list_ex spends_attempt tr"

lemma granted_stays: "keeps (on_trace (list_ex slot_granted)) (attempt_and_record d dl ep)" "keeps (on_trace (list_ex slot_granted)) (release_all ep tok)"
    "keeps (on_trace (list_ex slot_granted)) (gate_out dl ep r delay)"
  unfolding attempt_and_record_def release_all_def process_delivery_def attempt_delivery_def record_attempt_def settle_delivery_def
    timedelta_seconds_def record_delivery_def gate_out_def defer_delivery_def Let_def
  by (intro keeps_intro; simp)+

lemma out_free: "keeps (on_trace gates_free) (release_all ep tok)" "keeps (on_trace gates_free) (gate_out dl ep r delay)"
  unfolding release_all_def gate_out_def defer_delivery_def
  by (intro keeps_intro; auto simp: gates_free_def spends_attempt_def slot_granted_def)+

lemma check_gates_free:
  assumes "gates_free (trace l)" and "pending l = []"
  shows "safe (check_gates dl ep now) (\<lambda>_ l'. gates_free (trace l')) (\<lambda>_ l'. gates_free (trace l')) l"
  unfolding check_gates_def Let_def
  by (intro safe_intro)
    (use assms in \<open>auto simp: gates_free_def spends_attempt_def slot_granted_def touches_delivery_def\<close>)

lemma gates_freeI: "list_ex slot_granted tr \<Longrightarrow> gates_free tr"
  by (simp add: gates_free_def)

lemma gated_body_free:
  assumes "gates_free (trace l)" and "pending l = []"
  shows "safe (gated_body d dl ep now) (\<lambda>_ l'. gates_free (trace l')) (\<lambda>_ l'. gates_free (trace l')) l"
proof -
  have attempt: "safe (attempt_and_record d dl ep) (\<lambda>_ l'. gates_free (trace l')) (\<lambda>_ l'. gates_free (trace l')) l1"
    if "list_ex slot_granted (trace l1)" for l1
    by (rule safe_mono [OF keeps_safe [OF granted_stays(1)]]) (use that in \<open>simp_all add: gates_freeI\<close>)
  have add: "gates_free (Slot_try t tok b # Select_tenant t' r # tr)" "gates_free (Select_tenant t' r # tr)"
    if "gates_free tr" for t tok b t' r tr
    using that by (auto simp: gates_free_def spends_attempt_def slot_granted_def)
  show ?thesis
    unfolding gated_body_def Let_def
    by (rule safe_bind_spec [OF check_gates_free [OF assms]], simp,
        intro safe_bind safe_case_prod safe_if safe_inputs safe_select_tenant_one safe_acquire_slot safe_case_option
          safe_seq safe_modify_local keeps_safe out_free attempt)
      (simp_all add: add, simp_all add: slot_granted_def)
qed

lemma with_slot_and_lock_free:
  assumes "gates_free (trace l)" and "pending l = []"
  shows "safe (with_slot_and_lock d dl ep now tok) (\<lambda>_ l'. gates_free (trace l')) (\<lambda>_ l'. gates_free (trace l')) l"
  unfolding with_slot_and_lock_def
  by (intro safe_seq safe_modify_local safe_try_finally, rule safe_mono [OF gated_body_free])
    (use assms in \<open>auto intro!: keeps_safe out_free\<close>)

lemma deliver_free:
  assumes "pending l = []" and "trace l = []"
  shows "safe (deliver_with_gates d) (\<lambda>_ l'. gates_free (trace l')) (\<lambda>_ l'. gates_free (trace l')) l"
  unfolding deliver_with_gates_def
  by (intro safe_bind safe_if safe_inputs safe_select_delivery safe_select_endpoint safe_acquire_lock safe_peek_head
      safe_case_option safe_seq safe_return safe_commands with_slot_and_lock_free keeps_safe out_free)
    (use assms in \<open>auto simp: gates_free_def spends_attempt_def slot_granted_def\<close>)

section \<open>What is acquired is released\<close>

definition released :: "action list \<Rightarrow> bool" where
  "released tr \<longleftrightarrow>
     (\<forall>p token. Lock_try p token True \<in> set tr \<longrightarrow> Lock_release p token \<in> set tr) \<and>
     (\<forall>t token. Slot_try t token True \<in> set tr \<longrightarrow> Slot_release t token \<in> set tr)"

text \<open>While the \<open>try\<close> block runs, the two variables hold every token granted so far.\<close>

definition locks_known :: "endpoint \<Rightarrow> string option \<Rightarrow> action list \<Rightarrow> bool" where
  "locks_known ep tok tr \<longleftrightarrow> (\<forall>p s. Lock_try p s True \<in> set tr \<longrightarrow> p = ep_id ep \<and> tok = Some s)"

definition slots_known :: "endpoint \<Rightarrow> action list \<Rightarrow> string option \<Rightarrow> bool" where
  "slots_known ep tr var \<longleftrightarrow> (\<forall>t s. Slot_try t s True \<in> set tr \<longrightarrow> t = ep_tenant_id ep \<and> var = Some s)"

definition no_slot :: "action list \<Rightarrow> bool" where
  "no_slot tr \<longleftrightarrow> (\<forall>t s. Slot_try t s True \<notin> set tr)"

lemma known_keeps:
  "keeps (\<lambda>tr v. locks_known ep tok tr \<and> no_slot tr) (check_gates dl ep now)"
  "keeps (\<lambda>tr v. locks_known ep tok tr \<and> slots_known ep tr (fst v)) (attempt_and_record d dl ep)"
  "keeps (\<lambda>tr v. locks_known ep tok tr \<and> no_slot tr) (gate_out dl ep r delay)"
  unfolding check_gates_def attempt_and_record_def process_delivery_def attempt_delivery_def record_attempt_def
    settle_delivery_def timedelta_seconds_def record_delivery_def gate_out_def defer_delivery_def Let_def
  by (intro keeps_intro; simp add: locks_known_def slots_known_def no_slot_def)+

lemma fst_vars [simp]: "fst (vars l) = slot_var l"
  by (simp add: vars_def)

lemma gated_body_known:
  assumes "locks_known ep tok (trace l)" and "no_slot (trace l)"
  shows "safe (gated_body d dl ep now)
    (\<lambda>_ l'. locks_known ep tok (trace l') \<and> slots_known ep (trace l') (slot_var l')) (\<lambda>_ _. True) l"
proof -
  let ?Q = "\<lambda>_ l'. locks_known ep tok (trace l') \<and> slots_known ep (trace l') (slot_var l')"
  have gates: "safe (check_gates dl ep now) (\<lambda>_ l'. locks_known ep tok (trace l') \<and> no_slot (trace l')) (\<lambda>_ _. True) l"
    by (rule safe_mono [OF keeps_safe [OF known_keeps(1)]]) (use assms in auto)
  have out: "safe (gate_out dl ep r delay) ?Q (\<lambda>_ _. True) l1"
    if "locks_known ep tok (trace l1)" "no_slot (trace l1)" for r delay l1
    by (rule safe_mono [OF keeps_safe [OF known_keeps(3)]]) (use that in \<open>auto simp: slots_known_def no_slot_def\<close>)
  have attempt: "safe (attempt_and_record d dl ep) ?Q (\<lambda>_ _. True) l1"
    if "locks_known ep tok (trace l1)" "slots_known ep (trace l1) (slot_var l1)" for l1
    by (rule safe_mono [OF keeps_safe [OF known_keeps(2)]]) (use that in auto)
  show ?thesis
    unfolding gated_body_def Let_def
    by (rule safe_bind_spec [OF gates], simp,
        intro safe_bind safe_case_prod safe_if safe_inputs safe_select_tenant_one safe_acquire_slot safe_case_option
          safe_seq safe_modify_local out attempt)
      (simp_all add: locks_known_def slots_known_def no_slot_def)
qed

lemma with_slot_and_lock_released:
  assumes "locks_known ep tok (trace l)" and "no_slot (trace l)"
  shows "safe (with_slot_and_lock d dl ep now tok) (\<lambda>_ l'. released (trace l')) (\<lambda>_ _. True) l"
proof -
  have fin: "safe (release_all ep tok) (\<lambda>_ l'. released (trace l')) (\<lambda>_ _. True) l1"
    if "locks_known ep tok (trace l1)" "slots_known ep (trace l1) (slot_var l1)" for l1
    unfolding release_all_def
    by (intro safe_bind safe_get_local safe_seq safe_case_option safe_return safe_commands)
      (use that in \<open>auto simp: released_def locks_known_def slots_known_def\<close>)
  have fin': "safe (release_all ep tok) (\<lambda>_ _. True) (\<lambda>_ _. True) l1" for l1
    by (rule safeI) simp_all
  show ?thesis
    unfolding with_slot_and_lock_def
    by (intro safe_seq safe_modify_local safe_try_finally, rule safe_mono [OF gated_body_known])
      (use assms fin fin' in auto)
qed

lemma deliver_released:
  assumes "loaded_deliveries l = []" and "loaded_endpoints l = []" and "trace l = []"
  shows "safe (deliver_with_gates d) (\<lambda>_ l'. released (trace l')) (\<lambda>_ _. True) l"
proof -
  have rel: "keeps (on_trace released) (gate_out dl ep r delay)" for dl ep r delay
    unfolding gate_out_def defer_delivery_def by (intro keeps_intro) (auto simp: released_def)
  have out: "safe (gate_out dl ep r delay) (\<lambda>_ l'. released (trace l')) (\<lambda>_ _. True) l1" if "released (trace l1)" for dl ep r delay l1
    by (rule safe_mono [OF keeps_safe [OF rel]]) (use that in auto)
  show ?thesis
    unfolding deliver_with_gates_def
    by (intro safe_bind safe_if safe_inputs safe_select_delivery safe_select_endpoint safe_acquire_lock safe_peek_head
        safe_case_option safe_seq safe_return safe_commands with_slot_and_lock_released out)
      (use assms in \<open>auto simp: released_def locks_known_def no_slot_def\<close>)
qed

section \<open>Entries\<close>

text \<open>Delivering never touches the stream's group, and never sleeps.\<close>

definition delivery_action :: "action \<Rightarrow> bool" where
  "delivery_action a = (case a of Xack _ _ \<Rightarrow> False | Xread _ _ \<Rightarrow> False | Xclaim _ _ \<Rightarrow> False | Xgroup _ \<Rightarrow> False
     | Slept _ \<Rightarrow> False | _ \<Rightarrow> True)"

lemma keeps_slot_var:
  assumes "\<And>tr s s' x. J tr (s, x) \<Longrightarrow> J tr (s', x)"
  shows "keeps J (modify_local (\<lambda>l. l\<lparr>slot_var := y\<rparr>))"
  using assms by (auto simp: keeps_def modify_local_def vars_def)

lemma deliver_keeps:
  assumes step: "\<And>a tr v. J tr v \<Longrightarrow> delivery_action a \<Longrightarrow> J (a # tr) v"
    and var: "\<And>tr s s' x. J tr (s, x) \<Longrightarrow> J tr (s', x)"
  shows "keeps J (deliver_with_gates d)"
proof -
  have out: "keeps J (gate_out dl ep r delay)" for dl ep r delay
    unfolding gate_out_def defer_delivery_def by (intro keeps_intro) (erule step, simp add: delivery_action_def)+
  have process: "keeps J (process_delivery d)"
    by (rule process_keeps, erule step) (auto simp: delivery_action_def split: action.splits)
  have attempt: "keeps J (attempt_and_record d dl ep)" for dl ep
    unfolding attempt_and_record_def
    by (rule keeps_bind [OF process], intro keeps_intro) (erule step, simp add: delivery_action_def)+
  have gates: "keeps J (check_gates dl ep now)" for dl ep now
    unfolding check_gates_def Let_def by (intro keeps_intro) (erule step, simp add: delivery_action_def)+
  have rel: "keeps J (release_all ep tok)" for ep tok
    unfolding release_all_def by (intro keeps_intro) (erule step, simp add: delivery_action_def)+
  have slot: "keeps J (seq (modify_local (\<lambda>l. l\<lparr>slot_var := y\<rparr>)) m)" if "keeps J m" for y and m :: "bool proc"
    by (intro keeps_seq keeps_slot_var that) (erule var)
  have body: "keeps J (gated_body d dl ep now)" for dl ep now
    unfolding gated_body_def Let_def
    by (intro keeps_bind keeps_case_prod keeps_if keeps_inputs keeps_selects keeps_limits keeps_case_option gates out
        slot attempt) (erule step, simp add: delivery_action_def)+
  have whole: "keeps J (with_slot_and_lock d dl ep now tok)" for dl ep now tok
    unfolding with_slot_and_lock_def by (intro slot keeps_try_finally body rel)
  show ?thesis
    unfolding deliver_with_gates_def
    by (intro keeps_bind keeps_if keeps_inputs keeps_selects keeps_locks keeps_case_option keeps_seq keeps_return out whole)
      (erule step, simp add: delivery_action_def)+
qed

text \<open>Handling an entry: the same, and possibly its acknowledgement.\<close>

lemma handle_keeps [keeps_intro]:
  assumes step: "\<And>a tr v. J tr v \<Longrightarrow> delivery_action a \<Longrightarrow> J (a # tr) v"
    and ack: "\<And>tr v. J tr v \<Longrightarrow> J (Xack key i # tr) v"
    and var: "\<And>tr s s' x. J tr (s, x) \<Longrightarrow> J tr (s', x)"
  shows "keeps J (handle_message key i flds)"
  unfolding handle_message_def xack_proc_def
  by (intro keeps_intro deliver_keeps) (erule (1) step | erule ack | erule var)+

definition no_ack :: "action list \<Rightarrow> bool" where
  "no_ack tr \<longleftrightarrow> (\<forall>k i. Xack k i \<notin> set tr)"

lemma no_ack_keeps: "keeps (on_trace no_ack) (deliver_with_gates d)"
  by (rule deliver_keeps) (auto simp: no_ack_def delivery_action_def)

text \<open>What delivering guarantees when it returns holds whenever the entry is acknowledged.\<close>

lemma handle_acknowledged:
  assumes "uuid_parse (f_delivery_id flds) = Some d" and "trace l = []"
    and deliver: "\<And>l1. loaded_deliveries l1 = [] \<Longrightarrow> loaded_endpoints l1 = [] \<Longrightarrow> trace l1 = []
      \<Longrightarrow> safe (deliver_with_gates d) (\<lambda>_ l'. P (trace l')) (\<lambda>_ _. True) l1"
    and ack: "\<And>tr. P tr \<Longrightarrow> P (Xack key i # tr)"
  shows "safe (handle_message key i flds)
    (\<lambda>_ l'. no_ack (trace l') \<or> P (trace l')) (\<lambda>_ l'. no_ack (trace l') \<or> P (trace l')) l"
proof -
  have inner: "safe (with_session (deliver_with_gates d))
      (\<lambda>_ l'. no_ack (trace l') \<and> P (trace l')) (\<lambda>_ l'. no_ack (trace l')) l"
    by (rule safe_with_session, rule safe_mono [OF safe_conj [OF keeps_safe [OF no_ack_keeps] deliver]])
      (use assms(2) in \<open>auto simp: no_ack_def clear_session_def\<close>)
  show ?thesis
    unfolding handle_message_def assms(1) option.case xack_proc_def
    by (intro safe_bind safe_try_except, rule safe_mono [OF inner])
      (auto intro!: safe_return safe_only_if safe_redis_unit simp: ack)
qed

lemma handle_accounted:
  assumes "uuid_parse (f_delivery_id flds) = Some d" and "trace l = []"
  shows "safe (handle_message key i flds)
    (\<lambda>_ l'. no_ack (trace l') \<or> accounted d (trace l')) (\<lambda>_ l'. no_ack (trace l') \<or> accounted d (trace l')) l"
  by (rule handle_acknowledged [OF assms deliver_accounted]) simp_all

lemma handle_released:
  assumes "uuid_parse (f_delivery_id flds) = Some d" and "trace l = []"
  shows "safe (handle_message key i flds)
    (\<lambda>_ l'. no_ack (trace l') \<or> released (trace l')) (\<lambda>_ l'. no_ack (trace l') \<or> released (trace l')) l"
  by (rule handle_acknowledged [OF assms deliver_released]) (simp_all add: released_def)

lemma handle_free:
  assumes "uuid_parse (f_delivery_id flds) = Some d" and "trace l = []"
  shows "safe (handle_message key i flds) (\<lambda>_ l'. gates_free (trace l')) (\<lambda>_ l'. gates_free (trace l')) l"
proof -
  have inner: "safe (with_session (deliver_with_gates d)) (\<lambda>_ l. gates_free (trace l)) (\<lambda>_ l. gates_free (trace l)) l"
    by (rule safe_with_session, rule safe_mono [OF deliver_free]) (use assms(2) in \<open>simp_all add: clear_session_def\<close>)
  have ack: "gates_free tr \<Longrightarrow> gates_free (Xack key i # tr)" for tr
    by (simp add: gates_free_def slot_granted_def spends_attempt_def)
  show ?thesis
    unfolding handle_message_def assms(1) option.case xack_proc_def
    by (intro safe_bind safe_try_except, rule safe_mono [OF inner])
      (auto intro!: safe_return safe_only_if safe_redis_unit ack)
qed

section \<open>The loops survive\<close>

text \<open>What may escape from handling an entry: cancellation, death, a failed acknowledgement, or
  the parse of an identifier no producer writes.\<close>

definition entry_exns :: "exn set" where "entry_exns = insert Value_error redis_exns"

lemma safe_trivial: "safe m (\<lambda>_ _. True) (\<lambda>_ _. True) l"
  by (rule safeI) simp_all

lemma redis_entry [simp]: "e \<in> redis_exns \<Longrightarrow> e \<in> entry_exns" "Value_error \<notin> redis_exns" "Redis_error \<in> entry_exns"
  by (auto simp: entry_exns_def redis_exns_def)

text \<open>The process was handed an entry whose identifier does not parse.\<close>

definition unreadable :: "action list \<Rightarrow> bool" where
  "unreadable tr \<longleftrightarrow> (\<exists>key ms i flds. (Xread key ms \<in> set tr \<or> Xclaim key ms \<in> set tr) \<and> (i, flds) \<in> set ms \<and>
     uuid_parse (f_delivery_id flds) = None)"

definition entry_escape :: "exn \<Rightarrow> local_state \<Rightarrow> bool" where
  "entry_escape e l \<longleftrightarrow> e \<in> entry_exns \<and> (e = Value_error \<longrightarrow> unreadable (trace l))"

lemma entry_escape_redis [simp]: "e \<in> redis_exns \<Longrightarrow> entry_escape e l" "entry_escape Redis_error l"
  by (auto simp: entry_escape_def)

lemma handle_escapes:
  assumes "given \<in> set (trace l)"
  shows "safe (handle_message key i flds) (\<lambda>_ l'. given \<in> set (trace l'))
    (\<lambda>e l'. e \<in> entry_exns \<and> (e = Value_error \<longrightarrow> uuid_parse (f_delivery_id flds) = None) \<and> given \<in> set (trace l')) l"
proof -
  have inner: "safe (try_except (bind (with_session (deliver_with_gates d)) (\<lambda>b. return (Some b))) (\<lambda>exc. return None))
      (\<lambda>_ _. True) (\<lambda>e _. e \<in> entry_exns \<and> e \<noteq> Value_error) l1" for d l1
    by (rule safe_try_except, rule safe_mono [OF safe_trivial])
      (auto simp: is_exception_def entry_exns_def redis_exns_def intro: safe_return)
  have escapes: "safe (handle_message key i flds) (\<lambda>_ _. True)
      (\<lambda>e _. e \<in> entry_exns \<and> (e = Value_error \<longrightarrow> uuid_parse (f_delivery_id flds) = None)) l"
    unfolding handle_message_def xack_proc_def
    by (intro safe_case_option safe_raise, simp add: entry_exns_def, rule safe_bind_spec [OF inner], simp)
      (auto intro!: safe_case_option safe_return safe_only_if safe_redis_unit)
  have "keeps (on_trace (\<lambda>tr. given \<in> set tr)) (handle_message key i flds)"
    by (rule handle_keeps) auto
  from safe_conj [OF escapes keeps_safe [OF this assms]] show ?thesis by (rule safe_mono) auto
qed

lemma handle_all_escapes:
  assumes "Xread key' ms \<in> set (trace l) \<or> Xclaim key' ms \<in> set (trace l)"
  shows "safe (for_each ms (\<lambda>(i, flds). handle_message key i flds)) (\<lambda>_ _. True) entry_escape l"
proof -
  obtain given where given: "given \<in> {Xread key' ms, Xclaim key' ms}" "given \<in> set (trace l)" using assms by blast
  have "safe (for_each ms (\<lambda>(i, flds). handle_message key i flds)) (\<lambda>_ l'. given \<in> set (trace l')) entry_escape l"
  proof (rule safe_for_each)
    show "safe (case x of (i, flds) \<Rightarrow> handle_message key i flds) (\<lambda>_ l'. given \<in> set (trace l')) entry_escape l1"
      if "x \<in> set ms" "given \<in> set (trace l1)" for x l1
    proof -
      obtain i flds where x: "x = (i, flds)" by (cases x)
      show ?thesis
        unfolding x prod.case
        by (rule safe_mono [OF handle_escapes [OF that(2)]])
          (use that(1) given(1) x in \<open>auto simp: entry_escape_def unreadable_def\<close>)
    qed
  qed (use given(2) in simp)
  then show ?thesis by (rule safe_mono) auto
qed

lemma reclaim_escapes: "safe (reclaim_loop fuel key c cursor n) (\<lambda>_ _. True) entry_escape l"
proof (induction fuel arbitrary: cursor n l)
  case 0
  then show ?case by (simp add: safe_return)
next
  case (Suc fuel)
  have claim: "safe (xautoclaim_proc key c t i k) (\<lambda>x l'. Xclaim key (snd x) \<in> set (trace l')) entry_escape l1" for t i k l1
    unfolding xautoclaim_proc_def
    by (intro safe_bind safe_redis safe_case_option safe_raise safe_return) auto
  show ?case
    unfolding reclaim_loop.simps
    by (rule safe_bind_spec [OF claim], assumption, intro safe_case_prod safe_seq, rule safe_mono [OF handle_all_escapes])
      (auto intro!: safe_if safe_return Suc.IH)
qed

lemma safe_except_redis:
  "safe m Q (\<lambda>e l'. if e \<in> {Redis_error, Os_error} then safe h Q E l' else E e l') l \<Longrightarrow> safe (except_redis m h) Q E l"
  unfolding safe_def except_redis_def by (fastforce split: prod.splits sum.splits if_splits)

text \<open>Of a round only cancellation, death and an unreadable identifier escape.\<close>

definition round_escape :: "exn \<Rightarrow> local_state \<Rightarrow> bool" where
  "round_escape e l \<longleftrightarrow> e \<in> {Cancelled, Died} \<or> (e = Value_error \<and> unreadable (trace l))"

lemma round_escape_simps [simp]:
  "entry_escape e l \<Longrightarrow> e \<noteq> Redis_error \<Longrightarrow> e \<noteq> Os_error \<Longrightarrow> round_escape e l"
  "\<not> is_exception e \<Longrightarrow> round_escape e l" "e \<in> redis_exns \<Longrightarrow> is_exception e \<or> round_escape e l"
  by (auto simp: round_escape_def entry_escape_def entry_exns_def redis_exns_def is_exception_def)

lemma recover_escapes: "safe (seq (backoff m) (suppress (ensure_group shard))) (\<lambda>_ _. True) round_escape l"
proof -
  have exn: "round_escape (http_exn e) l1" for e l1 by (simp add: http_exn_def round_escape_def)
  have sleep: "safe (sleep d) (\<lambda>_ _. True) round_escape l1" for d l1
    unfolding sleep_def by (rule safe_effect) (auto simp: exn)
  have backoff: "safe (backoff m) (\<lambda>_ _. True) round_escape l"
    unfolding backoff_def by (intro safe_bind safe_get_local safe_seq, rule safe_mono [OF sleep]) (auto intro: safe_modify_local)
  have ensure: "safe (suppress (ensure_group shard)) (\<lambda>_ _. True) round_escape l1" for l1
    unfolding suppress_def ensure_group_def
    by (intro safe_try_except safe_redis_unit) (auto intro: safe_return simp: round_escape_def redis_exns_def is_exception_def)
  show ?thesis
    by (rule safe_seq, rule safe_mono [OF backoff]) (auto intro: ensure)
qed

lemma round_escapes: "safe (consume_round fuel shard c) (\<lambda>_ _. True) round_escape l"
proof -
  have read: "safe (xreadgroup_proc key c) (\<lambda>ms l'. Xread key ms \<in> set (trace l')) entry_escape l1" for key l1
    unfolding xreadgroup_proc_def
    by (intro safe_bind safe_redis safe_case_option safe_raise safe_return) auto
  have reclaim: "safe (reclaim_stale fuel key c) (\<lambda>_ _. True) entry_escape l1" for key l1
    unfolding reclaim_stale_def by (rule reclaim_escapes)
  have body: "safe (xreadgroup_proc key c) (\<lambda>messages. safe (seq (modify_local (\<lambda>l. l\<lparr>delay_var := d\<rparr>))
            (for_each messages (\<lambda>(message_id, flds). handle_message key message_id flds))) (\<lambda>_ _. True) entry_escape)
      entry_escape l1" for key d l1
    by (rule safe_mono [OF read]) (auto intro!: safe_seq safe_modify_local handle_all_escapes)
  have "safe (read_and_handle fuel shard c) (\<lambda>_ _. True) entry_escape l"
    unfolding read_and_handle_def loop_time_def
    by (intro safe_bind safe_inputs safe_get_local safe_seq safe_only_if, rule safe_mono [OF reclaim])
      (auto intro!: safe_return safe_bind safe_inputs safe_modify_local body)
  then show ?thesis
    unfolding consume_round_def
    by (intro safe_except_redis, elim safe_mono) (auto intro!: recover_escapes)
qed

lemma rounds_escape: "safe (consume_rounds n fuel shard c) (\<lambda>_ _. True) round_escape l"
proof (induction n arbitrary: l)
  case (Suc n)
  then show ?case
    by (auto intro!: safe_seq safe_mono [OF round_escapes])
qed (simp add: safe_return)

lemma consume_escapes: "safe (consume_shard n fuel shard c) (\<lambda>_ _. True) round_escape l"
  unfolding consume_shard_def loop_time_def
  by (intro safe_seq safe_modify_local safe_bind safe_inputs rounds_escape)

text \<open>A round whose reading failed pauses before it ends, for the delay of that moment, and doubles it.\<close>

lemma failed_round_pauses:
  assumes "read_and_handle fuel shard c w = (Inl e, w1)" and "e \<in> {Redis_error, Os_error}"
    and "consume_round fuel shard c w = (Inr u, w2)"
  shows "\<exists>tr. trace (w_loc w2) = tr @ Slept (delay_var (w_loc w1)) # trace (w_loc w1) \<and> set tr \<subseteq> {Xgroup (stream_key shard)} \<and>
    delay_var (w_loc w2) = min (delay_var (w_loc w1) * 2) 10"
proof -
  let ?d = "delay_var (w_loc w1)"
  have slept: "trace (w_loc w3) = Slept ?d # trace (w_loc w1) \<and> delay_var (w_loc w3) = min (?d * 2) 10"
    if "backoff RECONNECT_MAX_DELAY_S w1 = (Inr u', w3)" for u' w3
    using that
    by (auto simp: backoff_def sleep_def effect_def bind_def seq_def get_local_def modify_local_def log_action_def logged_def
        RECONNECT_MAX_DELAY_S_def Let_def split: list.splits fault.splits prod.splits)
  have group: "\<exists>tr. trace (w_loc w4) = tr @ trace (w_loc w3) \<and> set tr \<subseteq> {Xgroup (stream_key shard)} \<and> delay_var (w_loc w4) = delay_var (w_loc w3)"
    if "suppress (ensure_group shard) w3 = (Inr u', w4)" for u' w3 w4
    using that
    by (auto simp: suppress_def try_except_def ensure_group_def redis_unit_def redis_def effect_def return_def log_action_def logged_def
        Let_def split: list.splits fault.splits prod.splits if_splits sum.splits)
  show ?thesis
    using assms slept group
    by (fastforce simp: consume_round_def except_redis_def seq_def bind_def split: prod.splits sum.splits)
qed

text \<open>Every pause between reconnections lies between the two bounds.\<close>

definition pauses_ok :: "action list \<Rightarrow> string option \<times> rat \<times> rat \<Rightarrow> bool" where
  "pauses_ok tr v \<longleftrightarrow> 1 / 2 \<le> fst (snd v) \<and> fst (snd v) \<le> 10 \<and> (\<forall>d. Slept d \<in> set tr \<longrightarrow> 1 / 2 \<le> d \<and> d \<le> 10)"

lemma delay_vars [simp]: "fst (snd (vars l)) = delay_var l"
  by (simp add: vars_def)

lemma pauses_other: "pauses_ok tr v \<Longrightarrow> (\<And>d. a \<noteq> Slept d) \<Longrightarrow> pauses_ok (a # tr) v"
  by (auto simp: pauses_ok_def)

lemma keeps_except_redis [keeps_intro]: "keeps J m \<Longrightarrow> keeps J h \<Longrightarrow> keeps J (except_redis m h)"
  unfolding keeps_def except_redis_def by (fastforce split: prod.splits sum.splits if_splits)

lemma backoff_pauses: "keeps pauses_ok (backoff RECONNECT_MAX_DELAY_S)"
proof -
  have sleep: "keeps (\<lambda>tr v. pauses_ok tr v \<and> delay = fst (snd v)) (sleep delay)" for delay
    unfolding sleep_def by (rule keeps_effect) (auto simp: log_action_def pauses_ok_def)
  show ?thesis
    unfolding keeps_def
  proof (intro allI impI)
    fix w r w'
    assume run: "backoff RECONNECT_MAX_DELAY_S w = (r, w')" and ok: "pauses_ok (trace (w_loc w)) (vars (w_loc w))"
    obtain r1 w1 where slept: "sleep (delay_var (w_loc w)) w = (r1, w1)" by (rule prod.exhaust)
    have "pauses_ok (trace (w_loc w1)) (vars (w_loc w1))"
      using keepsD [OF sleep slept] ok by simp
    then show "pauses_ok (trace (w_loc w')) (vars (w_loc w'))"
      using run slept
      by (cases r1) (auto simp: backoff_def bind_def get_local_def seq_def modify_local_def pauses_ok_def RECONNECT_MAX_DELAY_S_def)
  qed
qed

lemma handle_pauses: "keeps pauses_ok (handle_message key i flds)"
  by (rule handle_keeps) (auto simp: pauses_ok_def delivery_action_def)

lemma reclaim_pauses: "keeps pauses_ok (reclaim_loop fuel key c cursor n)"
proof (induction fuel arbitrary: cursor n)
  case (Suc fuel)
  show ?case
    unfolding reclaim_loop.simps xautoclaim_proc_def
    by (intro keeps_bind keeps_redis keeps_case_option keeps_raise keeps_return keeps_case_prod keeps_seq keeps_for_each
        keeps_if handle_pauses Suc) (auto intro: pauses_other)
qed (simp add: keeps_return)

lemma round_pauses: "keeps pauses_ok (consume_round fuel shard c)"
proof -
  have delay: "keeps pauses_ok (modify_local (\<lambda>l. l\<lparr>delay_var := RECONNECT_BASE_DELAY_S\<rparr>))"
    by (simp add: keeps_def modify_local_def pauses_ok_def RECONNECT_BASE_DELAY_S_def)
  have upcoming: "keeps pauses_ok (modify_local (\<lambda>l. l\<lparr>next_var := t\<rparr>))" for t
    by (simp add: keeps_def modify_local_def pauses_ok_def)
  show ?thesis
    unfolding consume_round_def read_and_handle_def loop_time_def reclaim_stale_def xreadgroup_proc_def suppress_def ensure_group_def
    by (intro keeps_except_redis keeps_bind keeps_inputs keeps_seq keeps_only_if keeps_return keeps_redis keeps_case_option keeps_raise
        keeps_for_each keeps_case_prod keeps_try_except keeps_redis_unit reclaim_pauses handle_pauses delay upcoming backoff_pauses)
      (auto intro: pauses_other)
qed

lemma rounds_pauses: "keeps pauses_ok (consume_rounds n fuel shard c)"
  by (induction n) (simp_all add: keeps_return keeps_seq round_pauses)

lemma consume_pauses:
  assumes "trace l = []"
  shows "safe (consume_shard n fuel shard c)
    (\<lambda>_ l'. pauses_ok (trace l') (vars l')) (\<lambda>_ l'. pauses_ok (trace l') (vars l')) l"
  unfolding consume_shard_def loop_time_def
  by (intro safe_seq safe_modify_local safe_bind safe_inputs keeps_safe rounds_pauses)
    (use assms in \<open>simp add: pauses_ok_def RECONNECT_BASE_DELAY_S_def\<close>)

section \<open>One task per shard\<close>

definition one_task_each :: "int set \<Rightarrow> supervisor \<Rightarrow> bool" where
  "one_task_each shards s \<longleftrightarrow> distinct (map fst (sup_tasks s)) \<and> (\<forall>t \<in> set (sup_tasks s). fst t < sup_next s) \<and>
     distinct (map snd (sup_tasks s)) \<and> snd ` set (sup_tasks s) = shards"

lemma spawn_one:
  assumes "one_task_each shards s" and "shard \<notin> shards"
  shows "one_task_each (insert shard shards) (spawn shard s)"
  using assms unfolding one_task_each_def spawn_def by (force simp: less_Suc_eq)

lemma reap_one:
  assumes "one_task_each shards s"
  shows "one_task_each shards (reap False s task)"
proof (cases "map_of (sup_tasks s) task")
  case None
  then show ?thesis using assms by (simp add: reap_def)
next
  case (Some shard)
  let ?s = "s\<lparr>sup_tasks := filter (\<lambda>p. fst p \<noteq> task) (sup_tasks s)\<rparr>"
  have mem: "(task, shard) \<in> set (sup_tasks s)" using Some by (rule map_of_SomeD)
  have others: "snd ` set (sup_tasks ?s) = shards - {shard}"
  proof (intro equalityI subsetI)
    fix x assume "x \<in> snd ` set (sup_tasks ?s)"
    then obtain t where t: "(t, x) \<in> set (sup_tasks s)" "t \<noteq> task" by auto
    then have "x \<noteq> shard"
      using assms mem unfolding one_task_each_def by (force simp: distinct_map inj_on_def)
    then show "x \<in> shards - {shard}" using t(1) assms unfolding one_task_each_def by force
  next
    fix x assume x: "x \<in> shards - {shard}"
    then obtain t where t: "(t, x) \<in> set (sup_tasks s)" using assms unfolding one_task_each_def by force
    then have "t \<noteq> task"
      using x assms mem unfolding one_task_each_def by (force simp: distinct_map inj_on_def)
    then show "x \<in> snd ` set (sup_tasks ?s)" using t by force
  qed
  have "one_task_each (shards - {shard}) ?s"
    using assms unfolding one_task_each_def others
    by (auto simp: distinct_map intro: inj_on_subset)
  then have "one_task_each (insert shard (shards - {shard})) (spawn shard ?s)"
    by (rule spawn_one) simp
  moreover have "insert shard (shards - {shard}) = shards"
    using mem assms unfolding one_task_each_def by force
  ultimately show ?thesis using Some by (simp add: reap_def Let_def)
qed

lemma round_one: "one_task_each shards s \<Longrightarrow> one_task_each shards (supervise_round False finished s)"
  unfolding supervise_round_def by (induction finished arbitrary: s) (simp_all add: reap_one)

lemma start_one: "one_task_each {0..<shards} (start_shards shards)"
proof -
  have "one_task_each (S \<union> set xs) (foldl (\<lambda>s shard. spawn shard s) s xs)"
    if "one_task_each S s" "distinct xs" "S \<inter> set xs = {}" for S s and xs :: "int list"
    using that
  proof (induction xs arbitrary: S s)
    case (Cons x xs)
    have "one_task_each (insert x S) (spawn x s)" by (rule spawn_one) (use Cons.prems in auto)
    from Cons.IH [OF this] Cons.prems show ?case by auto
  qed simp
  from this [of "{}" "\<lparr>sup_tasks = [], sup_next = 0\<rparr>" "[0..shards - 1]"]
  moreover have "{0..<shards} = set [0..shards - 1]" by auto
  ultimately show ?thesis
    unfolding start_shards_def by (simp add: one_task_each_def)
qed

end
