(* ===== verification/Worker_Runs.thy ===== *)
theory Worker_Runs
  imports Worker_Safety
begin

text \<open>
  Symbolic execution of the worker: the lemma collections that run a process step by step in
  a world whose oracle is empty, and the concrete worlds the witnesses run in.
\<close>

section \<open>Worlds\<close>

text \<open>A world to run in: Redis is empty, no call fails, and nobody interferes.\<close>

definition quiet_shared :: "db \<Rightarrow> shared" where
  "quiet_shared d =
    \<lparr>sh_now = 0, sh_db = d, sh_streams = (\<lambda>_. empty_stream), sh_retries = [],
     sh_breakers = (\<lambda>_. no_breaker), sh_queues = (\<lambda>_. []), sh_locks = (\<lambda>_. None), sh_buckets = (\<lambda>_. None),
     sh_inflight = (\<lambda>_. None), sh_claims = (\<lambda>_. None), sh_daily = (\<lambda>_. None), sh_published = []\<rparr>"

definition quiet_local :: local_state where
  "quiet_local =
    \<lparr>pending = [], loaded_deliveries = [], loaded_endpoints = [], trace = [], metrics = [], draws = 0, session_broken = False,
     slot_var = None, delay_var = 0, next_var = 0\<rparr>"

definition quiet_inputs :: "http_reply \<Rightarrow> inputs" where
  "quiet_inputs reply =
    \<lparr>in_cfg = default_settings, in_uuids = of_nat, in_tokens = str_int \<circ> int, in_randoms = (\<lambda>_. 0), in_replies = (\<lambda>_. (reply, 0)), in_skew = 0\<rparr>"

definition quiet_world :: "db \<Rightarrow> http_reply \<Rightarrow> world" where
  "quiet_world d reply = \<lparr>w_sh = quiet_shared d, w_loc = quiet_local, w_in = quiet_inputs reply, w_oracle = []\<rparr>"

lemma quiet_trace [simp]: "trace (w_loc (quiet_world d reply)) = []"
  by (simp add: quiet_world_def quiet_local_def)

definition demo_db :: "ordering_mode \<Rightarrow> delivery_status \<Rightarrow> db" where
  "demo_db mode status = empty_db
    \<lparr>tenants := [\<lparr>t_id = 1, t_name = ''acme'', t_api_key_hash = ''h'', t_rate_per_sec = None, t_max_inflight = None, t_created_at = 0\<rparr>],
     endpoints := [\<lparr>ep_id = 2, ep_tenant_id = 1, ep_url = ''http://sink/'', ep_signing_secret = ''s'', ep_ordering = mode,
       ep_status = Active, ep_event_types = [], ep_created_at = 0\<rparr>],
     events := [\<lparr>ev_id = 3, ev_tenant_id = 1, ev_event_type = ''order.created'', ev_payload = JNull, ev_idempotency_key = None,
       ev_created_at = 0\<rparr>],
     deliveries := [\<lparr>d_id = 4, d_event_id = 3, d_endpoint_id = 2, d_status = status, d_attempt_count = 0,
       d_next_attempt_at = None, d_created_at = 0, d_updated_at = 0\<rparr>]\<rparr>"

definition demo_fields :: fields where
  "demo_fields = \<lparr>f_delivery_id = uuid_str 4, f_event_id = uuid_str 3, f_endpoint_id = uuid_str 2\<rparr>"

definition ok_reply :: http_reply where
  "ok_reply = Inr \<lparr>rs_status = 200, rs_text = [], rs_retry_after = None\<rparr>"

text \<open>Delivery 4 to the ordered endpoint 2, alone in its queue.\<close>

definition demo_world :: "http_reply \<Rightarrow> world" where
  "demo_world reply = quiet_world (demo_db Ordered Pending) reply
     \<lparr>w_sh := (quiet_shared (demo_db Ordered Pending))\<lparr>sh_queues := (\<lambda>_. [uuid_str 4])\<rparr>\<rparr>"

lemma demo_local [simp]: "w_loc (demo_world reply) = quiet_local"
  by (simp add: demo_world_def quiet_world_def)

lemma quiet_local_trace [simp]: "trace quiet_local = []"
  by (simp add: quiet_local_def)

section \<open>Running a process\<close>

text \<open>The simplifier runs a process from the outside in: the congruence rules keep it from
  rewriting a continuation before its argument is known.\<close>

lemmas run_simps = bind_def seq_def return_def raise_def only_if_def try_except_def try_finally_def effect_def redis_def redis_unit_def
  query_def commit_def add_pending_def modify_local_def get_local_def with_session_def settings_of_def time_time_def db_now_def
  uuid4_def random_draw_def next_draw_def reply_input_def http_post_def count_metric_def log_action_def logged_def clear_session_def
  calm_event_def advance_def
lemmas io_simps = load_delivery_def load_endpoint_def option_map_proc_def select_delivery_def select_endpoint_def select_event_def
  select_tenant_one_def refresh_delivery_def assign_delivery_def assign_endpoint_def allow_request_def take_token_def acquire_slot_def
  acquire_lock_def release_lock_def peek_head_def pop_head_def
  send_delivery_def record_outcome_def release_slot_def schedule_retry_def should_auto_disable_def
lemmas worker_simps = deliver_with_gates_def with_slot_and_lock_def gated_body_def check_gates_def attempt_and_record_def
  process_delivery_def attempt_delivery_def record_attempt_def settle_delivery_def attempt_row_def release_all_def gate_out_def defer_delivery_def
  handle_message_def xack_proc_def record_delivery_def timedelta_seconds_def
lemmas quiet_simps = quiet_world_def quiet_shared_def quiet_local_def quiet_inputs_def default_settings_def

lemma run_cong: "bind m f = bind m f" "seq m k = seq m k" "try_except m h = try_except m h" "try_finally m k = try_finally m k"
  "only_if b k = only_if b k" "effect co g = effect co g" "redis act g2 = redis act g2" "redis_unit a g3 = redis_unit a g3" "query act2 q = query act2 q"
  "with_session m = with_session m" "modify_local g4 = modify_local g4"
  by (rule refl)+

lemma quiet_scripts [simp]:
  "allow_request_hash now no_hash = ((Allow, Closed), no_hash)"
  "acquire_lock_key token 0 None = (True, Some (token, Some 30))"
  "release_lock_key token 0 (Some (token, Some 30)) = None"
  "peek_head_list [uuid_str d] = Some (Some d)" "pop_head_list d [uuid_str d] = (True, [])"
  "take_token_key 50 0 0 None = (True, Some (\<lparr>bk_tokens = 49, bk_updated_at = 0\<rparr>, Some 60))"
  "acquire_slot_key 20 0 token 0 None = (True, Some ([(token, 60)], Some 120))"
  "release_slot_key token 0 (Some ([(token, 60)], Some 120)) = None"
  "record_outcome_keys e True 0 m 0 no_breaker = (\<lparr>or_state = Closed, or_consecutive = 0, or_transitioned = False\<rparr>, [], 
     no_breaker\<lparr>br_hash := no_hash\<lparr>h_consecutive := Some 0\<rparr>, br_attempts := Some ([(m, 0)], Some 600)\<rparr>)"
  by (simp_all add: allow_request_hash_def ALLOW_REQUEST_LUA_def state_or_closed_def no_hash_def take_token_key_def TOKEN_BUCKET_LUA_def
    expire_def acquire_slot_key_def ACQUIRE_SLOT_LUA_def zkey_map_def zrem_upto_def zadd_def zrem_def acquire_lock_key_def release_lock_key_def set_nx_def
    RELEASE_LOCK_LUA_def lock_ttl_def LOCK_TTL_MS_def peek_head_list_def pop_head_list_def SLOT_TTL_SECONDS_def
    release_slot_key_def zkey_get_def record_outcome_keys_def RECORD_OUTCOME_LUA_def no_breaker_def breaker_constants Let_def)

lemma no_breaker_fields: "br_hash no_breaker = no_hash"
  "no_breaker\<lparr>br_hash := no_hash\<rparr> = no_breaker"
  by (simp_all add: no_breaker_def)

lemma quiet_replies: "succeeded (attempt_result_of 0 (Inr \<lparr>rs_status = 200, rs_text = [], rs_retry_after = None\<rparr>))"
  "r_latency_ms (attempt_result_of 0 (Inr \<lparr>rs_status = 200, rs_text = [], rs_retry_after = None\<rparr>)) = 0"
  "r_http_status (attempt_result_of 0 (Inr \<lparr>rs_status = 200, rs_text = [], rs_retry_after = None\<rparr>)) = Some 200"
  "r_response_snippet (attempt_result_of 0 (Inr \<lparr>rs_status = 200, rs_text = [], rs_retry_after = None\<rparr>)) = Some []"
  by (simp_all add: succeeded_def attempt_result_of_def classify_status_def int_of_float_def)

lemma demo_run:
  "\<exists>w' rq. handle_message ''relay:deliveries:0'' (Sid 1 0) demo_fields (demo_world ok_reply) = (Inr (), w') \<and>
     Posted rq ok_reply \<in> set (trace (w_loc w')) \<and> Lock_try 2 (uuid_hex 0) True \<in> set (trace (w_loc w')) \<and>
     Slot_try 1 (uuid_hex 1) True \<in> set (trace (w_loc w')) \<and> Xack ''relay:deliveries:0'' (Sid 1 0) \<in> set (trace (w_loc w'))"
  by (simp add: run_simps io_simps worker_simps quiet_simps demo_db_def demo_fields_def ok_reply_def empty_db_def Let_def demo_world_def
      find_by_def update_by_def no_breaker_fields crossing_event_def quiet_replies xack_def empty_stream_def or_default_def storable_simps
      cong: run_cong)

end
