(* ===== verification/Worker_Properties.thy ===== *)
theory Worker_Properties
  imports Worker_Runs
begin

text \<open>
  The properties of the worker: what its traces guarantee under every failure and
  interference, and what a quiet run computes.
\<close>

lemma parse_of_str: "f_delivery_id flds = uuid_str d \<Longrightarrow> uuid_parse (f_delivery_id flds) = Some d"
  by simp

lemma handle_guarded:
  assumes "uuid_parse (f_delivery_id flds) = Some d" and "trace l = []"
  shows "safe (handle_message key i flds) (\<lambda>_ l. sends_guarded d (trace l)) (\<lambda>_ l. sends_guarded d (trace l)) l"
proof -
  have inner: "safe (with_session (deliver_with_gates d)) (\<lambda>_ l. sends_guarded d (trace l)) (\<lambda>_ l. sends_guarded d (trace l)) l"
    by (rule safe_with_session, rule safe_mono [OF deliver_guarded]) (use assms(2) in \<open>simp_all add: clear_session_def\<close>)
  show ?thesis
    unfolding handle_message_def assms(1) option.case xack_proc_def
    by (intro safe_bind safe_try_except, rule safe_mono [OF inner])
      (auto intro!: safe_return safe_only_if safe_redis_unit)
qed

lemma demo_trace:
  obtains tr rq where "trace (w_loc (snd (handle_message ''relay:deliveries:0'' (Sid 1 0) demo_fields (demo_world ok_reply)))) = tr"
    and "Posted rq ok_reply \<in> set tr" and "Lock_try 2 (uuid_hex 0) True \<in> set tr"
    and "Slot_try 1 (uuid_hex 1) True \<in> set tr" and "Xack ''relay:deliveries:0'' (Sid 1 0) \<in> set tr"
  using demo_run by fastforce

lemma demo_parse: "uuid_parse (f_delivery_id demo_fields) = Some 4"
  by (simp add: demo_fields_def)

text \<open>C1: handling a stream entry sends a request for its delivery only after every gate: the
  delivery was read unsettled and its endpoint active, the endpoint's breaker did not answer
  "deny", the tenant's bucket granted a token, a slot of the tenant is held and not yet
  released, and if the endpoint is ordered its lock is held and the delivery is the queue's
  head (or the queue is empty); whatever fails and whatever other processes do meanwhile.\<close>

theorem requests_pass_the_gates:
  assumes "uuid_parse (f_delivery_id flds) = Some d" and "trace (w_loc w) = []"
  shows "sends_guarded d (trace (w_loc (snd (handle_message key i flds w))))"
  by (rule snd_run [OF handle_guarded [OF assms]])

theorem requests_pass_the_gates_witness:
  "\<exists>tr rq. trace (w_loc (snd (handle_message ''relay:deliveries:0'' (Sid 1 0) demo_fields (demo_world ok_reply)))) = tr \<and>
     Posted rq ok_reply \<in> set tr \<and> sends_guarded 4 tr"
  using demo_trace requests_pass_the_gates [OF demo_parse, of "demo_world ok_reply"]
  by (metis demo_local quiet_local_trace)

text \<open>C3: a stream entry is acknowledged only once its delivery is accounted for: a retry is on
  the queue, or a row that says "delivered" or "dead" was committed or read, or the delivery,
  its event or its endpoint is gone, or the endpoint is not active.  A failure or a crash at
  any call leaves the entry pending instead.\<close>

theorem acknowledged_is_accounted:
  assumes "uuid_parse (f_delivery_id flds) = Some d" and "trace (w_loc w) = []"
    and "Xack k j \<in> set (trace (w_loc (snd (handle_message key i flds w))))"
  shows "accounted d (trace (w_loc (snd (handle_message key i flds w))))"
  using snd_run [OF handle_accounted [OF assms(1,2)]] assms(3) by (auto simp: no_ack_def)

theorem acknowledged_is_accounted_witness:
  "accounted 4 (trace (w_loc (snd (handle_message ''relay:deliveries:0'' (Sid 1 0) demo_fields (demo_world ok_reply)))))"
  by (rule demo_trace, rule acknowledged_is_accounted [OF demo_parse]) simp_all

text \<open>C15: by the time an entry is acknowledged, every ordering lock and every in-flight slot its
  handling acquired has been released again.\<close>

theorem acknowledged_released_everything:
  assumes "uuid_parse (f_delivery_id flds) = Some d" and "trace (w_loc w) = []"
    and "Xack k j \<in> set (trace (w_loc (snd (handle_message key i flds w))))"
  shows "released (trace (w_loc (snd (handle_message key i flds w))))"
  using snd_run [OF handle_released [OF assms(1,2)]] assms(3) by (auto simp: no_ack_def)

theorem acknowledged_released_everything_witness:
  "Lock_release 2 (uuid_hex 0) \<in> set (trace (w_loc (snd (handle_message ''relay:deliveries:0'' (Sid 1 0) demo_fields (demo_world ok_reply)))))"
proof (rule demo_trace)
  fix tr rq
  assume tr: "trace (w_loc (snd (handle_message ''relay:deliveries:0'' (Sid 1 0) demo_fields (demo_world ok_reply)))) = tr"
    and lock: "Lock_try 2 (uuid_hex 0) True \<in> set tr" and ack: "Xack ''relay:deliveries:0'' (Sid 1 0) \<in> set tr"
  have "released tr"
    using acknowledged_released_everything [OF demo_parse, of "demo_world ok_reply"] tr ack by auto
  then show ?thesis using tr lock by (simp add: released_def)
qed

text \<open>C16: a delivery the gates turn away costs nothing: unless an in-flight slot was granted, the
  handling of its entry sends no request and commits no change to any delivery or attempt, so
  the attempt budget is untouched.\<close>

theorem gated_delivery_is_free:
  assumes "uuid_parse (f_delivery_id flds) = Some d" and "trace (w_loc w) = []"
    and "\<And>t token. Slot_try t token True \<notin> set (trace (w_loc (snd (handle_message key i flds w))))"
    and "a \<in> set (trace (w_loc (snd (handle_message key i flds w))))"
  shows "\<not> spends_attempt a"
proof -
  have "\<not> list_ex slot_granted (trace (w_loc (snd (handle_message key i flds w))))"
    using assms(3) by (auto simp: list_ex_iff slot_granted_def split: action.splits)
  then show ?thesis
    using snd_run [OF handle_free [OF assms(1,2)]] assms(4) by (auto simp: gates_free_def list_ex_iff)
qed

text \<open>The witness: the endpoint's breaker has just opened, so the gate answers "deny", and the delivery
  goes back to the retry queue for thirty seconds.\<close>

definition barred_world :: world where
  "barred_world = (quiet_world (demo_db Unordered Pending) ok_reply)\<lparr>w_sh := (quiet_shared (demo_db Unordered Pending))
     \<lparr>sh_breakers := (\<lambda>_. no_breaker\<lparr>br_hash := \<lparr>h_state = Some Open, h_consecutive = Some 10, h_opened_at = Some 0, h_last_probe_at = Some 0\<rparr>\<rparr>)\<rparr>\<rparr>"

lemma barred_run:
  "\<exists>w'. handle_message ''relay:deliveries:0'' (Sid 1 0) demo_fields barred_world = (Inr (), w') \<and>
     trace (w_loc w') = [Xack ''relay:deliveries:0'' (Sid 1 0), Zadd_retry 4 3 2 30, Breaker_read 2, Gate 2 Deny,
       Select_endpoint 2 (Some (hd (endpoints (demo_db Unordered Pending)))), Select_delivery 4 (Some (hd (deliveries (demo_db Unordered Pending))))]"
proof -
  let ?h = "\<lparr>h_state = Some Open, h_consecutive = Some 10, h_opened_at = Some 0, h_last_probe_at = Some 0\<rparr>"
  have gate: "allow_request_hash 0 ?h = ((Deny, Open), ?h)" "\<not> should_auto_disable_hash 0 ?h"
    by (simp_all add: allow_request_hash_def ALLOW_REQUEST_LUA_def should_auto_disable_hash_def state_or_closed_def get_state_hash_def Let_def breaker_constants)
  show ?thesis
    by (simp add: run_simps io_simps worker_simps quiet_simps demo_db_def demo_fields_def empty_db_def Let_def barred_world_def find_by_def
        gate encode_member_def shard_for_def worker_constants cong: run_cong)
qed

theorem gated_delivery_is_free_witness:
  "\<exists>w'. handle_message ''relay:deliveries:0'' (Sid 1 0) demo_fields barred_world = (Inr (), w') \<and> Gate 2 Deny \<in> set (trace (w_loc w')) \<and>
     Zadd_retry 4 3 2 30 \<in> set (trace (w_loc w')) \<and> (\<forall>a \<in> set (trace (w_loc w')). \<not> spends_attempt a)"
proof -
  obtain w' where run: "handle_message ''relay:deliveries:0'' (Sid 1 0) demo_fields barred_world = (Inr (), w')"
    and tr: "trace (w_loc w') = [Xack ''relay:deliveries:0'' (Sid 1 0), Zadd_retry 4 3 2 30, Breaker_read 2, Gate 2 Deny,
       Select_endpoint 2 (Some (hd (endpoints (demo_db Unordered Pending)))), Select_delivery 4 (Some (hd (deliveries (demo_db Unordered Pending))))]"
    using barred_run by blast
  have start: "trace (w_loc barred_world) = []" by (simp add: barred_world_def quiet_simps)
  have "\<not> spends_attempt a" if "a \<in> set (trace (w_loc w'))" for a
    using gated_delivery_is_free [OF demo_parse start, of "''relay:deliveries:0''" "Sid 1 0" a, unfolded run snd_conv] that by (simp add: tr)
  then show ?thesis using run tr by simp
qed

text \<open>C37: a shard's consumer, run from an empty trace: whatever fails and whatever other processes do,
  only cancellation, death, or a \<open>ValueError\<close> ends its loop, the last only if the process was handed
  an entry whose identifier does not parse.  A round whose reading, reclaiming or acknowledging
  fails with an error of Redis or of the network, and which is not itself cut short, sleeps for the
  current delay after the failure and doubles the delay, at most to ten seconds, before it returns;
  and every such sleep of the loop is at least half a second and at most ten.\<close>

theorem shard_loop_survives:
  assumes "trace (w_loc w) = []" and "consume_shard rounds fuel shard c w = (r, w')"
  shows "(\<forall>e. r = Inl e \<longrightarrow> e \<in> {Cancelled, Died} \<or> (e = Value_error \<and> unreadable (trace (w_loc w')))) \<and>
    (\<forall>w0 e w1 u w2. read_and_handle fuel shard c w0 = (Inl e, w1) \<and> e \<in> {Redis_error, Os_error} \<and>
        consume_round fuel shard c w0 = (Inr u, w2) \<longrightarrow>
      (\<exists>tr. trace (w_loc w2) = tr @ Slept (delay_var (w_loc w1)) # trace (w_loc w1) \<and> set tr \<subseteq> {Xgroup (stream_key shard)} \<and>
        delay_var (w_loc w2) = min (delay_var (w_loc w1) * 2) 10)) \<and>
    (\<forall>d. Slept d \<in> set (trace (w_loc w')) \<longrightarrow> 1 / 2 \<le> d \<and> d \<le> 10)"
proof (intro conjI)
  show "\<forall>e. r = Inl e \<longrightarrow> e \<in> {Cancelled, Died} \<or> (e = Value_error \<and> unreadable (trace (w_loc w')))"
    using safe_run(2) [OF consume_escapes refl] assms(2) unfolding round_escape_def by blast
  show "\<forall>w0 e w1 u w2. read_and_handle fuel shard c w0 = (Inl e, w1) \<and> e \<in> {Redis_error, Os_error} \<and>
        consume_round fuel shard c w0 = (Inr u, w2) \<longrightarrow>
      (\<exists>tr. trace (w_loc w2) = tr @ Slept (delay_var (w_loc w1)) # trace (w_loc w1) \<and> set tr \<subseteq> {Xgroup (stream_key shard)} \<and>
        delay_var (w_loc w2) = min (delay_var (w_loc w1) * 2) 10)"
    using failed_round_pauses by blast
  have "pauses_ok (trace (w_loc w')) (vars (w_loc w'))"
    using snd_run [OF consume_pauses [OF assms(1)], of rounds fuel shard c] by (simp add: assms(2))
  then show "\<forall>d. Slept d \<in> set (trace (w_loc w')) \<longrightarrow> 1 / 2 \<le> d \<and> d \<le> 10" by (simp add: pauses_ok_def)
qed

text \<open>The witness: the first read finds no group, the consumer sleeps half a second, creates it,
  and the second read finds nothing new.\<close>

theorem shard_loop_survives_witness:
  "\<exists>w'. consume_shard 2 5 0 ''w1'' (quiet_world empty_db ok_reply) = (Inr (), w') \<and> Slept (1 / 2) \<in> set (trace (w_loc w')) \<and>
     (\<forall>d. Slept d \<in> set (trace (w_loc w')) \<longrightarrow> 1 / 2 \<le> d \<and> d \<le> 10)"
proof -
  have "\<exists>w'. consume_shard 2 5 0 ''w1'' (quiet_world empty_db ok_reply) = (Inr (), w') \<and> Slept (1 / 2) \<in> set (trace (w_loc w'))"
    by (simp add: consume_shard_def numeral_2_eq_2 consume_round_def read_and_handle_def except_redis_def reclaim_stale_def eval_nat_numeral
        xautoclaim_proc_def xautoclaim_def xreadgroup_proc_def xread_new_def backoff_def sleep_def suppress_def ensure_group_def
        xgroup_create_def loop_time_def run_simps quiet_simps empty_stream_def RECONNECT_BASE_DELAY_S_def cong: run_cong)
  then show ?thesis
    using shard_loop_survives [of "quiet_world empty_db ok_reply"] by (metis quiet_trace)
qed

text \<open>C39: however often shard tasks die and are reaped, in whatever groups, the supervisor keeps
  exactly one live task for every shard.\<close>

theorem one_task_per_shard:
  "distinct (map snd (sup_tasks (foldl (\<lambda>s finished. supervise_round False finished s) (start_shards shards) rounds))) \<and>
   snd ` set (sup_tasks (foldl (\<lambda>s finished. supervise_round False finished s) (start_shards shards) rounds)) = {0..<shards}"
proof -
  have "one_task_each S (foldl (\<lambda>s finished. supervise_round False finished s) s rounds)" if "one_task_each S s" for S s
    using that by (induction rounds arbitrary: s) (simp_all add: round_one)
  from this [OF start_one] show ?thesis by (simp add: one_task_each_def)
qed

end
