(* ===== verification/Worker_Outcomes.thy ===== *)
theory Worker_Outcomes
  imports Worker_Runs
begin

text \<open>
  What the worker does in a calm world, whatever its rows are: nobody interferes and no call
  fails.  An ordered queue whose head is settled, and a probe whose token is refused.
\<close>

section \<open>An entry that is not at the head\<close>

text \<open>What the handling of an entry left alone: the ordering queues, and the network.\<close>

definition left_alone :: "world \<Rightarrow> (exn + unit) \<times> world \<Rightarrow> bool" where
  "left_alone w r \<longleftrightarrow> fst r = Inr () \<and> sh_queues (w_sh (snd r)) = sh_queues (w_sh w) \<and>
     (\<forall>rq rep. Posted rq rep \<in> set (trace (w_loc (snd r))) \<longrightarrow> Posted rq rep \<in> set (trace (w_loc w)))"

lemmas calm_simps = run_simps load_delivery_def load_endpoint_def option_map_proc_def select_delivery_def select_endpoint_def
  handle_message_def xack_proc_def deliver_with_gates_def

lemma settled_entry:
  assumes "w_oracle w = []" and "uuid_parse (f_delivery_id flds) = Some h"
    and "the_delivery h (sh_db (w_sh w)) = Some dl" and "d_status dl \<in> {Delivered, Dead}"
  shows "left_alone w (handle_message key i flds w) \<and> Xack key i \<in> set (trace (w_loc (snd (handle_message key i flds w))))"
  using assms by (auto simp: left_alone_def calm_simps find_by_def cong: run_cong)

lemma peek_queue: "peek_head_list (uuid_str h # q) = Some (Some h)"
  by (simp add: peek_head_list_def)

lemma waiting_entry:
  assumes "w_oracle w = []" and "uuid_parse (f_delivery_id flds) = Some d"
    and "the_delivery d (sh_db (w_sh w)) = Some dl" and "d_id dl = d" and "d_status dl \<notin> {Delivered, Dead}"
    and "the_endpoint (d_endpoint_id dl) (sh_db (w_sh w)) = Some ep" and "ep_status ep = Active" and "ep_ordering ep = Ordered"
    and "sh_queues (w_sh w) (ep_id ep) = uuid_str h # q" and "h \<noteq> d"
  shows "left_alone w (handle_message key i flds w)"
  using assms
  by (auto simp: left_alone_def calm_simps find_by_def acquire_lock_def peek_head_def peek_queue release_lock_def gate_out_def defer_delivery_def
      schedule_retry_def Let_def is_exception_def cong: run_cong split: prod.splits option.splits)

text \<open>C22: once the head of an ordered queue is a settled delivery (its worker died between the commit
  that settled it and the pop), the endpoint is stuck: handling any entry of any of its
  deliveries, the head's included, sends nothing and leaves the queue as it is.\<close>

theorem settled_head_wedges_queue:
  assumes "w_oracle w = []"
    and "the_endpoint p (sh_db (w_sh w)) = Some ep" and "ep_id ep = p" and "ep_status ep = Active" and "ep_ordering ep = Ordered"
    and "sh_queues (w_sh w) p = uuid_str h # q"
    and "the_delivery h (sh_db (w_sh w)) = Some hl" and "d_status hl \<in> {Delivered, Dead}"
    and "uuid_parse (f_delivery_id flds) = Some d" and "the_delivery d (sh_db (w_sh w)) = Some dl" and "d_id dl = d" and "d_endpoint_id dl = p"
  shows "left_alone w (handle_message key i flds w)"
proof (cases "d_status dl \<in> {Delivered, Dead}")
  case True
  then show ?thesis using settled_entry [OF assms(1,9,10)] by blast
next
  case False
  moreover have "h \<noteq> d" using assms(7,8,10) False by auto
  ultimately show ?thesis
    using waiting_entry [OF assms(1,9,10,11), of ep h q key i] assms(2-6,12) by simp
qed

text \<open>The crash: the worker dies in the call that would pop the head.\<close>

definition dies :: io_event where
  "dies = \<lparr>io_dt = 0, io_env = id, io_fault = Fail_before Died\<rparr>"

lemma empty_snippet: "int4 0" "int4 1" "int4 200" "storable []"
  by (simp_all add: int4_def storable_def)

lemma crash_before_pop:
  "case handle_message ''relay:deliveries:0'' (Sid 1 0) demo_fields ((demo_world ok_reply)\<lparr>w_oracle := replicate 17 calm_event @ [dies]\<rparr>) of
     (r, w') \<Rightarrow> r = Inl Died \<and> sh_queues (w_sh w') 2 = [uuid_str 4] \<and>
       map_option d_status (the_delivery 4 (sh_db (w_sh w'))) = Some Delivered"
  by (simp add: run_simps io_simps worker_simps quiet_simps demo_db_def demo_fields_def ok_reply_def empty_db_def Let_def demo_world_def
      find_by_def update_by_def no_breaker_fields crossing_event_def quiet_replies xack_def empty_stream_def or_default_def
      eval_nat_numeral dies_def is_exception_def redis_exn_def redis_exns_def attempt_storable_def delivery_storable_def empty_snippet
      cong: run_cong)

text \<open>The witness: delivery 4 is delivered but still at the head, delivery 5 waits behind it.\<close>

definition wedged_db :: db where
  "wedged_db = (demo_db Ordered Delivered)\<lparr>deliveries := deliveries (demo_db Ordered Delivered) @
     [\<lparr>d_id = 5, d_event_id = 3, d_endpoint_id = 2, d_status = Pending, d_attempt_count = 0, d_next_attempt_at = None, d_created_at = 0, d_updated_at = 0\<rparr>]\<rparr>"

definition wedged_world :: world where
  "wedged_world = (quiet_world wedged_db ok_reply)\<lparr>w_sh := (quiet_shared wedged_db)\<lparr>sh_queues := (\<lambda>_. [uuid_str 4, uuid_str 5])\<rparr>\<rparr>"

theorem settled_head_wedges_queue_witness:
  "left_alone wedged_world (handle_message ''relay:deliveries:0'' (Sid 1 0) (demo_fields\<lparr>f_delivery_id := uuid_str 5\<rparr>) wedged_world)"
  by (rule settled_head_wedges_queue [where p = 2 and h = 4 and q = "[uuid_str 5]" and d = 5])
    ((simp add: wedged_world_def wedged_db_def quiet_simps demo_db_def demo_fields_def find_by_def; fail)+)

section \<open>A probe whose token is refused\<close>

text \<open>When the breaker lets a probe through and the tenant's bucket is empty, the delivery is
  deferred without an attempt, so no outcome is recorded, and the breaker is left half open:
  every later request is denied, however long after.\<close>

theorem refused_token_loses_probe:
  assumes "w_oracle w = []" and "pending (w_loc w) = []"
    and "allow_request_hash now (br_hash (sh_breakers (w_sh w) (ep_id ep))) = ((Probe, Half_open), h)"
    and "the_tenant (ep_tenant_id ep) (sh_db (w_sh w)) = Some t"
    and "take_token_key (or_default (t_rate_per_sec t) (default_tenant_rate_per_sec (in_cfg (w_in w)))) now (sh_now (w_sh w))
           (sh_buckets (w_sh w) (t_id t)) = (False, key)"
  shows "\<exists>w'. check_gates dl ep now w = (Inr (False, Some ''rate_limited'', RATE_LIMIT_RETRY_DELAY_S), w') \<and>
    (\<forall>later. fst (allow_request_hash later (br_hash (sh_breakers (w_sh w') (ep_id ep)))) = (Deny, Half_open))"
proof -
  have "state_or_closed h = Half_open"
    using assms(3) by (auto simp: allow_request_hash_def ALLOW_REQUEST_LUA_def state_or_closed_def Let_def split: if_splits)
  then have "fst (allow_request_hash later h) = (Deny, Half_open)" for later
    by (simp add: allow_request_hash_def ALLOW_REQUEST_LUA_def)
  then show ?thesis
    using assms by (simp add: check_gates_def run_simps allow_request_def select_tenant_one_def take_token_def Let_def cong: run_cong)
qed

definition probe_world :: world where
  "probe_world = (quiet_world (demo_db Unordered Pending) ok_reply)\<lparr>w_sh := (quiet_shared (demo_db Unordered Pending))
     \<lparr>sh_breakers := (\<lambda>_. no_breaker\<lparr>br_hash := \<lparr>h_state = Some Open, h_consecutive = Some 10, h_opened_at = Some 100, h_last_probe_at = Some 100\<rparr>\<rparr>),
      sh_buckets := (\<lambda>_. Some (\<lparr>bk_tokens = 0, bk_updated_at = 700\<rparr>, None))\<rparr>\<rparr>"

theorem refused_token_loses_probe_witness:
  "\<exists>w'. check_gates (hd (deliveries (demo_db Unordered Pending))) (hd (endpoints (demo_db Unordered Pending))) 700 probe_world =
      (Inr (False, Some ''rate_limited'', 1 / 2), w') \<and>
    fst (allow_request_hash 1000000 (br_hash (sh_breakers (w_sh w') 2))) = (Deny, Half_open)"
proof -
  let ?h = "\<lparr>h_state = Some Half_open, h_consecutive = Some 10, h_opened_at = Some 100, h_last_probe_at = Some 700\<rparr>"
  have "\<exists>key. take_token_key 50 700 0 (Some (\<lparr>bk_tokens = 0, bk_updated_at = 700\<rparr>, None)) = (False, key)"
    by (simp add: take_token_key_def TOKEN_BUCKET_LUA_def expire_def Let_def)
  then obtain key where key: "take_token_key 50 700 0 (Some (\<lparr>bk_tokens = 0, bk_updated_at = 700\<rparr>, None)) = (False, key)" ..
  show ?thesis
    using refused_token_loses_probe [of probe_world 700 "hd (endpoints (demo_db Unordered Pending))" ?h "hd (tenants (demo_db Unordered Pending))" key
        "hd (deliveries (demo_db Unordered Pending))"] key
    by (simp add: probe_world_def quiet_simps demo_db_def find_by_def or_default_def no_breaker_def allow_request_hash_def ALLOW_REQUEST_LUA_def
        state_or_closed_def HALF_OPEN_PROBE_INTERVAL_SECONDS_def RATE_LIMIT_RETRY_DELAY_S_def) blast
qed

section \<open>One attempt\<close>

text \<open>What the result of the request makes of the delivery.\<close>

definition settled_as :: "attempt_result \<Rightarrow> pyfloat option \<Rightarrow> delivery_status" where
  "settled_as result delay = (if succeeded result then Delivered else if delay = None then Dead else Failed)"

text \<open>Whether the row of an attempt can be stored: its latency and status fit \<open>INTEGER\<close>, its snippet
  \<open>TEXT\<close>.\<close>

definition recordable :: "attempt_result \<Rightarrow> bool" where
  "recordable result \<longleftrightarrow> int4 (r_latency_ms result) \<and> pred_option int4 (r_http_status result) \<and> pred_option storable (r_response_snippet result)"

lemmas attempt_steps = process_delivery_def attempt_delivery_def record_attempt_def settle_delivery_def calm_simps select_event_def
  assign_delivery_def send_delivery_def Let_def find_by_update_same check_def schedule_retry_def
  record_delivery_def timedelta_seconds_def random_draw_def delivery_storable_def

lemmas attempt_simps = attempt_steps attempt_row_def settled_as_def recordable_def attempt_storable_def

text \<open>C20: an attempt when no call fails and nobody interferes: the signed request is sent, exactly one
  attempt row is added, numbered one above the delivery's count, which it becomes, and the
  delivery ends as the result and the retry policy say: "delivered" or "dead", with no retry
  scheduled, or "failed" with the retry on the queue at the time of the reply plus the delay,
  which the row names too.  The session is fresh, the numbers fit 32 bits and the reply's text can be
  stored, the delay is finite, and the retry's entry can be encoded.\<close>

theorem attempt_outcome:
  assumes "w_oracle w = []" and "pending (w_loc w) = []" and "loaded_deliveries (w_loc w) = []" and "loaded_endpoints (w_loc w) = []"
    and "the_delivery d (sh_db (w_sh w)) = Some dl" and "d_status dl \<noteq> Delivered"
    and "the_endpoint (d_endpoint_id dl) (sh_db (w_sh w)) = Some ep" and "the_event (d_event_id dl) (sh_db (w_sh w)) = Some ev"
    and "in_replies (w_in w) (draws (w_loc w)) = (reply, elapsed)"
    and "recordable (attempt_result_of elapsed reply)" and "int4 (d_attempt_count dl + 1)"
    and "delay = next_delay_seconds (d_attempt_count dl + 1) (r_http_status (attempt_result_of elapsed reply))
           (r_retry_after (attempt_result_of elapsed reply)) (max_attempts (in_cfg (w_in w))) (in_randoms (w_in w) (Suc (draws (w_loc w))))"
    and "delay = None \<or> delay = Some (Fin q)"
    and "encode_member (in_cfg (w_in w)) d (ev_id ev) (ep_id ep) = Some m"
    and "sent_at = sh_now (w_sh w) + in_skew (w_in w)" and "replied_at = sh_now (w_sh w) + \<bar>elapsed\<bar> + in_skew (w_in w)"
  shows "\<exists>w' r. process_delivery d w = (Inr True, w') \<and> the_delivery d (sh_db (w_sh w')) = Some r \<and>
    d_status r = settled_as (attempt_result_of elapsed reply) delay \<and> d_attempt_count r = d_attempt_count dl + 1 \<and>
    Posted (delivery_request (ep_url ep) (ep_signing_secret ep) d (ev_id ev) (ev_payload ev) sent_at) reply \<in> set (trace (w_loc w')) \<and>
    (\<exists>a. attempts (sh_db (w_sh w')) = attempts (sh_db (w_sh w)) @ [a] \<and> a_delivery_id a = d \<and> a_attempt_number a = d_attempt_count dl + 1 \<and>
       a_http_status a = r_http_status (attempt_result_of elapsed reply)) \<and>
    (if d_status r = Failed then d_next_attempt_at r = Some (replied_at + q) \<and> sh_retries (w_sh w') = zadd m (replied_at + q) (sh_retries (w_sh w))
     else d_next_attempt_at r = None \<and> sh_retries (w_sh w') = sh_retries (w_sh w))"
proof -
  have id: "d_id dl = d" using find_by_key [OF assms(5)] .
  show ?thesis
  proof (cases "succeeded (attempt_result_of elapsed reply)")
    case True
    then show ?thesis using assms(1-11,15,16) id by (cases dl) (auto simp: attempt_simps cong: run_cong)
  next
    case False
    then show ?thesis
      using assms(1-11,13-16) assms(12) [symmetric] id by (cases dl; cases delay) (auto simp: attempt_simps cong: run_cong)
  qed
qed

definition busy_reply :: http_reply where
  "busy_reply = Inr \<lparr>rs_status = 503, rs_text = [], rs_retry_after = None\<rparr>"

lemma busy_result:
  "r_http_status (attempt_result_of 0 busy_reply) = Some 503" "r_retry_after (attempt_result_of 0 busy_reply) = None"
  "\<not> succeeded (attempt_result_of 0 busy_reply)"
  by (simp_all add: busy_reply_def succeeded_def attempt_result_of_def classify_status_def)

lemma busy_delay: "next_delay_seconds 1 (Some 503) None 7 0 = Some (Fin 4)"
  by (simp add: next_delay_seconds_def max_attempts_for_def is_terminal_status_def BACKOFF_SCHEDULE_def apply_jitter_def uniform_def
      JITTER_MIN_def JITTER_MAX_def)

theorem attempt_outcome_witness:
  "\<exists>w' r. process_delivery 4 (quiet_world (demo_db Unordered Pending) busy_reply) = (Inr True, w') \<and>
     the_delivery 4 (sh_db (w_sh w')) = Some r \<and> d_status r = Failed \<and> d_attempt_count r = 1 \<and>
     d_next_attempt_at r = Some 4 \<and> (\<exists>m. sh_retries (w_sh w') = [(m, 4)])"
proof -
  let ?w = "quiet_world (demo_db Unordered Pending) busy_reply"
  obtain m where m: "encode_member default_settings 4 3 2 = Some m"
    by (simp add: encode_member_def shard_for_def default_settings_def)
  have row: "recordable (attempt_result_of 0 busy_reply)"
    by (simp add: recordable_def busy_reply_def attempt_result_of_def int_of_float_def int4_def storable_def)
  have result: "settled_as (attempt_result_of 0 busy_reply) (Some (Fin 4)) = Failed"
    by (simp add: settled_as_def busy_result)
  let ?dl = "hd (deliveries (demo_db Unordered Pending))" and ?ep = "hd (endpoints (demo_db Unordered Pending))"
  let ?ev = "hd (events (demo_db Unordered Pending))"
  have start: "w_oracle ?w = []" "pending (w_loc ?w) = []" "loaded_deliveries (w_loc ?w) = []" "loaded_endpoints (w_loc ?w) = []"
    and rows: "the_delivery 4 (sh_db (w_sh ?w)) = Some ?dl" "d_status ?dl \<noteq> Delivered"
      "the_endpoint (d_endpoint_id ?dl) (sh_db (w_sh ?w)) = Some ?ep" "the_event (d_event_id ?dl) (sh_db (w_sh ?w)) = Some ?ev"
    and reply: "in_replies (w_in ?w) (draws (w_loc ?w)) = (busy_reply, 0)" and count: "int4 (d_attempt_count ?dl + 1)" "d_attempt_count ?dl = 0"
    and delay: "Some (Fin 4) = next_delay_seconds (d_attempt_count ?dl + 1) (r_http_status (attempt_result_of 0 busy_reply))
        (r_retry_after (attempt_result_of 0 busy_reply)) (max_attempts (in_cfg (w_in ?w))) (in_randoms (w_in ?w) (Suc (draws (w_loc ?w))))"
    and entry: "encode_member (in_cfg (w_in ?w)) 4 (ev_id ?ev) (ep_id ?ep) = Some m"
    and clock: "0 = sh_now (w_sh ?w) + in_skew (w_in ?w)" "0 = sh_now (w_sh ?w) + \<bar>0\<bar> + in_skew (w_in ?w)" and retries: "sh_retries (w_sh ?w) = []"
    using m busy_delay empty_snippet(2)
    by (simp_all add: quiet_world_def quiet_shared_def quiet_local_def quiet_inputs_def demo_db_def find_by_def busy_result default_settings_def)
  show ?thesis
    using attempt_outcome [OF start rows reply row count(1) delay disjI2 [OF refl] entry clock]
    by (elim exE conjE, intro exI conjI) (assumption | simp add: result retries count zadd_def zrem_def; fail)+
qed

section \<open>A Retry-After that is not a number\<close>

definition nan_reply :: http_reply where
  "nan_reply = Inr \<lparr>rs_status = 429, rs_text = [], rs_retry_after = Some ''nan''\<rparr>"

lemma nan_delay: "next_delay_seconds 1 (Some 429) (Some ''nan'') 7 u = Some NaN"
  by (simp add: next_delay_seconds_def max_attempts_for_def is_terminal_status_def RETRYABLE_4XX_def parse_retry_after_def read_float_def
      strip_def is_space_def read_unsigned_def to_lower_def float_lt_def float_min_def)

lemma nan_result: "attempt_result_of 0 nan_reply = \<lparr>r_latency_ms = 0, r_http_status = Some 429, r_error_class = Some E_http_4xx,
    r_response_snippet = Some [], r_retry_after = Some ''nan''\<rparr>"
  by (simp add: nan_reply_def attempt_result_of_def classify_status_def int_of_float_def)

text \<open>A receiver that answers 429 with \<open>Retry-After: nan\<close> makes the attempt raise after the request was
  sent: the delivery's count has gone up but no attempt row is written and no retry scheduled.\<close>

theorem nan_retry_after_loses_attempt:
  "case process_delivery 4 (quiet_world (demo_db Unordered Pending) nan_reply) of (r, w') \<Rightarrow>
     r = Inl Value_error \<and> attempts (sh_db (w_sh w')) = [] \<and> sh_retries (w_sh w') = [] \<and>
     map_option d_attempt_count (the_delivery 4 (sh_db (w_sh w'))) = Some 1 \<and> (\<exists>rq. Posted rq nan_reply \<in> set (trace (w_loc w')))"
  by (simp add: process_delivery_def attempt_delivery_def record_attempt_def settle_delivery_def run_simps io_simps quiet_simps demo_db_def
      empty_db_def find_by_def update_by_def nan_result nan_delay succeeded_def Let_def timedelta_seconds_def delivery_storable_def empty_snippet cong: run_cong)

end
