(* ===== verification/Scheduler.thy ===== *)
theory Scheduler
  imports Worker_Runs
begin

text \<open>
  The retry scheduler (\<open>relay/delivery/retry_scheduler.py\<close>): the poll that moves due retries
  back to their streams, the sweep that publishes the gauges, and the loop around them.
\<close>

section \<open>Constants\<close>

definition POLL_INTERVAL_S :: rat where "POLL_INTERVAL_S = 1 / 2"
definition BATCH_LIMIT :: int where "BATCH_LIMIT = 100"
definition GAUGE_REFRESH_INTERVAL_S :: rat where "GAUGE_REFRESH_INTERVAL_S = 5"

definition BREAKER_STATE_VALUES :: "breaker_state \<Rightarrow> int" where
  "BREAKER_STATE_VALUES s = (case s of Closed \<Rightarrow> 0 | Half_open \<Rightarrow> 1 | Open \<Rightarrow> 2)"

section \<open>One poll\<close>

definition poll_once :: "nat proc" where
  "poll_once =
     bind (move_due_to_streams BATCH_LIMIT None) (\<lambda>moved.
     seq (only_if (moved \<noteq> 0) (bind retry_queue_depth (\<lambda>_. return ())))
         (return moved))"

section \<open>The gauges\<close>

definition set_gauge :: "string \<Rightarrow> string \<Rightarrow> int \<Rightarrow> unit proc" where
  "set_gauge name label_value n = count_metric (M_gauge name label_value n)"

text \<open>The tenants with dead deliveries and how many each has: the grouped join.\<close>

definition dead_owners :: "db \<Rightarrow> uuid list" where
  "dead_owners d = concat (map (\<lambda>dl. map ep_tenant_id (filter (\<lambda>e. ep_id e = d_endpoint_id dl) (endpoints d)))
     (filter (\<lambda>dl. d_status dl = Dead) (deliveries d)))"

definition dead_counts :: "db \<Rightarrow> (uuid \<times> int) list" where
  "dead_counts d = map (\<lambda>t. (t, int (count_list (dead_owners d) t))) (remdups (dead_owners d))"

definition active_endpoint_ids :: "db \<Rightarrow> uuid list" where
  "active_endpoint_ids d = map ep_id (filter (\<lambda>e. ep_status e = Active) (endpoints d))"

definition export_breaker :: "uuid \<Rightarrow> unit proc" where
  "export_breaker endpoint_id =
     bind (get_breaker_state endpoint_id) (\<lambda>view.
     only_if (bv_state view \<noteq> Closed)
       (set_gauge ''relay_breaker_state'' (uuid_str endpoint_id) (BREAKER_STATE_VALUES (bv_state view))))"

definition refresh_gauges :: "unit proc" where
  "refresh_gauges =
     bind retry_queue_depth (\<lambda>depth.
     seq (set_gauge ''relay_retry_queue_depth'' '''' depth)
    (with_session
       (bind (query_rows dead_counts) (\<lambda>rows.
        seq (for_each rows (\<lambda>(tenant_id, n). set_gauge ''relay_dlq_size'' (uuid_str tenant_id) n))
            (bind (query_rows active_endpoint_ids) (\<lambda>ids. for_each ids export_breaker))))))"

section \<open>The loop\<close>

definition scheduler_round :: "unit proc" where
  "scheduler_round =
     except_redis
       (bind poll_once (\<lambda>moved.
        seq (modify_local (\<lambda>l. l\<lparr>delay_var := RECONNECT_BASE_DELAY_S\<rparr>))
       (bind loop_time (\<lambda>t.
        bind (get_local next_var) (\<lambda>next_gauge_refresh.
        seq (only_if (t \<ge> next_gauge_refresh)
              (seq refresh_gauges
                   (bind loop_time (\<lambda>t. modify_local (\<lambda>l. l\<lparr>next_var := t + GAUGE_REFRESH_INTERVAL_S\<rparr>)))))
            (only_if (int moved < BATCH_LIMIT) (sleep POLL_INTERVAL_S)))))))
       (backoff RECONNECT_MAX_DELAY_S)"

fun scheduler_rounds :: "nat \<Rightarrow> unit proc" where
  "scheduler_rounds 0 = return ()"
| "scheduler_rounds (Suc rounds) = seq scheduler_round (scheduler_rounds rounds)"

definition run_scheduler :: "nat \<Rightarrow> unit proc" where
  "run_scheduler rounds =
     seq (modify_local (\<lambda>l. l\<lparr>delay_var := RECONNECT_BASE_DELAY_S\<rparr>))
    (seq (bind loop_time (\<lambda>t. modify_local (\<lambda>l. l\<lparr>next_var := t\<rparr>)))
         (scheduler_rounds rounds))"

section \<open>What escapes\<close>

definition survived :: "exn \<Rightarrow> bool" where
  "survived e \<longleftrightarrow> e = Redis_error \<or> e = Os_error"

lemma sleep_escapes: "safe (sleep d) (\<lambda>_ _. True) (\<lambda>e _. \<not> survived e) l"
proof -
  have exn: "\<not> survived (http_exn e)" for e by (simp add: http_exn_def survived_def)
  show ?thesis unfolding sleep_def by (rule safe_effect) (auto simp: exn)
qed

lemma scheduler_round_escapes: "safe scheduler_round (\<lambda>_ _. True) (\<lambda>e _. \<not> survived e) l"
proof -
  have backoff: "safe (backoff m) (\<lambda>_ _. True) (\<lambda>e _. \<not> survived e) l1" for m l1
    unfolding backoff_def by (intro safe_bind safe_get_local safe_seq, rule safe_mono [OF sleep_escapes]) (auto intro: safe_modify_local)
  have "safe (except_redis m (backoff d)) (\<lambda>_ _. True) (\<lambda>e _. \<not> survived e) l" for m :: "unit proc" and d
    by (rule safe_except_redis, rule safe_mono [OF safe_trivial]) (use backoff in \<open>simp_all add: survived_def\<close>)
  then show ?thesis unfolding scheduler_round_def .
qed

lemma scheduler_escapes: "safe (run_scheduler n) (\<lambda>_ _. True) (\<lambda>e _. \<not> survived e) l"
proof -
  have "safe (scheduler_rounds n) (\<lambda>_ _. True) (\<lambda>e _. \<not> survived e) l1" for l1
    by (induction n arbitrary: l1) (auto intro!: safe_seq safe_return safe_mono [OF scheduler_round_escapes])
  then show ?thesis
    unfolding run_scheduler_def loop_time_def by (intro safe_seq safe_modify_local safe_bind safe_inputs)
qed

lemma keeps_set_gauge [keeps_intro]: "keeps J (set_gauge a b n)"
  unfolding set_gauge_def by (rule keeps_inputs)

lemma scheduler_round_pauses: "keeps pauses_ok scheduler_round"
proof -
  have delay: "keeps pauses_ok (modify_local (\<lambda>l. l\<lparr>delay_var := RECONNECT_BASE_DELAY_S\<rparr>))"
    by (simp add: keeps_def modify_local_def pauses_ok_def RECONNECT_BASE_DELAY_S_def)
  have upcoming: "keeps pauses_ok (modify_local (\<lambda>l. l\<lparr>next_var := t\<rparr>))" for t
    by (simp add: keeps_def modify_local_def pauses_ok_def)
  have sleep: "keeps pauses_ok (sleep POLL_INTERVAL_S)"
    unfolding sleep_def POLL_INTERVAL_S_def by (rule keeps_effect) (auto simp: log_action_def pauses_ok_def)
  have poll: "keeps pauses_ok poll_once"
    unfolding poll_once_def move_due_to_streams_def retry_queue_depth_def
    by (intro keeps_intro) (auto intro: pauses_other)
  have gauges: "keeps pauses_ok refresh_gauges"
    unfolding refresh_gauges_def export_breaker_def get_breaker_state_def retry_queue_depth_def
    by (intro keeps_intro) (auto intro: pauses_other)
  show ?thesis
    unfolding scheduler_round_def loop_time_def
    by (intro keeps_except_redis keeps_bind keeps_seq keeps_inputs keeps_only_if poll gauges delay upcoming sleep backoff_pauses)
qed

lemma scheduler_pauses:
  assumes "trace l = []"
  shows "safe (run_scheduler n) (\<lambda>_ l'. pauses_ok (trace l') (vars l')) (\<lambda>_ l'. pauses_ok (trace l') (vars l')) l"
proof -
  have rounds: "keeps pauses_ok (scheduler_rounds n)"
    by (induction n) (simp_all add: keeps_return keeps_seq scheduler_round_pauses)
  show ?thesis
    unfolding run_scheduler_def loop_time_def
    by (intro safe_seq safe_modify_local safe_bind safe_inputs keeps_safe rounds)
      (use assms in \<open>simp add: pauses_ok_def RECONNECT_BASE_DELAY_S_def\<close>)
qed

section \<open>What the gauges say\<close>

text \<open>The two per-label gauges are never set to zero.\<close>

definition nonzero_labels :: "metric list \<Rightarrow> bool" where
  "nonzero_labels ms \<longleftrightarrow> (\<forall>name v. name \<in> {''relay_dlq_size'', ''relay_breaker_state''} \<longrightarrow> M_gauge name v 0 \<notin> set ms)"

lemma nonzero_labels_Cons:
  "nonzero_labels (m # ms) \<longleftrightarrow> (\<forall>name v. name \<in> {''relay_dlq_size'', ''relay_breaker_state''} \<longrightarrow> m \<noteq> M_gauge name v 0) \<and> nonzero_labels ms"
  by (auto simp: nonzero_labels_def)

lemma dead_counts_pos:
  assumes "(t, n) \<in> set (dead_counts d)"
  shows "0 < n"
proof -
  have "t \<in> set (dead_owners d)" and "n = int (count_list (dead_owners d) t)"
    using assms by (auto simp: dead_counts_def)
  then show ?thesis using count_list_0_iff [of "dead_owners d" t] by simp
qed

lemma metrics_logged [simp]: "metrics (logged a l) = metrics l" "metrics (clear_session l) = metrics l"
  by (simp_all add: logged_def clear_session_def)

lemma refresh_nonzero:
  assumes "nonzero_labels (metrics l)"
  shows "safe refresh_gauges (\<lambda>_ l'. nonzero_labels (metrics l')) (\<lambda>_ l'. nonzero_labels (metrics l')) l"
proof -
  let ?I = "\<lambda>l'. nonzero_labels (metrics l')"
  have export: "safe (export_breaker i) (\<lambda>_. ?I) (\<lambda>_. ?I) l1" if "?I l1" for i l1
    unfolding export_breaker_def get_breaker_state_def set_gauge_def
    by (intro safe_bind safe_redis safe_only_if safe_count_metric)
      (use that in \<open>auto simp: nonzero_labels_Cons BREAKER_STATE_VALUES_def split: breaker_state.splits\<close>)
  have rows: "safe (for_each (dead_counts d) (\<lambda>(t, n). set_gauge ''relay_dlq_size'' (uuid_str t) n)) (\<lambda>_. ?I) (\<lambda>_. ?I) l1"
    if "?I l1" for d l1
    unfolding set_gauge_def
    by (rule safe_for_each)
      (use that dead_counts_pos in \<open>fastforce intro!: safe_count_metric simp: nonzero_labels_Cons\<close>)+
  have ids: "safe (for_each is export_breaker) (\<lambda>_. ?I) (\<lambda>_. ?I) l1" if "?I l1" for "is" l1
    by (rule safe_for_each) (use that export in auto)
  show ?thesis
    unfolding refresh_gauges_def retry_queue_depth_def set_gauge_def [of "''relay_retry_queue_depth''"]
    by (intro safe_bind safe_redis safe_seq safe_count_metric safe_with_session safe_query_rows, rule safe_mono [OF rows])
      (use assms ids in \<open>auto simp: nonzero_labels_Cons intro!: safe_bind safe_query_rows\<close>)
qed

section \<open>Properties\<close>

text \<open>No failure of Redis ends the retry scheduler, and it neither spins nor stalls: every
  pause it makes lies between half a second and ten seconds.\<close>

theorem scheduler_survives_redis:
  assumes "trace (w_loc w) = []" and "run_scheduler rounds w = (r, w')"
  shows "r \<noteq> Inl Redis_error \<and> r \<noteq> Inl Os_error \<and> (\<forall>d. Slept d \<in> set (trace (w_loc w')) \<longrightarrow> 1 / 2 \<le> d \<and> d \<le> 10)"
proof -
  have "pauses_ok (trace (w_loc w')) (vars (w_loc w'))"
    using snd_run [OF scheduler_pauses [OF assms(1)], of rounds] by (simp add: assms(2))
  moreover have "\<not> survived e" if "r = Inl e" for e
    using safe_run(2) [OF scheduler_escapes refl] assms(2) that by blast
  ultimately show ?thesis by (auto simp: pauses_ok_def survived_def)
qed

definition failing_call :: "exn \<Rightarrow> io_event" where
  "failing_call e = \<lparr>io_dt = 0, io_env = id, io_fault = Fail_before e\<rparr>"

lemma scheduler_recovers_run:
  "\<exists>w'. run_scheduler 2 ((quiet_world empty_db ok_reply)\<lparr>w_oracle := [failing_call Redis_error]\<rparr>) = (Inr (), w') \<and>
     Slept (1 / 2) \<in> set (trace (w_loc w'))"
  by (simp add: run_scheduler_def numeral_2_eq_2 scheduler_round_def except_redis_def poll_once_def move_due_to_streams_def
      MOVE_DUE_LUA_def zrange_upto_def backoff_def sleep_def loop_time_def refresh_gauges_def retry_queue_depth_def set_gauge_def dead_counts_def
      dead_owners_def active_endpoint_ids_def empty_db_def failing_call_def redis_exn_def redis_exns_def
      run_simps query_rows_def quiet_simps RECONNECT_BASE_DELAY_S_def POLL_INTERVAL_S_def BATCH_LIMIT_def cong: run_cong)

theorem scheduler_survives_redis_witness:
  "\<exists>w'. run_scheduler 2 ((quiet_world empty_db ok_reply)\<lparr>w_oracle := [failing_call Redis_error]\<rparr>) = (Inr (), w') \<and>
     Slept (1 / 2) \<in> set (trace (w_loc w')) \<and> (\<forall>d. Slept d \<in> set (trace (w_loc w')) \<longrightarrow> 1 / 2 \<le> d \<and> d \<le> 10)"
  using scheduler_recovers_run scheduler_survives_redis [of "(quiet_world empty_db ok_reply)\<lparr>w_oracle := [failing_call Redis_error]\<rparr>" 2]
  by (auto simp: quiet_world_def)

text \<open>One failing database query does end it: when nothing is due and the query of the gauge
  sweep fails in the first round, the scheduler stops with that error, however many rounds
  it had left: the loop has no handler for it, and only the container's restart policy brings
  the process back.\<close>

theorem database_error_stops_scheduler:
  assumes "w_oracle w = [calm_event, calm_event, failing_call Sql_error] @ rest" and "sh_retries (w_sh w) = []"
  shows "fst (run_scheduler (Suc rounds) w) = Inl Sql_error"
  using assms
  by (simp add: run_scheduler_def scheduler_round_def except_redis_def poll_once_def move_due_to_streams_def
      MOVE_DUE_LUA_def zrange_upto_def loop_time_def refresh_gauges_def retry_queue_depth_def set_gauge_def
      failing_call_def sql_exn_def sql_exns_def query_rows_def run_simps cong: run_cong)

theorem database_error_stops_scheduler_witness:
  "fst (run_scheduler 9 ((quiet_world empty_db ok_reply)\<lparr>w_oracle := [calm_event, calm_event, failing_call Sql_error]\<rparr>)) = Inl Sql_error"
  using database_error_stops_scheduler [of "(quiet_world empty_db ok_reply)\<lparr>w_oracle := [calm_event, calm_event, failing_call Sql_error]\<rparr>" "[]" 8]
  by (simp add: quiet_world_def quiet_shared_def)

text \<open>The sweep never sets a tenant's DLQ gauge or an endpoint's breaker gauge to zero, so a
  gauge that was ever raised never falls back to zero when the DLQ is emptied or the breaker
  closes.\<close>

theorem gauges_never_cleared:
  assumes "metrics (w_loc w) = []"
  shows "M_gauge ''relay_dlq_size'' label_value 0 \<notin> set (metrics (w_loc (snd (refresh_gauges w)))) \<and>
    M_gauge ''relay_breaker_state'' label_value 0 \<notin> set (metrics (w_loc (snd (refresh_gauges w))))"
  using snd_run [OF refresh_nonzero] assms by (simp add: nonzero_labels_def)

text \<open>The witness: a dead delivery is reported, and a sweep after it is gone reports nothing.\<close>

theorem gauges_never_cleared_witness:
  "M_gauge ''relay_dlq_size'' (uuid_str 1) 1 \<in> set (metrics (w_loc (snd (refresh_gauges (quiet_world (demo_db Unordered Dead) ok_reply))))) \<and>
   M_gauge ''relay_dlq_size'' (uuid_str 1) 0 \<notin> set (metrics (w_loc (snd (refresh_gauges (quiet_world (demo_db Unordered Delivered) ok_reply)))))"
proof
  show "M_gauge ''relay_dlq_size'' (uuid_str 1) 1 \<in> set (metrics (w_loc (snd (refresh_gauges (quiet_world (demo_db Unordered Dead) ok_reply)))))"
    by (simp add: refresh_gauges_def retry_queue_depth_def set_gauge_def dead_counts_def dead_owners_def active_endpoint_ids_def
        export_breaker_def get_breaker_state_def no_breaker_fields get_state_hash_def no_hash_def state_or_closed_def
        demo_db_def empty_db_def run_simps query_rows_def quiet_simps cong: run_cong)
qed (use gauges_never_cleared [of "quiet_world (demo_db Unordered Delivered) ok_reply"] in \<open>simp add: quiet_simps\<close>)

end
