(* ===== verification/Api_Core.thy ===== *)
theory Api_Core
  imports Delivery_Io
begin

text \<open>
  What every request of the HTTP API goes through (\<open>relay/api/auth.py\<close>, \<open>errors.py\<close>,
  \<open>schemas.py\<close>, the error handlers of \<open>main.py\<close>): authentication, the validation of bodies
  and query parameters, and the status a raised exception becomes.
\<close>

section \<open>Errors\<close>

definition not_found :: "string \<Rightarrow> exn" where
  "not_found resource = Api_error 404 ''not_found'' (resource @ '' not found'')"

definition unauthorized :: "string \<Rightarrow> exn" where
  "unauthorized message = Api_error 401 ''unauthorized'' message"

text \<open>The status of the response: the three handlers of \<open>create_app\<close>, and 500 for what none of
  them handles.\<close>

definition error_status :: "exn \<Rightarrow> int" where
  "error_status e = (case e of Api_error status code message \<Rightarrow> status | Validation_error \<Rightarrow> 422 | _ \<Rightarrow> 500)"

section \<open>Schemas\<close>

text \<open>The length pydantic checks is that of the decoded text: the continuation bytes of UTF-8 do
  not count.\<close>

definition py_len :: "string \<Rightarrow> nat" where
  "py_len s = length (filter (\<lambda>c. (of_char c :: nat) div 64 \<noteq> 2) s)"

definition optional :: "('a \<Rightarrow> bool) \<Rightarrow> 'a option \<Rightarrow> bool" where
  "optional ok x = (case x of None \<Rightarrow> True | Some y \<Rightarrow> ok y)"

record tenant_create =
  tc_name :: string
  tc_rate_per_sec :: "int option"
  tc_max_inflight :: "int option"

definition tenant_create_ok :: "tenant_create \<Rightarrow> bool" where
  "tenant_create_ok b \<longleftrightarrow> 1 \<le> py_len (tc_name b) \<and> py_len (tc_name b) \<le> 200 \<and>
     optional (\<lambda>n. 1 \<le> n \<and> n \<le> 10000) (tc_rate_per_sec b) \<and> optional (\<lambda>n. 1 \<le> n \<and> n \<le> 1000) (tc_max_inflight b)"

record endpoint_create =
  ec_url :: string
  ec_ordering :: ordering_mode
  ec_event_types :: "string list"

text \<open>The pattern \<open>^https?://\<close>, and at most 2000 characters.\<close>

definition starts_with :: "string \<Rightarrow> string \<Rightarrow> bool" where
  "starts_with p s \<longleftrightarrow> take (length p) s = p"

definition url_ok :: "string \<Rightarrow> bool" where
  "url_ok u \<longleftrightarrow> (starts_with ''http://'' u \<or> starts_with ''https://'' u) \<and> py_len u \<le> 2000"

definition endpoint_create_ok :: "endpoint_create \<Rightarrow> bool" where
  "endpoint_create_ok b \<longleftrightarrow> url_ok (ec_url b)"

record endpoint_patch =
  pt_url :: "string option"
  pt_status :: "endpoint_status option"
  pt_event_types :: "string list option"

definition endpoint_patch_ok :: "endpoint_patch \<Rightarrow> bool" where
  "endpoint_patch_ok b \<longleftrightarrow> optional url_ok (pt_url b)"

record event_create =
  vc_event_type :: string
  vc_payload :: json
  vc_idempotency_key :: "string option"

definition is_object :: "json \<Rightarrow> bool" where
  "is_object j = (case j of JObj _ \<Rightarrow> True | _ \<Rightarrow> False)"

definition event_create_ok :: "event_create \<Rightarrow> bool" where
  "event_create_ok b \<longleftrightarrow> 1 \<le> py_len (vc_event_type b) \<and> py_len (vc_event_type b) \<le> 200 \<and>
     is_object (vc_payload b) \<and> optional (\<lambda>k. py_len k \<le> 200) (vc_idempotency_key b)"

record replay_request =
  rr_endpoint_id :: uuid
  rr_delivery_ids :: "uuid list option"

text \<open>\<open>limit: Query(50, ge=1, le=200)\<close> and \<open>offset: Query(0, ge=0)\<close>.\<close>

definition page_ok :: "int \<Rightarrow> int \<Rightarrow> bool" where
  "page_ok limit offset \<longleftrightarrow> 1 \<le> limit \<and> limit \<le> 200 \<and> 0 \<le> offset"

definition page :: "int \<Rightarrow> int \<Rightarrow> 'a list \<Rightarrow> 'a list" where
  "page limit offset xs = take (nat limit) (drop (nat offset) xs)"

text \<open>The secret of an endpoint is in no response but the one that creates it.\<close>

record endpoint_out =
  eo_id :: uuid
  eo_url :: string
  eo_ordering :: ordering_mode
  eo_status :: endpoint_status
  eo_event_types :: "string list"
  eo_created_at :: rat

definition endpoint_view :: "endpoint \<Rightarrow> endpoint_out" where
  "endpoint_view e = \<lparr>eo_id = ep_id e, eo_url = ep_url e, eo_ordering = ep_ordering e, eo_status = ep_status e,
     eo_event_types = ep_event_types e, eo_created_at = ep_created_at e\<rparr>"

record delivery_status_out =
  ds_delivery_id :: uuid
  ds_endpoint_id :: uuid
  ds_status :: delivery_status
  ds_attempt_count :: int

definition delivery_status_view :: "delivery \<Rightarrow> delivery_status_out" where
  "delivery_status_view d = \<lparr>ds_delivery_id = d_id d, ds_endpoint_id = d_endpoint_id d, ds_status = d_status d,
     ds_attempt_count = d_attempt_count d\<rparr>"

record event_out =
  vo_id :: uuid
  vo_event_type :: string
  vo_payload :: json
  vo_idempotency_key :: "string option"
  vo_created_at :: rat
  vo_deliveries :: "delivery_status_out list"

section \<open>Authentication\<close>

definition generate_api_key :: "string proc" where
  "generate_api_key = bind token_urlsafe (\<lambda>s. return (''rk_'' @ s))"

definition generate_signing_secret :: "string proc" where
  "generate_signing_secret = bind token_urlsafe (\<lambda>s. return (''whsec_'' @ s))"

definition hash_api_key :: "string \<Rightarrow> string" where
  "hash_api_key key = hexdigest (sha256 (encode key))"

definition bearer_token :: "string option \<Rightarrow> string proc" where
  "bearer_token authorization = (case authorization of
     None \<Rightarrow> raise (unauthorized (''expected 'Authorization: Bearer <key>'' @ [CHR 0x27]))
   | Some h \<Rightarrow> if h = '''' \<or> \<not> starts_with ''Bearer '' h
       then raise (unauthorized (''expected 'Authorization: Bearer <key>'' @ [CHR 0x27]))
       else return (drop (length ''Bearer '') h))"

definition tenant_by_key :: "string \<Rightarrow> db \<Rightarrow> tenant option" where
  "tenant_by_key h d = find_by t_api_key_hash h (tenants d)"

definition require_tenant :: "string option \<Rightarrow> tenant proc" where
  "require_tenant authorization =
     bind (bearer_token authorization) (\<lambda>token.
     bind (query_rows (tenant_by_key (hash_api_key token))) (\<lambda>tenant. case tenant of
       None \<Rightarrow> raise (unauthorized ''invalid API key'')
     | Some t \<Rightarrow> return t))"

text \<open>\<open>hmac.compare_digest\<close> on two \<open>str\<close> raises \<open>TypeError\<close> unless both are ASCII.\<close>

definition is_ascii :: "string \<Rightarrow> bool" where
  "is_ascii s = list_all (\<lambda>c. (of_char c :: nat) < 128) s"

definition compare_digest :: "string \<Rightarrow> string \<Rightarrow> bool proc" where
  "compare_digest a b = (if is_ascii a \<and> is_ascii b then return (a = b) else raise Type_error)"

definition require_admin :: "string option \<Rightarrow> unit proc" where
  "require_admin authorization =
     bind (bearer_token authorization) (\<lambda>token.
     bind settings_of (\<lambda>cfg.
     bind (compare_digest token (admin_token cfg)) (\<lambda>same.
     if same then return () else raise (unauthorized ''invalid admin token''))))"

text \<open>A tenant's route: one session for the whole request, authentication first, then the
  verdict on body and parameters, then the handler.  Bodies are JSON here: one that does not
  parse is answered with 422 by the framework before any of this runs, touching nothing.\<close>

definition tenant_route :: "string option \<Rightarrow> bool \<Rightarrow> (tenant \<Rightarrow> 'a proc) \<Rightarrow> 'a proc" where
  "tenant_route authorization valid handler =
     with_session (bind (require_tenant authorization) (\<lambda>tenant.
       if valid then handler tenant else raise Validation_error))"

definition admin_route :: "string option \<Rightarrow> bool \<Rightarrow> 'a proc \<Rightarrow> 'a proc" where
  "admin_route authorization valid handler =
     with_session (seq (require_admin authorization) (if valid then handler else raise Validation_error))"

section \<open>Rows through the session\<close>

definition load_deliveries :: "(db \<Rightarrow> delivery list) \<Rightarrow> delivery list proc" where
  "load_deliveries q = bind (query_rows q) (map_proc load_delivery)"

definition load_endpoints :: "(db \<Rightarrow> endpoint list) \<Rightarrow> endpoint list proc" where
  "load_endpoints q = bind (query_rows q) (map_proc load_endpoint)"

definition owned_ids :: "tenant \<Rightarrow> db \<Rightarrow> uuid list" where
  "owned_ids tenant d = map ep_id (filter (\<lambda>e. ep_tenant_id e = t_id tenant) (endpoints d))"

text \<open>The filter every list route begins with.\<close>

definition narrow :: "uuid option \<Rightarrow> uuid list \<Rightarrow> uuid list proc" where
  "narrow endpoint_id owned = (case endpoint_id of
     None \<Rightarrow> return owned
   | Some i \<Rightarrow> if i \<notin> set owned then raise (not_found ''endpoint'') else return [i])"

text \<open>Newest first.\<close>

definition newest :: "('a \<Rightarrow> rat) \<Rightarrow> 'a list \<Rightarrow> 'a list" where
  "newest f xs = sort_key (\<lambda>x. - f x) xs"

lemma find_SomeD: "find p xs = Some x \<Longrightarrow> x \<in> set xs \<and> p x"
  by (induction xs) (auto split: if_splits)

lemma safe_load_delivery_in:
  "(\<And>obj. obj \<in> set (loaded_deliveries l) \<Longrightarrow> Q obj l) \<Longrightarrow> Q row (l\<lparr>loaded_deliveries := row # loaded_deliveries l\<rparr>)
    \<Longrightarrow> safe (load_delivery row) Q E l"
  by (auto simp: safe_def load_delivery_def split: option.splits dest: find_by_SomeD)

lemma safe_load_endpoint_in:
  "(\<And>obj. obj \<in> set (loaded_endpoints l) \<Longrightarrow> Q obj l) \<Longrightarrow> Q row (l\<lparr>loaded_endpoints := row # loaded_endpoints l\<rparr>)
    \<Longrightarrow> safe (load_endpoint row) Q E l"
  by (auto simp: safe_def load_endpoint_def split: option.splits dest: find_by_SomeD)

end
