(* ===== verification/Api_Events.thy ===== *)
theory Api_Events
  imports Api_Core
begin

text \<open>
  Ingestion (\<open>relay/api/routes/events.py\<close>) and the dead-letter queue
  (\<open>relay/api/routes/dlq.py\<close>): the two routes that put deliveries on the streams.
\<close>

section \<open>Ingestion\<close>

definition event_with_key :: "uuid \<Rightarrow> string \<Rightarrow> db \<Rightarrow> event option" where
  "event_with_key tenant_id key d =
     find (\<lambda>e. ev_tenant_id e = tenant_id \<and> ev_idempotency_key e = Some key) (events d)"

definition existing_by_idempotency_key :: "uuid \<Rightarrow> string \<Rightarrow> event option proc" where
  "existing_by_idempotency_key tenant_id key = query_rows (event_with_key tenant_id key)"

definition active_endpoints_of :: "tenant \<Rightarrow> db \<Rightarrow> endpoint list" where
  "active_endpoints_of tenant d = filter (\<lambda>e. ep_tenant_id e = t_id tenant \<and> ep_status e = Active) (endpoints d)"

definition subscribed :: "string \<Rightarrow> endpoint \<Rightarrow> bool" where
  "subscribed event_type e \<longleftrightarrow> ep_event_types e = [] \<or> event_type \<in> set (ep_event_types e)"

text \<open>A new row with the table's defaults.\<close>

definition new_delivery :: "uuid \<Rightarrow> endpoint \<Rightarrow> delivery proc" where
  "new_delivery event_id e =
     bind uuid4 (\<lambda>i. bind db_now (\<lambda>t. return
       \<lparr>d_id = i, d_event_id = event_id, d_endpoint_id = ep_id e, d_status = Pending, d_attempt_count = 0,
        d_next_attempt_at = None, d_created_at = t, d_updated_at = t\<rparr>))"

definition new_event :: "tenant \<Rightarrow> event_create \<Rightarrow> event proc" where
  "new_event tenant body =
     bind uuid4 (\<lambda>i. bind db_now (\<lambda>t. return
       \<lparr>ev_id = i, ev_tenant_id = t_id tenant, ev_event_type = vc_event_type body, ev_payload = vc_payload body,
        ev_idempotency_key = vc_idempotency_key body, ev_created_at = t\<rparr>))"

text \<open>\<open>tenant.id\<close> after a rollback: the rollback expired the object, and reading an expired
  attribute outside an awaited call raises \<open>MissingGreenlet\<close>.\<close>

definition expired_tenant_id :: "tenant \<Rightarrow> uuid proc" where
  "expired_tenant_id tenant = raise Missing_greenlet"

text \<open>\<open>True\<close> when the commit raised an \<open>IntegrityError\<close>.\<close>

definition try_commit :: "bool proc" where
  "try_commit = except_in {Integrity_error} (seq commit (return False)) (\<lambda>_. return True)"

definition resolve_conflict :: "tenant \<Rightarrow> event_create \<Rightarrow> uuid proc" where
  "resolve_conflict tenant body =
     seq rollback (case vc_idempotency_key body of
       None \<Rightarrow> raise Assertion_error
     | Some key \<Rightarrow>
         bind (expired_tenant_id tenant) (\<lambda>tenant_id.
         bind (existing_by_idempotency_key tenant_id key) (\<lambda>existing. case existing of
           None \<Rightarrow> raise (Api_error 500 ''internal'' ''idempotency conflict could not be resolved'')
         | Some e \<Rightarrow> return (ev_id e))))"

text \<open>One delivery onto the streams, ordered endpoints first onto their queue.\<close>

definition enqueue_one :: "ordering_mode \<Rightarrow> delivery \<Rightarrow> unit proc" where
  "enqueue_one mode d =
     seq (only_if (mode = Ordered) (enqueue_ordered (d_endpoint_id d) (d_id d)))
         (enqueue_delivery (d_id d) (d_event_id d) (d_endpoint_id d))"

definition ordering_of :: "endpoint list \<Rightarrow> uuid \<Rightarrow> ordering_mode" where
  "ordering_of matching i = (case find_by ep_id i matching of None \<Rightarrow> Unordered | Some e \<Rightarrow> ep_ordering e)"

definition fan_out :: "tenant \<Rightarrow> event_create \<Rightarrow> event \<Rightarrow> uuid proc" where
  "fan_out tenant body event =
     bind (load_endpoints (active_endpoints_of tenant)) (\<lambda>endpoints.
     let matching = filter (subscribed (vc_event_type body)) endpoints in
     bind (map_proc (new_delivery (ev_id event)) matching) (\<lambda>deliveries.
     seq (add_pending (map Ins_delivery deliveries))
    (bind try_commit (\<lambda>conflict.
     if conflict then resolve_conflict tenant body
     else
       seq (for_each deliveries (\<lambda>d. enqueue_one (ordering_of matching (d_endpoint_id d)) d))
      (seq (count_metric (M_ingested (t_id tenant)))
           (return (ev_id event)))))))"

definition ingest_event :: "event_create \<Rightarrow> tenant \<Rightarrow> uuid proc" where
  "ingest_event body tenant =
     bind (case vc_idempotency_key body of
             None \<Rightarrow> return None
           | Some key \<Rightarrow> existing_by_idempotency_key (t_id tenant) key) (\<lambda>existing. case existing of
       Some e \<Rightarrow> return (ev_id e)
     | None \<Rightarrow>
         bind (new_event tenant body) (\<lambda>event.
         seq (add_pending [Ins_event event]) (fan_out tenant body event)))"

definition owned_event :: "uuid \<Rightarrow> tenant \<Rightarrow> db \<Rightarrow> event option" where
  "owned_event event_id tenant d = find (\<lambda>e. ev_id e = event_id \<and> ev_tenant_id e = t_id tenant) (events d)"

definition get_event :: "uuid \<Rightarrow> tenant \<Rightarrow> event_out proc" where
  "get_event event_id tenant =
     bind (query_rows (owned_event event_id tenant)) (\<lambda>row. case row of
       None \<Rightarrow> raise (not_found ''event'')
     | Some event \<Rightarrow>
         bind (load_deliveries (\<lambda>d. filter (\<lambda>x. d_event_id x = ev_id event) (deliveries d))) (\<lambda>rows.
         return \<lparr>vo_id = ev_id event, vo_event_type = ev_event_type event, vo_payload = ev_payload event,
           vo_idempotency_key = ev_idempotency_key event, vo_created_at = ev_created_at event,
           vo_deliveries = map delivery_status_view rows\<rparr>))"

section \<open>The dead-letter queue\<close>

definition list_dlq :: "uuid option \<Rightarrow> int \<Rightarrow> int \<Rightarrow> tenant \<Rightarrow> delivery list proc" where
  "list_dlq endpoint_id limit offset tenant =
     bind (query_rows (owned_ids tenant)) (\<lambda>owned.
     bind (narrow endpoint_id owned) (\<lambda>owned.
     load_deliveries (\<lambda>d. page limit offset (newest d_updated_at
       (filter (\<lambda>x. d_endpoint_id x \<in> set owned \<and> d_status x = Dead) (deliveries d))))))"

text \<open>The dead deliveries of an endpoint; an absent or empty list of identifiers asks for all.\<close>

definition dead_of :: "uuid \<Rightarrow> uuid list option \<Rightarrow> db \<Rightarrow> delivery list" where
  "dead_of endpoint_id ids d =
     filter (\<lambda>x. d_endpoint_id x = endpoint_id \<and> d_status x = Dead \<and>
       (case ids of None \<Rightarrow> True | Some is \<Rightarrow> is = [] \<or> d_id x \<in> set is)) (deliveries d)"

definition ordering_row :: "uuid \<Rightarrow> db \<Rightarrow> ordering_mode option" where
  "ordering_row endpoint_id d = map_option ep_ordering (the_endpoint endpoint_id d)"

definition revive :: "delivery \<Rightarrow> delivery proc" where
  "revive delivery =
     bind (assign_delivery delivery (\<lambda>d. d\<lparr>d_status := Pending\<rparr>)) (\<lambda>delivery.
     bind (assign_delivery delivery (\<lambda>d. d\<lparr>d_attempt_count := 0\<rparr>)) (\<lambda>delivery.
     assign_delivery delivery (\<lambda>d. d\<lparr>d_next_attempt_at := None\<rparr>)))"

definition replay_one :: "ordering_mode \<Rightarrow> delivery \<Rightarrow> uuid proc" where
  "replay_one mode d =
     bind (remove_from_retry_queue (d_id d) (d_event_id d) (d_endpoint_id d)) (\<lambda>_.
     seq (enqueue_one mode d)
         (return (d_id d)))"

definition replay :: "replay_request \<Rightarrow> tenant \<Rightarrow> uuid list proc" where
  "replay body tenant =
     bind (query_rows (owned_ids tenant)) (\<lambda>owned.
     if rr_endpoint_id body \<notin> set owned then raise (not_found ''endpoint'')
     else
       bind (query_rows (ordering_row (rr_endpoint_id body))) (\<lambda>row. case row of
         None \<Rightarrow> raise No_result
       | Some mode \<Rightarrow>
           bind (load_deliveries (dead_of (rr_endpoint_id body) (rr_delivery_ids body))) (\<lambda>dead.
           bind (map_proc revive dead) (\<lambda>revived.
           seq commit
          (seq (only_if (revived \<noteq> []) (reset_breaker (rr_endpoint_id body)))
               (map_proc (replay_one mode) revived))))))"

end
