(* ===== verification/Api_Manage.thy ===== *)
theory Api_Manage
  imports Api_Events
begin

text \<open>
  The management routes: tenants, endpoints, deliveries and diagnoses
  (\<open>relay/api/routes/tenants.py\<close>, \<open>endpoints.py\<close>, \<open>deliveries.py\<close>, \<open>diagnoses.py\<close>).
\<close>

section \<open>Tenants\<close>

record tenant_created =
  tn_id :: uuid
  tn_name :: string
  tn_api_key :: string
  tn_created_at :: rat

definition create_tenant :: "tenant_create \<Rightarrow> tenant_created proc" where
  "create_tenant body =
     bind generate_api_key (\<lambda>api_key.
     bind uuid4 (\<lambda>i.
     bind db_now (\<lambda>t.
     seq (add_pending [Ins_tenant \<lparr>t_id = i, t_name = tc_name body, t_api_key_hash = hash_api_key api_key,
            t_rate_per_sec = tc_rate_per_sec body, t_max_inflight = tc_max_inflight body, t_created_at = t\<rparr>])
    (seq commit
         (return \<lparr>tn_id = i, tn_name = tc_name body, tn_api_key = api_key, tn_created_at = t\<rparr>)))))"

section \<open>Endpoints\<close>

definition endpoint_of :: "tenant \<Rightarrow> uuid \<Rightarrow> db \<Rightarrow> endpoint list" where
  "endpoint_of tenant endpoint_id d =
     filter (\<lambda>e. ep_id e = endpoint_id \<and> ep_tenant_id e = t_id tenant) (endpoints d)"

definition get_owned :: "tenant \<Rightarrow> uuid \<Rightarrow> endpoint proc" where
  "get_owned tenant endpoint_id =
     bind (load_endpoints (endpoint_of tenant endpoint_id)) (\<lambda>rows. case rows of
       [] \<Rightarrow> raise (not_found ''endpoint'')
     | e # _ \<Rightarrow> return e)"

definition create_endpoint :: "endpoint_create \<Rightarrow> tenant \<Rightarrow> endpoint proc" where
  "create_endpoint body tenant =
     bind generate_signing_secret (\<lambda>secret.
     bind uuid4 (\<lambda>i.
     bind db_now (\<lambda>t.
     let endpoint = \<lparr>ep_id = i, ep_tenant_id = t_id tenant, ep_url = ec_url body, ep_signing_secret = secret,
       ep_ordering = ec_ordering body, ep_status = Active, ep_event_types = ec_event_types body, ep_created_at = t\<rparr> in
     seq (add_pending [Ins_endpoint endpoint])
    (seq commit (return endpoint)))))"

definition list_endpoints :: "tenant \<Rightarrow> endpoint_out list proc" where
  "list_endpoints tenant =
     bind (load_endpoints (\<lambda>d. sort_key ep_created_at (filter (\<lambda>e. ep_tenant_id e = t_id tenant) (endpoints d)))) (\<lambda>rows.
     return (map endpoint_view rows))"

definition get_endpoint :: "uuid \<Rightarrow> tenant \<Rightarrow> endpoint_out proc" where
  "get_endpoint endpoint_id tenant = bind (get_owned tenant endpoint_id) (\<lambda>e. return (endpoint_view e))"

definition set_if :: "'v option \<Rightarrow> ('v \<Rightarrow> endpoint \<Rightarrow> endpoint) \<Rightarrow> endpoint \<Rightarrow> endpoint proc" where
  "set_if value f e = (case value of None \<Rightarrow> return e | Some v \<Rightarrow> assign_endpoint e (f v))"

definition patch_endpoint :: "uuid \<Rightarrow> endpoint_patch \<Rightarrow> tenant \<Rightarrow> endpoint_out proc" where
  "patch_endpoint endpoint_id body tenant =
     bind (get_owned tenant endpoint_id) (\<lambda>endpoint.
     bind (set_if (pt_url body) (\<lambda>v e. e\<lparr>ep_url := v\<rparr>) endpoint) (\<lambda>endpoint.
     bind (set_if (pt_status body) (\<lambda>v e. e\<lparr>ep_status := v\<rparr>) endpoint) (\<lambda>endpoint.
     bind (set_if (pt_event_types body) (\<lambda>v e. e\<lparr>ep_event_types := v\<rparr>) endpoint) (\<lambda>endpoint.
     seq commit (return (endpoint_view endpoint))))))"

definition get_breaker :: "uuid \<Rightarrow> tenant \<Rightarrow> breaker_view proc" where
  "get_breaker endpoint_id tenant =
     bind (get_owned tenant endpoint_id) (\<lambda>_. get_breaker_state endpoint_id)"

definition reset_breaker_endpoint :: "uuid \<Rightarrow> tenant \<Rightarrow> unit proc" where
  "reset_breaker_endpoint endpoint_id tenant =
     bind (get_owned tenant endpoint_id) (\<lambda>_. reset_breaker endpoint_id)"

definition delete_endpoint :: "uuid \<Rightarrow> tenant \<Rightarrow> unit proc" where
  "delete_endpoint endpoint_id tenant =
     bind (get_owned tenant endpoint_id) (\<lambda>endpoint.
     seq (add_pending [Del_endpoint (ep_id endpoint)]) commit)"

section \<open>Deliveries\<close>

definition status_word :: "delivery_status \<Rightarrow> string" where
  "status_word s = (case s of Pending \<Rightarrow> ''pending'' | Delivering \<Rightarrow> ''delivering'' | Delivered \<Rightarrow> ''delivered''
     | Failed \<Rightarrow> ''failed'' | Dead \<Rightarrow> ''dead'')"

definition VALID_STATUSES :: "string list" where
  "VALID_STATUSES = map status_word [Dead, Delivered, Delivering, Failed, Pending]"

definition invalid_status :: exn where
  "invalid_status = Api_error 422 ''validation_error''
     (''status must be one of ['' @ join '', '' (map (\<lambda>s. [CHR 0x27] @ s @ [CHR 0x27]) VALID_STATUSES) @ '']'')"

definition list_deliveries :: "uuid option \<Rightarrow> string option \<Rightarrow> int \<Rightarrow> int \<Rightarrow> tenant \<Rightarrow> delivery list proc" where
  "list_deliveries endpoint_id status limit offset tenant =
     (if \<not> optional (\<lambda>s. s \<in> set VALID_STATUSES) status then raise invalid_status
      else
        bind (query_rows (owned_ids tenant)) (\<lambda>owned.
        bind (narrow endpoint_id owned) (\<lambda>owned.
        load_deliveries (\<lambda>d. page limit offset (newest d_created_at
          (filter (\<lambda>x. d_endpoint_id x \<in> set owned \<and> optional (\<lambda>s. status_word (d_status x) = s) status) (deliveries d)))))))"

definition owned_delivery :: "uuid \<Rightarrow> uuid list \<Rightarrow> db \<Rightarrow> delivery list" where
  "owned_delivery delivery_id owned d = filter (\<lambda>x. d_id x = delivery_id \<and> d_endpoint_id x \<in> set owned) (deliveries d)"

definition list_attempts :: "uuid \<Rightarrow> tenant \<Rightarrow> attempt list proc" where
  "list_attempts delivery_id tenant =
     bind (query_rows (owned_ids tenant)) (\<lambda>owned.
     bind (load_deliveries (owned_delivery delivery_id owned)) (\<lambda>rows. case rows of
       [] \<Rightarrow> raise (not_found ''delivery'')
     | _ \<Rightarrow> query_rows (\<lambda>d. sort_key a_attempt_number (filter (\<lambda>a. a_delivery_id a = delivery_id) (attempts d)))))"

section \<open>Diagnoses\<close>

definition diagnosis_word :: "diagnosis_status \<Rightarrow> string" where
  "diagnosis_word s = (case s of DOpen \<Rightarrow> ''open'' | DAcknowledged \<Rightarrow> ''acknowledged'' | DResolved \<Rightarrow> ''resolved'')"

definition owned_diagnosis :: "uuid \<Rightarrow> uuid list \<Rightarrow> db \<Rightarrow> diagnosis option" where
  "owned_diagnosis diagnosis_id owned d =
     find (\<lambda>g. dg_id g = diagnosis_id \<and> dg_endpoint_id g \<in> set owned) (diagnoses d)"

definition get_owned_diagnosis :: "tenant \<Rightarrow> uuid \<Rightarrow> diagnosis proc" where
  "get_owned_diagnosis tenant diagnosis_id =
     bind (query_rows (owned_ids tenant)) (\<lambda>owned.
     bind (query_rows (owned_diagnosis diagnosis_id owned)) (\<lambda>row. case row of
       None \<Rightarrow> raise (not_found ''diagnosis'')
     | Some g \<Rightarrow> return g))"

definition list_diagnoses :: "uuid option \<Rightarrow> string option \<Rightarrow> int \<Rightarrow> tenant \<Rightarrow> diagnosis list proc" where
  "list_diagnoses endpoint_id status limit tenant =
     bind (query_rows (owned_ids tenant)) (\<lambda>owned.
     bind (narrow endpoint_id owned) (\<lambda>owned.
     if \<not> optional (\<lambda>s. s \<in> {''open'', ''acknowledged'', ''resolved''}) status
     then raise (Api_error 422 ''validation_error'' ''invalid status'')
     else query_rows (\<lambda>d. take (nat limit) (newest dg_created_at
            (filter (\<lambda>g. dg_endpoint_id g \<in> set owned \<and> optional (\<lambda>s. diagnosis_word (dg_status g) = s) status) (diagnoses d))))))"

definition get_diagnosis :: "uuid \<Rightarrow> tenant \<Rightarrow> diagnosis proc" where
  "get_diagnosis diagnosis_id tenant = get_owned_diagnosis tenant diagnosis_id"

definition assign_diagnosis :: "diagnosis \<Rightarrow> (diagnosis \<Rightarrow> diagnosis) \<Rightarrow> diagnosis proc" where
  "assign_diagnosis g f =
     (if f g = g then return g else seq (add_pending [Upd_diagnosis (dg_id g) f]) (return (f g)))"

definition acknowledge :: "uuid \<Rightarrow> tenant \<Rightarrow> diagnosis proc" where
  "acknowledge diagnosis_id tenant =
     bind (get_owned_diagnosis tenant diagnosis_id) (\<lambda>diagnosis.
     bind (assign_diagnosis diagnosis (\<lambda>g. g\<lparr>dg_status := DAcknowledged\<rparr>)) (\<lambda>diagnosis.
     seq commit (return diagnosis)))"

definition list_actions :: "uuid \<Rightarrow> tenant \<Rightarrow> agent_action list proc" where
  "list_actions diagnosis_id tenant =
     bind (get_owned_diagnosis tenant diagnosis_id) (\<lambda>_.
     query_rows (\<lambda>d. sort_key ac_created_at (filter (\<lambda>c. ac_diagnosis_id c = diagnosis_id) (actions d))))"

definition owned_action :: "uuid \<Rightarrow> uuid list \<Rightarrow> db \<Rightarrow> agent_action option" where
  "owned_action action_id owned d = find (\<lambda>c. ac_id c = action_id \<and> ac_endpoint_id c \<in> set owned) (actions d)"

definition action_word :: "action_status \<Rightarrow> string" where
  "action_word s = (case s of APending \<Rightarrow> ''pending'' | AApproved \<Rightarrow> ''approved'' | ARejected \<Rightarrow> ''rejected'')"

text \<open>The action, if it is the tenant's and still undecided.\<close>

definition pending_action :: "uuid \<Rightarrow> tenant \<Rightarrow> agent_action proc" where
  "pending_action action_id tenant =
     bind (query_rows (owned_ids tenant)) (\<lambda>owned.
     bind (query_rows (owned_action action_id owned)) (\<lambda>row. case row of
       None \<Rightarrow> raise (not_found ''action'')
     | Some c \<Rightarrow>
         if ac_status c \<noteq> APending
         then raise (Api_error 409 ''already_decided'' (''action is already '' @ action_word (ac_status c)))
         else return c))"

definition assign_action :: "agent_action \<Rightarrow> (agent_action \<Rightarrow> agent_action) \<Rightarrow> agent_action proc" where
  "assign_action c f =
     (if f c = c then return c else seq (add_pending [Upd_action (ac_id c) f]) (return (f c)))"

text \<open>\<open>datetime.now(UTC)\<close> of this process.\<close>

definition decide :: "agent_action \<Rightarrow> action_status \<Rightarrow> agent_action proc" where
  "decide c s =
     bind (assign_action c (\<lambda>c. c\<lparr>ac_status := s\<rparr>)) (\<lambda>c.
     bind time_time (\<lambda>t. assign_action c (\<lambda>c. c\<lparr>ac_decided_at := Some t\<rparr>)))"

text \<open>\<open>scalar_one\<close>: no row raises.\<close>

definition endpoint_one :: "uuid \<Rightarrow> endpoint proc" where
  "endpoint_one i = bind (select_endpoint i) (\<lambda>row. case row of None \<Rightarrow> raise No_result | Some e \<Rightarrow> return e)"

definition apply_action :: "agent_action \<Rightarrow> endpoint \<Rightarrow> delivery list proc" where
  "apply_action c endpoint = (case ac_action c of
     Pause_endpoint \<Rightarrow> bind (assign_endpoint endpoint (\<lambda>e. e\<lparr>ep_status := Paused\<rparr>)) (\<lambda>_. return [])
   | Replay_dlq \<Rightarrow> bind (load_deliveries (dead_of (ep_id endpoint) None)) (map_proc revive))"

definition approve_action :: "uuid \<Rightarrow> tenant \<Rightarrow> agent_action proc" where
  "approve_action action_id tenant =
     bind (pending_action action_id tenant) (\<lambda>act.
     bind (endpoint_one (ac_endpoint_id act)) (\<lambda>endpoint.
     bind (apply_action act endpoint) (\<lambda>dead.
     bind (decide act AApproved) (\<lambda>act.
     seq commit
    (seq (only_if (ac_action act = Replay_dlq \<and> dead \<noteq> [])
           (seq (reset_breaker (ep_id endpoint))
                (for_each dead (\<lambda>d. enqueue_delivery (d_id d) (d_event_id d) (d_endpoint_id d)))))
         (return act))))))"

definition reject_action :: "uuid \<Rightarrow> tenant \<Rightarrow> agent_action proc" where
  "reject_action action_id tenant =
     bind (pending_action action_id tenant) (\<lambda>act.
     bind (decide act ARejected) (\<lambda>act.
     seq commit (return act)))"

end
