(* ===== verification/Guarded.thy ===== *)
theory Guarded
  imports Api_Core
begin

text \<open>
  Programs whose every effect must be justified by what they did before: an interface with the
  rules that carry such a justification through a program text.  The API's routes use it for
  tenant isolation, the diagnosis agent for what it may write.
\<close>

section \<open>What a process returns\<close>

definition gives :: "('a \<Rightarrow> bool) \<Rightarrow> 'a proc \<Rightarrow> bool" where
  "gives P m \<longleftrightarrow> (\<forall>w x w'. m w = (Inr x, w') \<longrightarrow> P x)"

lemma givesD: "gives P m \<Longrightarrow> m w = (Inr x, w') \<Longrightarrow> P x"
  unfolding gives_def by blast

lemma gives_return: "P x \<Longrightarrow> gives P (return x)"
  by (simp add: gives_def return_def)

lemma gives_raise: "gives P (raise e)"
  by (simp add: gives_def raise_def)

lemma gives_any: "gives (\<lambda>_. True) m"
  by (simp add: gives_def)

lemma gives_bind: "gives R m \<Longrightarrow> (\<And>x. R x \<Longrightarrow> gives P (f x)) \<Longrightarrow> gives P (bind m f)"
  unfolding gives_def bind_def by (fastforce split: prod.splits sum.splits)

lemma gives_bind_pair:
  "gives (\<lambda>(a, b). R a b) m \<Longrightarrow> (\<And>a b. R a b \<Longrightarrow> gives P (f a b)) \<Longrightarrow> gives P (bind m (\<lambda>(a, b). f a b))"
  by (erule gives_bind) (auto split: prod.splits)

lemma gives_after: "(\<And>x. gives P (f x)) \<Longrightarrow> gives P (bind m f)"
  by (rule gives_bind [OF gives_any])

lemma gives_seq: "gives P k \<Longrightarrow> gives P (seq m k)"
  unfolding seq_def by (rule gives_after)

lemma gives_if: "(b \<Longrightarrow> gives P m) \<Longrightarrow> (\<not> b \<Longrightarrow> gives P k) \<Longrightarrow> gives P (if b then m else k)"
  by simp

lemma gives_option: "(x = None \<Longrightarrow> gives P m) \<Longrightarrow> (\<And>y. x = Some y \<Longrightarrow> gives P (k y)) \<Longrightarrow> gives P (case x of None \<Rightarrow> m | Some y \<Rightarrow> k y)"
  by (cases x) simp_all

lemma gives_prod: "(\<And>a b. x = (a, b) \<Longrightarrow> gives P (f a b)) \<Longrightarrow> gives P (case x of (a, b) \<Rightarrow> f a b)"
  by (cases x) simp

section \<open>Justified effects\<close>

text \<open>Every action of a trace (latest first) was allowed by \<open>A\<close> when it happened.\<close>

fun all_ok :: "(action list \<Rightarrow> action \<Rightarrow> bool) \<Rightarrow> action list \<Rightarrow> bool" where
  "all_ok A [] = True"
| "all_ok A (a # tr) = (A tr a \<and> all_ok A tr)"

lemma overwritten:
  "l' = l\<lparr>loaded_deliveries := ds\<rparr> \<Longrightarrow> l'\<lparr>loaded_deliveries := ds'\<rparr> = l\<lparr>loaded_deliveries := ds'\<rparr>"
  "l' = l\<lparr>loaded_endpoints := es\<rparr> \<Longrightarrow> l'\<lparr>loaded_endpoints := es'\<rparr> = l\<lparr>loaded_endpoints := es'\<rparr>"
  by simp_all

locale guarded =
  fixes may_write :: "action list \<Rightarrow> db_write \<Rightarrow> bool" and may_do :: "action list \<Rightarrow> action \<Rightarrow> bool"
  assumes write_later: "may_write tr w \<Longrightarrow> may_write (a # tr) w"
    and commits: "may_do tr (Committed ws d) \<longleftrightarrow> list_all (may_write tr) ws"
    and looks: "may_do tr (Queried d)"
    and rolls_back: "may_do tr Rolled_back"
begin

text \<open>What was done and what is pending in the session is allowed.\<close>

definition allowed :: "local_state \<Rightarrow> bool" where
  "allowed l \<longleftrightarrow> all_ok may_do (trace l) \<and> list_all (may_write (trace l)) (pending l)"

lemma allowed_logged: "allowed l \<Longrightarrow> may_do (trace l) a \<Longrightarrow> allowed (logged a l)"
  by (auto simp: allowed_def list_all_iff write_later)

lemma allowed_pending: "allowed l \<Longrightarrow> list_all (may_write (trace l)) ws \<Longrightarrow> allowed (l\<lparr>pending := pending l @ ws\<rparr>)"
  by (simp add: allowed_def)

lemma allowed_committed: "allowed l \<Longrightarrow> allowed (logged (Committed (pending l) d) (l\<lparr>pending := []\<rparr>))"
  by (simp add: allowed_def commits)

lemma allowed_cleared: "allowed l \<Longrightarrow> allowed (clear_session l)"
  by (simp add: allowed_def clear_session_def)

lemma allowed_simps:
  "allowed (l\<lparr>session_broken := b\<rparr>) = allowed l" "allowed (l\<lparr>delay_var := v\<rparr>) = allowed l"
  "allowed (l\<lparr>loaded_deliveries := ds\<rparr>) = allowed l" "allowed (l\<lparr>loaded_endpoints := es\<rparr>) = allowed l"
  "allowed (l\<lparr>draws := n\<rparr>) = allowed l" "allowed (l\<lparr>metrics := ms\<rparr>) = allowed l"
  by (simp_all add: allowed_def)

text \<open>\<open>stays m Q l\<close>: from \<open>l\<close>, \<open>m\<close> stays within what is allowed, also when it raises, and ends with \<open>Q\<close>.\<close>

definition stays :: "'a proc \<Rightarrow> ('a \<Rightarrow> local_state \<Rightarrow> bool) \<Rightarrow> local_state \<Rightarrow> bool" where
  "stays m Q l \<longleftrightarrow> (allowed l \<longrightarrow> safe m (\<lambda>x l'. allowed l' \<and> Q x l') (\<lambda>_ l'. allowed l') l)"

lemma ok_return: "Q x l \<Longrightarrow> stays (return x) Q l"
  by (simp add: stays_def safe_return)

lemma ok_raise: "stays (raise e) Q l"
  by (simp add: stays_def safe_raise)

lemma ok_bind: "stays m (\<lambda>x. stays (f x) Q) l \<Longrightarrow> stays (bind m f) Q l"
  unfolding stays_def by (auto intro!: safe_bind elim: safe_mono)

lemma ok_seq: "stays m (\<lambda>_. stays k Q) l \<Longrightarrow> stays (seq m k) Q l"
  unfolding seq_def by (rule ok_bind)

lemma ok_only_if: "(b \<Longrightarrow> stays m Q l) \<Longrightarrow> (\<not> b \<Longrightarrow> Q () l) \<Longrightarrow> stays (only_if b m) Q l"
  by (simp add: only_if_def ok_return)

lemma ok_if: "(b \<Longrightarrow> stays m Q l) \<Longrightarrow> (\<not> b \<Longrightarrow> stays k Q l) \<Longrightarrow> stays (if b then m else k) Q l"
  by simp

lemma ok_option:
  "(x = None \<Longrightarrow> stays m Q l) \<Longrightarrow> (\<And>y. x = Some y \<Longrightarrow> stays (k y) Q l) \<Longrightarrow> stays (case x of None \<Rightarrow> m | Some y \<Rightarrow> k y) Q l"
  by (cases x) simp_all

lemma ok_list:
  "(x = [] \<Longrightarrow> stays m Q l) \<Longrightarrow> (\<And>y ys. x = y # ys \<Longrightarrow> stays (k y ys) Q l) \<Longrightarrow> stays (case x of [] \<Rightarrow> m | y # ys \<Rightarrow> k y ys) Q l"
  by (cases x) simp_all

lemma ok_prod: "(\<And>a b. p = (a, b) \<Longrightarrow> stays (f a b) Q l) \<Longrightarrow> stays (case p of (a, b) \<Rightarrow> f a b) Q l"
  by (cases p) simp

lemma ok_let: "stays (f x) Q l \<Longrightarrow> stays (let y = x in f y) Q l"
  by simp

lemma ok_mono: "stays m P l \<Longrightarrow> (\<And>x l'. P x l' \<Longrightarrow> Q x l') \<Longrightarrow> stays m Q l"
  unfolding stays_def by (auto elim: safe_mono)

lemma ok_query_as:
  "(\<And>d. may_do (trace l) (act (q d))) \<Longrightarrow> (\<And>d. Q (q d) (logged (act (q d)) l)) \<Longrightarrow> stays (query act q) Q l"
  unfolding stays_def by (auto intro!: safe_query allowed_logged)

lemma ok_query: "(\<And>d. Q (q d) (logged (Queried d) l)) \<Longrightarrow> stays (query_rows q) Q l"
  unfolding stays_def by (auto intro!: safe_query_rows allowed_logged looks)

lemma ok_commit: "(\<And>d. Q () (logged (Committed (pending l) d) (l\<lparr>pending := []\<rparr>))) \<Longrightarrow> stays commit Q l"
  unfolding stays_def by (auto intro!: safe_commit allowed_committed)

lemma ok_rollback: "Q () (logged Rolled_back (clear_session l)) \<Longrightarrow> stays rollback Q l"
  unfolding stays_def by (auto intro!: safe_rollback allowed_logged allowed_cleared rolls_back)

lemma ok_pending: "list_all (may_write (trace l)) ws \<Longrightarrow> Q () (l\<lparr>pending := pending l @ ws\<rparr>) \<Longrightarrow> stays (add_pending ws) Q l"
  unfolding stays_def by (auto intro!: safe_add_pending allowed_pending)

lemma ok_modify: "(\<And>l. allowed l \<Longrightarrow> allowed (f l)) \<Longrightarrow> Q () (f l) \<Longrightarrow> stays (modify_local f) Q l"
  unfolding stays_def by (auto intro!: safe_modify_local)

lemma ok_metric: "Q () (l\<lparr>metrics := m # metrics l\<rparr>) \<Longrightarrow> stays (count_metric m) Q l"
  unfolding count_metric_def by (rule ok_modify) (simp_all add: allowed_simps)

lemma ok_inputs:
  "(\<And>c. Q c l) \<Longrightarrow> stays settings_of Q l" "(\<And>s. Q1 s l) \<Longrightarrow> stays time_time Q1 l" "(\<And>s. Q1 s l) \<Longrightarrow> stays db_now Q1 l"
  "(\<And>u. Q2 u (l\<lparr>draws := Suc (draws l)\<rparr>)) \<Longrightarrow> stays uuid4 Q2 l"
  "(\<And>s. Q3 s (l\<lparr>draws := Suc (draws l)\<rparr>)) \<Longrightarrow> stays token_urlsafe Q3 l"
  unfolding stays_def by (auto intro!: safe_inputs safe_uuid4 safe_token_urlsafe simp: allowed_simps)

lemma ok_redis_unit: "may_do (trace l) a \<Longrightarrow> Q () (logged a l) \<Longrightarrow> stays (redis_unit a f) Q l"
  unfolding stays_def by (auto intro!: safe_redis_unit allowed_logged)

lemma ok_redis: "(\<And>r. may_do (trace l) (act r)) \<Longrightarrow> (\<And>r. Q r (logged (act r) l)) \<Longrightarrow> stays (redis act f) Q l"
  unfolding stays_def by (auto intro!: safe_redis allowed_logged)

lemma ok_except_in:
  assumes "stays m Q l" and "\<And>e l'. stays (h e) Q l'"
  shows "stays (except_in es m h) Q l"
proof -
  have "safe (except_in es m h) (\<lambda>x l'. allowed l' \<and> Q x l') (\<lambda>_ l'. allowed l') l" if "allowed l"
  proof (rule safe_except_in, rule safe_mono)
    show "safe m (\<lambda>x l'. allowed l' \<and> Q x l') (\<lambda>_ l'. allowed l') l" using assms(1) that by (simp add: stays_def)
  qed (use assms(2) in \<open>auto simp: stays_def\<close>)
  then show ?thesis by (simp add: stays_def)
qed

lemma ok_try_except:
  assumes "stays m Q l" and "\<And>e l'. stays (h e) Q l'"
  shows "stays (try_except m h) Q l"
proof -
  have "safe (try_except m h) (\<lambda>x l'. allowed l' \<and> Q x l') (\<lambda>_ l'. allowed l') l" if "allowed l"
  proof (rule safe_try_except, rule safe_mono)
    show "safe m (\<lambda>x l'. allowed l' \<and> Q x l') (\<lambda>_ l'. allowed l') l" using assms(1) that by (simp add: stays_def)
  qed (use assms(2) in \<open>auto simp: stays_def\<close>)
  then show ?thesis by (simp add: stays_def)
qed

lemma ok_map_proc:
  assumes "I [] l" and "\<And>x ys l. x \<in> set xs \<Longrightarrow> I ys l \<Longrightarrow> stays (f x) (\<lambda>y. I (ys @ [y])) l"
  shows "stays (map_proc f xs) I l"
  unfolding stays_def
  by (intro impI, rule safe_map_proc [where I = "\<lambda>ys l. allowed l \<and> I ys l"]) (use assms in \<open>auto simp: stays_def\<close>)

lemma ok_for_each:
  assumes "I l" and "\<And>x l. x \<in> set xs \<Longrightarrow> I l \<Longrightarrow> stays (f x) (\<lambda>_. I) l"
  shows "stays (for_each xs f) (\<lambda>_. I) l"
  unfolding stays_def
  by (intro impI, rule safe_for_each [where I = "\<lambda>l. allowed l \<and> I l"]) (use assms in \<open>auto simp: stays_def\<close>)

lemma ok_with_session:
  assumes "stays m (\<lambda>x l'. Q x (clear_session l')) (clear_session l)"
  shows "stays (with_session m) Q l"
proof -
  have "safe m (\<lambda>x l'. allowed l' \<and> Q x (clear_session l')) (\<lambda>_ l'. allowed l') (clear_session l)" if "allowed l"
    using assms allowed_cleared [OF that] by (simp add: stays_def)
  then show ?thesis
    unfolding stays_def by (intro impI safe_with_session) (auto elim!: safe_mono intro: allowed_cleared)
qed

lemma ok_load_deliveries:
  assumes "loaded_deliveries l = []"
    and "\<And>d xs ds. set xs \<subseteq> set (q d) \<Longrightarrow> Q xs (logged (Queried d) l\<lparr>loaded_deliveries := ds\<rparr>)"
  shows "stays (load_deliveries q) Q l"
  unfolding load_deliveries_def
proof (intro ok_bind ok_query)
  fix d
  let ?l = "logged (Queried d) l"
  let ?I = "\<lambda>ys l'. set ys \<subseteq> set (q d) \<and> set (loaded_deliveries l') \<subseteq> set (q d) \<and> l' = ?l\<lparr>loaded_deliveries := loaded_deliveries l'\<rparr>"
  have load: "safe (load_delivery x) (\<lambda>y. ?I (ys @ [y])) (\<lambda>_ _. False) l'" if "x \<in> set (q d)" "?I ys l'" for x ys l'
    by (rule safe_load_delivery_in) (use that in \<open>auto intro: overwritten\<close>)
  have all: "safe (map_proc load_delivery (q d)) ?I (\<lambda>_ _. False) ?l"
    by (rule safe_map_proc) (use load assms(1) in auto)
  have "safe (map_proc load_delivery (q d)) (\<lambda>x l'. allowed l' \<and> Q x l') (\<lambda>_ l'. allowed l') ?l" if "allowed ?l"
    by (rule safe_mono [OF all]) (use assms(2) [of _ d] that in \<open>auto simp del: logged_fields, (metis allowed_simps)+\<close>)
  then show "stays (map_proc load_delivery (q d)) Q ?l" by (simp add: stays_def)
qed

lemma ok_load_endpoints:
  assumes "loaded_endpoints l = []"
    and "\<And>d xs es. set xs \<subseteq> set (q d) \<Longrightarrow> Q xs (logged (Queried d) l\<lparr>loaded_endpoints := es\<rparr>)"
  shows "stays (load_endpoints q) Q l"
  unfolding load_endpoints_def
proof (intro ok_bind ok_query)
  fix d
  let ?l = "logged (Queried d) l"
  let ?I = "\<lambda>ys l'. set ys \<subseteq> set (q d) \<and> set (loaded_endpoints l') \<subseteq> set (q d) \<and> l' = ?l\<lparr>loaded_endpoints := loaded_endpoints l'\<rparr>"
  have load: "safe (load_endpoint x) (\<lambda>y. ?I (ys @ [y])) (\<lambda>_ _. False) l'" if "x \<in> set (q d)" "?I ys l'" for x ys l'
    by (rule safe_load_endpoint_in) (use that in \<open>auto intro: overwritten\<close>)
  have all: "safe (map_proc load_endpoint (q d)) ?I (\<lambda>_ _. False) ?l"
    by (rule safe_map_proc) (use load assms(1) in auto)
  have "safe (map_proc load_endpoint (q d)) (\<lambda>x l'. allowed l' \<and> Q x l') (\<lambda>_ l'. allowed l') ?l" if "allowed ?l"
    by (rule safe_mono [OF all]) (use assms(2) [of _ d] that in \<open>auto simp del: logged_fields, (metis allowed_simps)+\<close>)
  then show "stays (map_proc load_endpoint (q d)) Q ?l" by (simp add: stays_def)
qed

end

text \<open>
  Within a longer piece of work something stays true of the trace (what the work may rely on):
  \<open>up m\<close> says that \<open>m\<close> stays within what is allowed and keeps it, however it ends.
\<close>

locale guarded_work = guarded +
  fixes J :: "action list \<Rightarrow> bool"
  assumes J_later: "J tr \<Longrightarrow> J (a # tr)"
begin

definition fine :: "local_state \<Rightarrow> bool" where
  "fine l \<longleftrightarrow> allowed l \<and> J (trace l)"

definition up :: "'a proc \<Rightarrow> bool" where
  "up m \<longleftrightarrow> (\<forall>l. fine l \<longrightarrow> safe m (\<lambda>_. fine) (\<lambda>_. fine) l)"

lemma upI: "(\<And>l. fine l \<Longrightarrow> safe m (\<lambda>_. fine) (\<lambda>_. fine) l) \<Longrightarrow> up m"
  by (simp add: up_def)

lemma upD: "up m \<Longrightarrow> fine l \<Longrightarrow> safe m (\<lambda>_. fine) (\<lambda>_. fine) l"
  by (simp add: up_def)

lemma fine_logged: "fine l \<Longrightarrow> may_do (trace l) a \<Longrightarrow> fine (logged a l)"
  by (simp add: fine_def allowed_logged J_later)

lemma fine_simps [simp]:
  "fine (l\<lparr>session_broken := b\<rparr>) = fine l" "fine (l\<lparr>delay_var := v\<rparr>) = fine l" "fine (l\<lparr>draws := n\<rparr>) = fine l"
  "fine (l\<lparr>metrics := ms\<rparr>) = fine l" "fine (l\<lparr>loaded_deliveries := ds\<rparr>) = fine l" "fine (l\<lparr>loaded_endpoints := es\<rparr>) = fine l"
  by (simp_all add: fine_def allowed_simps)

lemma fine_cleared: "fine l \<Longrightarrow> fine (clear_session l)"
  by (simp add: fine_def allowed_cleared)

lemma up_return: "up (return x)"
  by (simp add: up_def safe_return)

lemma up_raise: "up (raise e)"
  by (simp add: up_def safe_raise)

lemma up_bind: "up m \<Longrightarrow> (\<And>x. up (f x)) \<Longrightarrow> up (bind m f)"
  by (rule upI, rule safe_bind, rule safe_mono [OF upD]) (auto dest: upD)

lemma up_bind_gives: "up m \<Longrightarrow> gives P m \<Longrightarrow> (\<And>x. P x \<Longrightarrow> up (f x)) \<Longrightarrow> up (bind m f)"
proof (rule upI, rule safe_bind)
  fix l assume m: "up m" "gives P m" and f: "\<And>x. P x \<Longrightarrow> up (f x)" and l: "fine l"
  have "safe m (\<lambda>x l'. fine l' \<and> P x) (\<lambda>_. fine) l"
    by (rule safeI) (use safe_run [OF upD [OF m(1) l]] givesD [OF m(2)] in blast)+
  then show "safe m (\<lambda>x. safe (f x) (\<lambda>_. fine) (\<lambda>_. fine)) (\<lambda>_. fine) l"
    by (rule safe_mono) (auto dest: f upD)
qed

lemma up_bind_pair:
  "up m \<Longrightarrow> gives (\<lambda>(a, b). R a b) m \<Longrightarrow> (\<And>a b. R a b \<Longrightarrow> up (f a b)) \<Longrightarrow> up (bind m (\<lambda>(a, b). f a b))"
  by (erule (1) up_bind_gives) (auto split: prod.splits)

lemma up_seq: "up m \<Longrightarrow> up k \<Longrightarrow> up (seq m k)"
  unfolding seq_def by (rule up_bind)

lemma up_only_if: "(b \<Longrightarrow> up m) \<Longrightarrow> up (only_if b m)"
  by (simp add: only_if_def up_return)

lemma up_if: "(b \<Longrightarrow> up m) \<Longrightarrow> (\<not> b \<Longrightarrow> up k) \<Longrightarrow> up (if b then m else k)"
  by simp

lemma up_option: "up m \<Longrightarrow> (\<And>y. x = Some y \<Longrightarrow> up (k y)) \<Longrightarrow> up (case x of None \<Rightarrow> m | Some y \<Rightarrow> k y)"
  by (cases x) simp_all

lemma up_sum: "(\<And>e. x = Inl e \<Longrightarrow> up (h e)) \<Longrightarrow> (\<And>y. x = Inr y \<Longrightarrow> up (k y)) \<Longrightarrow> up (case x of Inl e \<Rightarrow> h e | Inr y \<Rightarrow> k y)"
  by (cases x) simp_all

lemma up_prod: "(\<And>a b. up (f a b)) \<Longrightarrow> up (case x of (a, b) \<Rightarrow> f a b)"
  by (cases x) simp

lemma up_let: "up (f x) \<Longrightarrow> up (let y = x in f y)"
  by simp

lemma up_try_except: "up m \<Longrightarrow> (\<And>e. up (h e)) \<Longrightarrow> up (try_except m h)"
  by (rule upI, rule safe_try_except, rule safe_mono [OF upD]) (auto dest: upD)

lemma up_except_in: "up m \<Longrightarrow> (\<And>e. up (h e)) \<Longrightarrow> up (except_in es m h)"
  by (rule upI, rule safe_except_in, rule safe_mono [OF upD]) (auto dest: upD)

lemma up_try_finally: "up m \<Longrightarrow> up fin \<Longrightarrow> up (try_finally m fin)"
  by (rule upI, rule safe_try_finally, rule safe_mono [OF upD]) (auto dest: upD)

lemma up_map_proc: "(\<And>x. up (f x)) \<Longrightarrow> up (map_proc f xs)"
  by (induction xs) (auto intro: up_return up_bind)

lemma up_modify: "(\<And>l. fine l \<Longrightarrow> fine (f l)) \<Longrightarrow> up (modify_local f)"
  by (rule upI) (simp add: safe_modify_local)

lemma up_log: "(\<And>tr. may_do tr a) \<Longrightarrow> up (modify_local (logged a))"
  by (rule up_modify) (rule fine_logged)

lemma up_metric: "up (count_metric m)"
  unfolding count_metric_def by (rule up_modify) simp

lemma up_pending: "(\<And>tr. J tr \<Longrightarrow> list_all (may_write tr) ws) \<Longrightarrow> up (add_pending ws)"
  by (rule upI, rule safe_add_pending) (simp add: fine_def allowed_pending)

lemma up_inputs: "up settings_of" "up time_time" "up db_now" "up uuid4" "up next_draw" "up (get_local g)"
  by (auto intro!: upI safe_inputs safe_uuid4 safe_get_local simp: safe_def next_draw_def)

lemma up_effect: "(\<And>w r w'. fine (w_loc w) \<Longrightarrow> f w = (r, w') \<Longrightarrow> fine (w_loc w')) \<Longrightarrow> up (effect co f)"
  by (rule upI, rule safe_effect) auto

lemma up_redis: "(\<And>tr r. may_do tr (act r)) \<Longrightarrow> up (redis act f)"
  by (rule upI, rule safe_redis) (auto intro: fine_logged)

lemma up_redis_unit: "(\<And>tr. may_do tr a) \<Longrightarrow> up (redis_unit a f)"
  by (rule upI, rule safe_redis_unit) (auto intro: fine_logged)

lemma up_query: "(\<And>tr r. may_do tr (act r)) \<Longrightarrow> up (query act q)"
  by (rule upI, rule safe_query) (auto intro: fine_logged)

lemma up_query_rows: "up (query_rows q)"
  by (rule upI, rule safe_query_rows) (auto intro: fine_logged looks)

lemma up_commit: "up commit"
  by (rule upI, rule safe_commit) (auto simp: fine_def intro: allowed_committed J_later)

lemma up_refused_commit: "up (refused_commit e)"
  unfolding refused_commit_def by (rule up_effect) auto

lemma up_http_post: "(\<And>tr r. may_do tr (Posted rq r)) \<Longrightarrow> up (http_post rq)"
  by (rule upI, rule safe_http_post) (auto intro!: fine_logged)

lemma up_in_session: "up m \<Longrightarrow> up (in_session m)"
  unfolding in_session_def by (intro up_bind up_inputs up_if up_raise up_try_except up_seq up_modify) auto

lemma up_with_session: "up m \<Longrightarrow> up (with_session m)"
  by (rule upI, rule safe_with_session, rule safe_mono [OF upD]) (auto intro: fine_cleared)

lemma up_select_endpoint: "(\<And>tr r. may_do tr (Select_endpoint i r)) \<Longrightarrow> up (select_endpoint i)"
  unfolding select_endpoint_def
  by (intro up_bind up_query; simp add: option_map_proc_def load_endpoint_def up_def safe_def bind_def return_def split: option.splits)

lemma up_load_deliveries: "up (load_deliveries q)"
  unfolding load_deliveries_def
  by (intro up_bind up_query_rows up_map_proc) (simp add: load_delivery_def up_def safe_def split: option.splits)

lemmas up_control = up_return up_raise up_bind up_seq up_only_if up_if up_option up_sum up_prod up_let up_try_except up_in_session
  up_metric up_inputs up_query_rows up_commit up_refused_commit up_load_deliveries

end

end
