(* ===== verification/Api_Safety.thy ===== *)
theory Api_Safety
  imports Api_Manage Guarded
begin

text \<open>
  Tenant isolation.  Every tenant route is a constructor of \<open>tenant_request\<close>; whatever fails and
  whatever other processes do, what a request writes, enqueues, resets or answers belongs to
  the tenant whose key it carried, by the rows the request itself read before.
\<close>

section \<open>Requests\<close>

datatype tenant_request =
    Create_endpoint endpoint_create | List_endpoints | Get_endpoint uuid | Patch_endpoint uuid endpoint_patch
  | Get_breaker uuid | Reset_breaker uuid | Delete_endpoint uuid
  | Ingest event_create | Get_event uuid
  | List_deliveries "uuid option" "string option" int int | List_attempts uuid
  | List_dlq "uuid option" int int | Replay replay_request
  | List_diagnoses "uuid option" "string option" int | Get_diagnosis uuid | Acknowledge uuid | List_actions uuid
  | Approve uuid | Reject uuid

datatype response =
    R_created endpoint | R_endpoint endpoint_out | R_endpoints "endpoint_out list" | R_breaker breaker_view | R_none
  | R_accepted uuid | R_event event_out | R_deliveries "delivery list" | R_attempts "attempt list"
  | R_replayed "uuid list" | R_diagnosis diagnosis | R_diagnoses "diagnosis list"
  | R_action agent_action | R_actions "agent_action list"

text \<open>What FastAPI checks of body and parameters.\<close>

definition request_ok :: "tenant_request \<Rightarrow> bool" where
  "request_ok rq = (case rq of
     Create_endpoint b \<Rightarrow> endpoint_create_ok b
   | Patch_endpoint i b \<Rightarrow> endpoint_patch_ok b
   | Ingest b \<Rightarrow> event_create_ok b
   | List_deliveries e s limit offset \<Rightarrow> page_ok limit offset
   | List_dlq e limit offset \<Rightarrow> page_ok limit offset
   | List_diagnoses e s limit \<Rightarrow> page_ok limit 0
   | _ \<Rightarrow> True)"

definition answer :: "('a \<Rightarrow> response) \<Rightarrow> 'a proc \<Rightarrow> response proc" where
  "answer f m = bind m (\<lambda>x. return (f x))"

definition serve :: "tenant_request \<Rightarrow> tenant \<Rightarrow> response proc" where
  "serve rq tenant = (case rq of
     Create_endpoint b \<Rightarrow> answer R_created (create_endpoint b tenant)
   | List_endpoints \<Rightarrow> answer R_endpoints (list_endpoints tenant)
   | Get_endpoint i \<Rightarrow> answer R_endpoint (get_endpoint i tenant)
   | Patch_endpoint i b \<Rightarrow> answer R_endpoint (patch_endpoint i b tenant)
   | Get_breaker i \<Rightarrow> answer R_breaker (get_breaker i tenant)
   | Reset_breaker i \<Rightarrow> answer (\<lambda>_. R_none) (reset_breaker_endpoint i tenant)
   | Delete_endpoint i \<Rightarrow> answer (\<lambda>_. R_none) (delete_endpoint i tenant)
   | Ingest b \<Rightarrow> answer R_accepted (ingest_event b tenant)
   | Get_event i \<Rightarrow> answer R_event (get_event i tenant)
   | List_deliveries e s limit offset \<Rightarrow> answer R_deliveries (list_deliveries e s limit offset tenant)
   | List_attempts i \<Rightarrow> answer R_attempts (list_attempts i tenant)
   | List_dlq e limit offset \<Rightarrow> answer R_deliveries (list_dlq e limit offset tenant)
   | Replay b \<Rightarrow> answer R_replayed (replay b tenant)
   | List_diagnoses e s limit \<Rightarrow> answer R_diagnoses (list_diagnoses e s limit tenant)
   | Get_diagnosis i \<Rightarrow> answer R_diagnosis (get_diagnosis i tenant)
   | Acknowledge i \<Rightarrow> answer R_diagnosis (acknowledge i tenant)
   | List_actions i \<Rightarrow> answer R_actions (list_actions i tenant)
   | Approve i \<Rightarrow> answer R_action (approve_action i tenant)
   | Reject i \<Rightarrow> answer R_action (reject_action i tenant))"

definition api :: "string option \<Rightarrow> tenant_request \<Rightarrow> response proc" where
  "api authorization rq = tenant_route authorization (request_ok rq) (serve rq)"

section \<open>Evidence in the trace\<close>

text \<open>\<open>tr\<close> is what the request did before: it saw an endpoint \<open>i\<close> of tenant \<open>t\<close>.\<close>

definition saw :: "(db \<Rightarrow> bool) \<Rightarrow> action list \<Rightarrow> bool" where
  "saw P tr \<longleftrightarrow> (\<exists>d. Queried d \<in> set tr \<and> P d)"

definition owns :: "uuid \<Rightarrow> uuid \<Rightarrow> action list \<Rightarrow> bool" where
  "owns t i tr \<longleftrightarrow> saw (\<lambda>d. \<exists>e \<in> set (endpoints d). ep_id e = i \<and> ep_tenant_id e = t) tr"

text \<open>It saw a row with key \<open>i\<close> in a table that refers to an endpoint of the tenant.\<close>

definition of_tenant :: "uuid \<Rightarrow> (db \<Rightarrow> 'r list) \<Rightarrow> ('r \<Rightarrow> uuid) \<Rightarrow> ('r \<Rightarrow> uuid) \<Rightarrow> uuid \<Rightarrow> action list \<Rightarrow> bool" where
  "of_tenant t rows key ep i tr \<longleftrightarrow> (\<exists>p. owns t p tr \<and> saw (\<lambda>d. \<exists>x \<in> set (rows d). key x = i \<and> ep x = p) tr)"

fun write_ok :: "uuid \<Rightarrow> action list \<Rightarrow> db_write \<Rightarrow> bool" where
  "write_ok t tr (Ins_endpoint e) = (ep_tenant_id e = t)"
| "write_ok t tr (Ins_event ev) = (ev_tenant_id ev = t)"
| "write_ok t tr (Ins_delivery d) = owns t (d_endpoint_id d) tr"
| "write_ok t tr (Upd_endpoint i f) = owns t i tr"
| "write_ok t tr (Del_endpoint i) = owns t i tr"
| "write_ok t tr (Upd_delivery i f) = of_tenant t deliveries d_id d_endpoint_id i tr"
| "write_ok t tr (Upd_diagnosis i f) = of_tenant t diagnoses dg_id dg_endpoint_id i tr"
| "write_ok t tr (Upd_action i f) = of_tenant t actions ac_id ac_endpoint_id i tr"
| "write_ok t tr w = False"

fun act_ok :: "uuid \<Rightarrow> action list \<Rightarrow> action \<Rightarrow> bool" where
  "act_ok t tr (Committed ws d) = list_all (write_ok t tr) ws"
| "act_ok t tr (Xadd d e p) = owns t p tr"
| "act_ok t tr (Rpush p d) = owns t p tr"
| "act_ok t tr (Breaker_read p) = owns t p tr"
| "act_ok t tr (Breaker_reset p) = owns t p tr"
| "act_ok t tr (Zrem_retry d e p b) = owns t p tr"
| "act_ok t tr (Queried d) = True"
| "act_ok t tr (Select_endpoint i r) = True"
| "act_ok t tr Rolled_back = True"
| "act_ok t tr a = False"

abbreviation confined :: "uuid \<Rightarrow> action list \<Rightarrow> bool" where
  "confined t \<equiv> all_ok (act_ok t)"

definition accepted_ok :: "uuid \<Rightarrow> uuid \<Rightarrow> action list \<Rightarrow> bool" where
  "accepted_ok t i tr \<longleftrightarrow> saw (\<lambda>d. \<exists>e \<in> set (events d). ev_id e = i \<and> ev_tenant_id e = t) tr \<or>
     (\<exists>ws d e. Committed ws d \<in> set tr \<and> Ins_event e \<in> set ws \<and> ev_id e = i \<and> ev_tenant_id e = t)"

text \<open>A row of a table the request read, and the answer about an event: the event as it was read, with
  deliveries read as deliveries of that event.\<close>

definition row_of :: "(db \<Rightarrow> 'r list) \<Rightarrow> 'r \<Rightarrow> action list \<Rightarrow> bool" where
  "row_of rows x tr \<longleftrightarrow> saw (\<lambda>d. x \<in> set (rows d)) tr"

definition event_answer_ok :: "uuid \<Rightarrow> action list \<Rightarrow> event_out \<Rightarrow> bool" where
  "event_answer_ok t tr v \<longleftrightarrow>
     saw (\<lambda>d. \<exists>e \<in> set (events d). ev_tenant_id e = t \<and> ev_id e = vo_id v \<and> ev_event_type e = vo_event_type v \<and>
        ev_payload e = vo_payload v \<and> ev_idempotency_key e = vo_idempotency_key v \<and> ev_created_at e = vo_created_at v) tr \<and>
     (\<forall>s \<in> set (vo_deliveries v). saw (\<lambda>d. \<exists>x \<in> set (deliveries d). d_event_id x = vo_id v \<and> s = delivery_status_view x) tr)"

fun response_ok :: "uuid \<Rightarrow> action list \<Rightarrow> response \<Rightarrow> bool" where
  "response_ok t tr (R_created e) = (ep_tenant_id e = t)"
| "response_ok t tr (R_endpoint v) = owns t (eo_id v) tr"
| "response_ok t tr (R_endpoints vs) =
     (\<forall>v \<in> set vs. saw (\<lambda>d. \<exists>e \<in> set (endpoints d). ep_tenant_id e = t \<and> v = endpoint_view e) tr)"
| "response_ok t tr (R_accepted i) = accepted_ok t i tr"
| "response_ok t tr (R_event v) = event_answer_ok t tr v"
| "response_ok t tr (R_deliveries ds) = (\<forall>d \<in> set ds. row_of deliveries d tr \<and> owns t (d_endpoint_id d) tr)"
| "response_ok t tr (R_attempts as) =
     (\<forall>a \<in> set as. row_of attempts a tr \<and> of_tenant t deliveries d_id d_endpoint_id (a_delivery_id a) tr)"
| "response_ok t tr (R_diagnosis g) = owns t (dg_endpoint_id g) tr"
| "response_ok t tr (R_diagnoses gs) = (\<forall>g \<in> set gs. row_of diagnoses g tr \<and> owns t (dg_endpoint_id g) tr)"
| "response_ok t tr (R_action c) = owns t (ac_endpoint_id c) tr"
| "response_ok t tr (R_actions cs) =
     (\<forall>c \<in> set cs. row_of actions c tr \<and> of_tenant t diagnoses dg_id dg_endpoint_id (ac_diagnosis_id c) tr)"
| "response_ok t tr (R_breaker v) = (\<exists>p. owns t p tr \<and> Breaker_read p \<in> set tr)"
| "response_ok t tr (R_replayed is) = (\<forall>i \<in> set is. of_tenant t deliveries d_id d_endpoint_id i tr)"
| "response_ok t tr R_none = True"

lemma saw_Cons [simp]: "saw P (a # tr) \<longleftrightarrow> (\<exists>d. a = Queried d \<and> P d) \<or> saw P tr"
  by (auto simp: saw_def)

lemma row_of_Cons [simp]: "row_of rows x (a # tr) \<longleftrightarrow> (\<exists>d. a = Queried d \<and> x \<in> set (rows d)) \<or> row_of rows x tr"
  by (simp add: row_of_def)

lemma owns_Cons: "owns t i tr \<Longrightarrow> owns t i (a # tr)"
  by (simp add: owns_def)

lemma of_tenant_Cons: "of_tenant t rows key ep i tr \<Longrightarrow> of_tenant t rows key ep i (a # tr)"
  unfolding of_tenant_def using owns_Cons by fastforce

lemma write_ok_Cons: "write_ok t tr w \<Longrightarrow> write_ok t (a # tr) w"
  by (cases w) (auto simp: owns_Cons of_tenant_Cons)

section \<open>The rules of a request\<close>

interpretation tenant: guarded "write_ok t" "act_ok t" for t
  by unfold_locales (auto simp: write_ok_Cons)

text \<open>\<open>inv t l\<close>: what the request did and what it has pending is the tenant's; \<open>step t m Q l\<close>: from
  \<open>l\<close>, \<open>m\<close> keeps it so, also when it raises.\<close>

abbreviation inv :: "uuid \<Rightarrow> local_state \<Rightarrow> bool" where
  "inv t \<equiv> guarded.allowed (write_ok t) (act_ok t)"

abbreviation step :: "uuid \<Rightarrow> 'a proc \<Rightarrow> ('a \<Rightarrow> local_state \<Rightarrow> bool) \<Rightarrow> local_state \<Rightarrow> bool" where
  "step t \<equiv> guarded.stays (write_ok t) (act_ok t)"

named_theorems step_intro "rules for requests that stay within their tenant"

lemmas inv_def = tenant.allowed_def and step_def = tenant.stays_def and inv_logged = tenant.allowed_logged
  and inv_pending = tenant.allowed_pending and inv_committed = tenant.allowed_committed and inv_cleared = tenant.allowed_cleared
  and inv_simps [simp] = tenant.allowed_simps
lemmas step_return [step_intro] = tenant.ok_return and step_raise [step_intro] = tenant.ok_raise
  and step_bind [step_intro] = tenant.ok_bind and step_seq [step_intro] = tenant.ok_seq
  and step_only_if [step_intro] = tenant.ok_only_if and step_if [step_intro] = tenant.ok_if
  and step_option [step_intro] = tenant.ok_option and step_list [step_intro] = tenant.ok_list
  and step_let [step_intro] = tenant.ok_let and step_query [step_intro] = tenant.ok_query
  and step_commit [step_intro] = tenant.ok_commit and step_rollback [step_intro] = tenant.ok_rollback
  and step_pending [step_intro] = tenant.ok_pending and step_metric [step_intro] = tenant.ok_metric
  and step_inputs [step_intro] = tenant.ok_inputs and step_redis_unit [step_intro] = tenant.ok_redis_unit
  and step_redis [step_intro] = tenant.ok_redis
lemmas step_load_deliveries [step_intro] = tenant.ok_load_deliveries
  and step_load_endpoints [step_intro] = tenant.ok_load_endpoints
lemmas step_mono = tenant.ok_mono and step_modify = tenant.ok_modify and step_map_proc = tenant.ok_map_proc
  and step_for_each = tenant.ok_for_each

section \<open>The routes\<close>

lemma owned_evidence [simp]:
  "i \<in> set (owned_ids tenant d) \<Longrightarrow> owns (t_id tenant) i (Queried d # tr)"
  by (auto simp: owned_ids_def owns_def)

lemma owns_logged: "owns t i tr \<Longrightarrow> owns t i (a # tr)"
  by (rule owns_Cons)

lemma step_narrow [step_intro]:
  "(\<And>owned'. set owned' \<subseteq> set owned \<Longrightarrow> Q owned' l) \<Longrightarrow> step t (narrow e owned) Q l"
  unfolding narrow_def by (auto intro!: step_intro)

lemma step_get_owned:
  assumes "loaded_endpoints l = []"
    and "\<And>d e es. ep_id e = i \<Longrightarrow> ep_tenant_id e = t_id tenant \<Longrightarrow> owns (t_id tenant) i (Queried d # trace l)
      \<Longrightarrow> Q e (logged (Queried d) l\<lparr>loaded_endpoints := es\<rparr>)"
  shows "step (t_id tenant) (get_owned tenant i) Q l"
  unfolding get_owned_def
  by (intro step_intro) (use assms in \<open>auto simp: endpoint_of_def owns_def\<close>)

lemma step_owned_diagnosis:
  assumes "\<And>d1 d2 g. g \<in> set (diagnoses d2) \<Longrightarrow> dg_id g = i \<Longrightarrow> owns (t_id tenant) (dg_endpoint_id g) (Queried d1 # trace l)
    \<Longrightarrow> Q g (logged (Queried d2) (logged (Queried d1) l))"
  shows "step (t_id tenant) (get_owned_diagnosis tenant i) Q l"
  unfolding get_owned_diagnosis_def
  by (intro step_intro) (use assms in \<open>auto simp: owned_diagnosis_def dest: find_SomeD\<close>)

lemma step_pending_action:
  assumes "\<And>d1 d2 c. c \<in> set (actions d2) \<Longrightarrow> owns (t_id tenant) (ac_endpoint_id c) (Queried d1 # trace l)
    \<Longrightarrow> Q c (logged (Queried d2) (logged (Queried d1) l))"
  shows "step (t_id tenant) (pending_action i tenant) Q l"
  unfolding pending_action_def
  by (intro step_intro) (use assms in \<open>auto simp: owned_action_def dest: find_SomeD\<close>)

lemma step_assign_delivery:
  assumes "of_tenant t deliveries d_id d_endpoint_id (d_id d) (trace l)"
    and "\<And>l'. trace l' = trace l \<Longrightarrow> Q (f d) l'"
  shows "step t (assign_delivery d f) Q l"
  unfolding assign_delivery_def
  by (intro step_intro step_modify) (use assms in auto)

definition same_target :: "delivery \<Rightarrow> delivery \<Rightarrow> bool" where
  "same_target d x \<longleftrightarrow> d_id x = d_id d \<and> d_endpoint_id x = d_endpoint_id d \<and> d_event_id x = d_event_id d"

lemma step_revive:
  assumes "of_tenant t deliveries d_id d_endpoint_id (d_id d) (trace l)"
  shows "step t (revive d) (\<lambda>x l'. trace l' = trace l \<and> same_target d x) l"
  unfolding revive_def
  by (intro step_bind step_assign_delivery) (use assms in \<open>simp_all add: same_target_def\<close>)

lemma step_revive_all:
  assumes "\<And>d. d \<in> set ds \<Longrightarrow> of_tenant t deliveries d_id d_endpoint_id (d_id d) (trace l)"
    and "\<And>d. d \<in> set ds \<Longrightarrow> d_endpoint_id d = p"
  shows "step t (map_proc revive ds) (\<lambda>xs l'. trace l' = trace l \<and> (\<forall>x \<in> set xs. d_endpoint_id x = p \<and>
     of_tenant t deliveries d_id d_endpoint_id (d_id x) (trace l))) l"
  by (rule step_map_proc, simp, rule step_mono [OF step_revive]) (use assms in \<open>auto simp: same_target_def\<close>)

lemma step_enqueue_delivery:
  "owns t p (trace l) \<Longrightarrow> Q () (logged (Xadd d e p) l) \<Longrightarrow> step t (enqueue_delivery d e p) Q l"
  unfolding enqueue_delivery_def by (intro step_intro) simp_all

lemma step_replay_one:
  assumes "owns t (d_endpoint_id d) (trace l)" and "J (trace l)" and "\<And>a tr. J tr \<Longrightarrow> J (a # tr)"
  shows "step t (replay_one mode d) (\<lambda>i l'. i = d_id d \<and> owns t (d_endpoint_id d) (trace l') \<and> J (trace l')) l"
  unfolding replay_one_def remove_from_retry_queue_def enqueue_one_def enqueue_ordered_def
  by (intro step_intro step_enqueue_delivery) (use assms in \<open>simp_all add: owns_Cons\<close>)

lemma step_assign_endpoint:
  assumes "owns t (ep_id e) (trace l)" and "\<And>l'. trace l' = trace l \<Longrightarrow> Q (f e) l'"
  shows "step t (assign_endpoint e f) Q l"
  unfolding assign_endpoint_def by (intro step_intro step_modify) (use assms in auto)

lemma step_set_if:
  assumes "owns t (ep_id e) (trace l)" and "\<And>v e. ep_id (f v e) = ep_id e"
    and "\<And>e' l'. trace l' = trace l \<Longrightarrow> ep_id e' = ep_id e \<Longrightarrow> Q e' l'"
  shows "step t (set_if v f e) Q l"
  unfolding set_if_def by (intro step_intro step_assign_endpoint) (use assms in auto)

lemma create_endpoint_confined:
  "step (t_id tenant) (create_endpoint b tenant) (\<lambda>x l'. response_ok (t_id tenant) (trace l') (R_created x)) l"
  unfolding create_endpoint_def generate_signing_secret_def by (intro step_intro) simp_all

lemma list_endpoints_confined:
  assumes "loaded_endpoints l = []"
  shows "step (t_id tenant) (list_endpoints tenant) (\<lambda>x l'. response_ok (t_id tenant) (trace l') (R_endpoints x)) l"
  unfolding list_endpoints_def
  by (intro step_intro) (use assms in \<open>auto simp: owns_def endpoint_view_def\<close>)

lemma get_endpoint_confined:
  assumes "loaded_endpoints l = []"
  shows "step (t_id tenant) (get_endpoint i tenant) (\<lambda>x l'. response_ok (t_id tenant) (trace l') (R_endpoint x)) l"
  unfolding get_endpoint_def
  by (intro step_intro step_get_owned) (use assms in \<open>auto simp: endpoint_view_def\<close>)

lemma patch_endpoint_confined:
  assumes "loaded_endpoints l = []"
  shows "step (t_id tenant) (patch_endpoint i b tenant) (\<lambda>x l'. response_ok (t_id tenant) (trace l') (R_endpoint x)) l"
  unfolding patch_endpoint_def
  by (intro step_bind step_get_owned step_set_if step_seq step_commit step_return)
    (use assms in \<open>auto simp: endpoint_view_def owns_Cons\<close>)

lemma breaker_confined:
  assumes "loaded_endpoints l = []"
  shows "step (t_id tenant) (get_breaker i tenant) (\<lambda>x l'. response_ok (t_id tenant) (trace l') (R_breaker x)) l"
    and "step (t_id tenant) (reset_breaker_endpoint i tenant) (\<lambda>x l'. response_ok (t_id tenant) (trace l') R_none) l"
    and "step (t_id tenant) (delete_endpoint i tenant) (\<lambda>x l'. response_ok (t_id tenant) (trace l') R_none) l"
  unfolding get_breaker_def reset_breaker_endpoint_def delete_endpoint_def get_breaker_state_def reset_breaker_def
  by (intro step_bind step_get_owned step_seq step_intro; use assms in \<open>auto intro: owns_Cons\<close>)+

lemma deliveries_confined:
  assumes "loaded_deliveries l = []"
  shows "step (t_id tenant) (list_deliveries e s limit offset tenant) (\<lambda>x l'. response_ok (t_id tenant) (trace l') (R_deliveries x)) l"
    and "step (t_id tenant) (list_dlq e limit offset tenant) (\<lambda>x l'. response_ok (t_id tenant) (trace l') (R_deliveries x)) l"
  unfolding list_deliveries_def list_dlq_def
  by (intro step_intro; use assms in \<open>auto simp: page_def newest_def owns_Cons dest!: subsetD in_set_takeD in_set_dropD\<close>)+

lemma attempts_evidence:
  assumes "x \<in> set (deliveries da)" and "d_endpoint_id x \<in> set (owned_ids tenant d)"
  shows "of_tenant (t_id tenant) deliveries d_id d_endpoint_id (d_id x) (Queried db # Queried da # Queried d # tr)"
proof -
  have "owns (t_id tenant) (d_endpoint_id x) (Queried da # Queried d # tr)"
    by (rule owns_Cons) (simp add: assms(2))
  then have "of_tenant (t_id tenant) deliveries d_id d_endpoint_id (d_id x) (Queried da # Queried d # tr)"
    using assms(1) by (auto simp: of_tenant_def intro!: exI [of _ "d_endpoint_id x"])
  then show ?thesis by (rule of_tenant_Cons)
qed

lemma list_attempts_confined:
  assumes "loaded_deliveries l = []"
  shows "step (t_id tenant) (list_attempts i tenant) (\<lambda>x l'. response_ok (t_id tenant) (trace l') (R_attempts x)) l"
  unfolding list_attempts_def
  by (intro step_intro) (use assms in \<open>auto simp: owned_delivery_def intro!: attempts_evidence\<close>)

lemma diagnoses_confined:
  shows "step (t_id tenant) (list_diagnoses e s limit tenant) (\<lambda>x l'. response_ok (t_id tenant) (trace l') (R_diagnoses x)) l"
    and "step (t_id tenant) (get_diagnosis i tenant) (\<lambda>x l'. response_ok (t_id tenant) (trace l') (R_diagnosis x)) l"
    and "step (t_id tenant) (list_actions i tenant) (\<lambda>x l'. response_ok (t_id tenant) (trace l') (R_actions x)) l"
    and "step (t_id tenant) (acknowledge i tenant) (\<lambda>x l'. response_ok (t_id tenant) (trace l') (R_diagnosis x)) l"
  unfolding list_diagnoses_def get_diagnosis_def list_actions_def acknowledge_def assign_diagnosis_def
  by (intro step_intro step_owned_diagnosis; auto simp: newest_def owns_Cons of_tenant_def intro!: exI dest!: in_set_takeD)+

lemma get_event_confined:
  assumes "loaded_deliveries l = []"
  shows "step (t_id tenant) (get_event i tenant) (\<lambda>x l'. response_ok (t_id tenant) (trace l') (R_event x)) l"
  unfolding get_event_def
  by (intro step_intro) (use assms in \<open>auto simp: event_answer_ok_def owned_event_def dest: find_SomeD\<close>)

lemma existing_accepted:
  assumes "event_with_key t key d = Some e"
  shows "accepted_ok t (ev_id e) (Queried d # tr)"
  using assms unfolding event_with_key_def accepted_ok_def by (auto dest: find_SomeD)

lemma accepted_Cons: "accepted_ok t i tr \<Longrightarrow> accepted_ok t i (a # tr)"
  unfolding accepted_ok_def by auto

text \<open>The new event is among the pending inserts until it is committed.\<close>

lemma step_try_commit:
  assumes "Ins_event ev \<in> set (pending l)" and "ev_tenant_id ev = t"
  shows "step t try_commit (\<lambda>conflict l'. (conflict \<longrightarrow> True) \<and> (\<forall>p. owns t p (trace l) \<longrightarrow> owns t p (trace l')) \<and>
     (\<not> conflict \<longrightarrow> accepted_ok t (ev_id ev) (trace l'))) l"
  unfolding try_commit_def step_def
proof
  assume inv: "inv t l"
  have mono: "owns t p (trace l) \<Longrightarrow> owns t p (trace (logged (Committed ws d) (l\<lparr>pending := []\<rparr>)))" for p ws d
    by (simp add: owns_Cons)
  have ok: "accepted_ok t (ev_id ev) (trace (logged (Committed (pending l) d) (l\<lparr>pending := []\<rparr>)))" for d
    using assms unfolding accepted_ok_def by auto
  show "safe (except_in {Integrity_error} (seq commit (return False)) (\<lambda>_. return True))
    (\<lambda>x l'. inv t l' \<and> (x \<longrightarrow> True) \<and> (\<forall>p. owns t p (trace l) \<longrightarrow> owns t p (trace l')) \<and>
      (\<not> x \<longrightarrow> accepted_ok t (ev_id ev) (trace l'))) (\<lambda>_. inv t) l"
    by (intro safe_except_in safe_seq safe_commit safe_return)
      (use inv mono ok in \<open>auto intro!: safe_return inv_committed\<close>)
qed

lemma step_new_deliveries:
  assumes "\<And>e. e \<in> set es \<Longrightarrow> owns t (ep_id e) (trace l)"
  shows "step t (map_proc (new_delivery i) es) (\<lambda>ds l'. trace l' = trace l \<and> pending l' = pending l \<and>
    (\<forall>d \<in> set ds. owns t (d_endpoint_id d) (trace l))) l"
  by (rule step_map_proc, simp, unfold new_delivery_def, intro step_intro) (use assms in auto)

lemma step_enqueue_all:
  assumes "\<forall>d \<in> set ds. owns t (d_endpoint_id d) (trace l)" and "\<And>l'. J (trace l') \<Longrightarrow> Q () l'"
    and "J (trace l)" and "\<And>a tr. J tr \<Longrightarrow> J (a # tr)"
  shows "step t (for_each ds (\<lambda>d. enqueue_one (mode d) d)) Q l"
proof (rule step_mono [OF step_for_each [where I = "\<lambda>l'. J (trace l') \<and> (\<forall>d \<in> set ds. owns t (d_endpoint_id d) (trace l'))"]])
  show "step t (enqueue_one (mode d) d) (\<lambda>_ l'. J (trace l') \<and> (\<forall>d \<in> set ds. owns t (d_endpoint_id d) (trace l'))) l'"
    if "d \<in> set ds" "J (trace l') \<and> (\<forall>d \<in> set ds. owns t (d_endpoint_id d) (trace l'))" for d l'
    unfolding enqueue_one_def enqueue_ordered_def
    by (intro step_seq step_only_if step_redis_unit step_enqueue_delivery) (use that assms(4) in \<open>simp_all add: owns_Cons\<close>)
qed (use assms in auto)

lemma fan_out_confined:
  assumes "loaded_endpoints l = []" and "Ins_event ev \<in> set (pending l)" and "ev_tenant_id ev = t_id tenant"
  shows "step (t_id tenant) (fan_out tenant b ev) (\<lambda>x l'. accepted_ok (t_id tenant) x (trace l')) l"
  unfolding fan_out_def
proof (intro step_bind step_load_endpoints step_let, fact assms(1))
  fix d xs es
  assume xs: "set xs \<subseteq> set (active_endpoints_of tenant d)"
  let ?l = "logged (Queried d) l\<lparr>loaded_endpoints := es\<rparr>"
  have matching: "owns (t_id tenant) (ep_id e) (trace ?l)" if "e \<in> set (filter p xs)" for e p
    using that xs by (auto simp: active_endpoints_of_def owns_def)
  have after: "step (t_id tenant) (bind try_commit (\<lambda>conflict. if conflict then resolve_conflict tenant b
        else seq (for_each ds (\<lambda>d. enqueue_one (mode d) d)) (seq (count_metric m) (return (ev_id ev)))))
      (\<lambda>x l'. accepted_ok (t_id tenant) x (trace l')) l1"
    if "Ins_event ev \<in> set (pending l1)" "\<forall>d \<in> set ds. owns (t_id tenant) (d_endpoint_id d) (trace l1)" for l1 ds mode m
    by (rule step_bind, rule step_mono [OF step_try_commit [OF that(1) assms(3)]])
      (use that(2) in \<open>auto intro!: step_if step_seq step_enqueue_all [where J = "accepted_ok (t_id tenant) (ev_id ev)"] accepted_Cons
         step_return step_metric step_bind step_rollback step_option step_raise simp: resolve_conflict_def expired_tenant_id_def\<close>)
  show "step (t_id tenant) (map_proc (new_delivery (ev_id ev)) (filter (subscribed (vc_event_type b)) xs))
     (\<lambda>deliveries. step (t_id tenant) (seq (add_pending (map Ins_delivery deliveries)) (bind try_commit (\<lambda>conflict.
        if conflict then resolve_conflict tenant b
        else seq (for_each deliveries (\<lambda>d. enqueue_one (ordering_of (filter (subscribed (vc_event_type b)) xs) (d_endpoint_id d)) d))
          (seq (count_metric (M_ingested (t_id tenant))) (return (ev_id ev))))))
        (\<lambda>x l'. accepted_ok (t_id tenant) x (trace l'))) ?l"
    by (rule step_mono [OF step_new_deliveries], erule matching)
      (use assms(2) in \<open>auto simp: list_all_iff intro!: step_seq step_pending after\<close>)
qed

lemma ingest_confined:
  assumes "loaded_endpoints l = []"
  shows "step (t_id tenant) (ingest_event b tenant) (\<lambda>x l'. response_ok (t_id tenant) (trace l') (R_accepted x)) l"
  unfolding ingest_event_def existing_by_idempotency_key_def new_event_def
  by (intro step_bind step_option step_return step_query step_seq step_inputs step_pending)
    (use assms in \<open>auto simp: existing_accepted intro!: fan_out_confined\<close>)

text \<open>Replays.\<close>

lemma dead_evidence:
  assumes "d \<in> set (dead_of p ids dd)" and "owns t p tr"
  shows "of_tenant t deliveries d_id d_endpoint_id (d_id d) (Queried dd # tr)" and "d_endpoint_id d = p"
  using assms by (auto simp: dead_of_def of_tenant_def intro!: exI [of _ p] owns_Cons)

lemma step_replay_all:
  assumes "\<forall>d \<in> set ds. d_endpoint_id d = p \<and> of_tenant t deliveries d_id d_endpoint_id (d_id d) (trace l)" and "owns t p (trace l)"
  shows "step t (map_proc (replay_one mode) ds) (\<lambda>is l'. response_ok t (trace l') (R_replayed is)) l"
proof (rule step_mono [OF step_map_proc [where I = "\<lambda>is l'. owns t p (trace l') \<and> set is \<subseteq> d_id ` set ds \<and>
    (\<forall>d \<in> set ds. of_tenant t deliveries d_id d_endpoint_id (d_id d) (trace l'))"]])
  fix d :: delivery and "is" and l' :: local_state
  assume d: "d \<in> set ds" and I: "owns t p (trace l') \<and> set is \<subseteq> d_id ` set ds \<and>
    (\<forall>d \<in> set ds. of_tenant t deliveries d_id d_endpoint_id (d_id d) (trace l'))"
  show "step t (replay_one mode d) (\<lambda>i l'. owns t p (trace l') \<and> set (is @ [i]) \<subseteq> d_id ` set ds \<and>
      (\<forall>d \<in> set ds. of_tenant t deliveries d_id d_endpoint_id (d_id d) (trace l'))) l'"
    by (rule step_mono [OF step_replay_one [where J = "\<lambda>tr. \<forall>d \<in> set ds. of_tenant t deliveries d_id d_endpoint_id (d_id d) tr"]])
      (use d I assms(1) in \<open>auto intro: of_tenant_Cons\<close>)
qed (use assms in auto)

lemma replay_confined:
  assumes "loaded_deliveries l = []"
  shows "step (t_id tenant) (replay b tenant) (\<lambda>x l'. response_ok (t_id tenant) (trace l') (R_replayed x)) l"
  unfolding replay_def reset_breaker_def
proof (intro step_bind step_query step_if step_raise step_option step_load_deliveries)
  fix d1 d2 d3 xs ds mode
  assume own: "\<not> rr_endpoint_id b \<notin> set (owned_ids tenant d1)" and xs: "set xs \<subseteq> set (dead_of (rr_endpoint_id b) (rr_delivery_ids b) d3)"
  let ?p = "rr_endpoint_id b" let ?t = "t_id tenant"
  let ?l = "logged (Queried d3) (logged (Queried d2) (logged (Queried d1) l))\<lparr>loaded_deliveries := ds\<rparr>"
  have owns: "owns ?t ?p (Queried d2 # Queried d1 # trace l)" using own by (simp add: owns_Cons)
  have after: "step ?t (seq commit (seq (only_if (ys \<noteq> []) (redis_unit (Breaker_reset ?p) g)) (map_proc (replay_one mode) ys)))
      (\<lambda>is l'. response_ok ?t (trace l') (R_replayed is)) l1"
    if "trace l1 = trace ?l" "\<forall>x \<in> set ys. d_endpoint_id x = ?p \<and> of_tenant ?t deliveries d_id d_endpoint_id (d_id x) (trace ?l)" for ys l1 g
    by (intro step_seq step_commit step_only_if step_redis_unit step_replay_all [where p = ?p])
      (use that owns in \<open>simp_all add: owns_Cons of_tenant_Cons\<close>)
  show "step ?t (map_proc revive xs) (\<lambda>revived. step ?t (seq commit (seq (only_if (revived \<noteq> [])
      (redis_unit (Breaker_reset ?p) (\<lambda>s. s\<lparr>sh_breakers := (sh_breakers s)(?p := reset_keys (sh_breakers s ?p))\<rparr>)))
      (map_proc (replay_one mode) revived))) (\<lambda>x l'. response_ok ?t (trace l') (R_replayed x))) ?l"
    by (rule step_mono [OF step_revive_all [where p = ?p]])
      (use xs dead_evidence [OF _ owns] in \<open>auto simp del: response_ok.simps intro!: after\<close>)
qed (use assms in simp)

text \<open>Decisions on proposed actions.\<close>

lemma step_assign_action:
  assumes "of_tenant t actions ac_id ac_endpoint_id (ac_id c) (trace l)"
    and "\<And>l'. trace l' = trace l \<Longrightarrow> Q (f c) l'"
  shows "step t (assign_action c f) Q l"
  unfolding assign_action_def by (intro step_intro) (use assms in auto)

lemma step_decide:
  assumes "of_tenant t actions ac_id ac_endpoint_id (ac_id c) (trace l)"
    and "\<And>x l'. trace l' = trace l \<Longrightarrow> ac_endpoint_id x = ac_endpoint_id c \<Longrightarrow> Q x l'"
  shows "step t (decide c s) Q l"
  unfolding decide_def by (intro step_bind step_inputs step_assign_action) (use assms in auto)

lemma action_evidence:
  assumes "c \<in> set (actions d)" and "owns t (ac_endpoint_id c) tr"
  shows "of_tenant t actions ac_id ac_endpoint_id (ac_id c) (Queried d # tr)"
  using assms by (auto simp: of_tenant_def intro!: exI [of _ "ac_endpoint_id c"] owns_Cons)

lemma reject_confined:
  "step (t_id tenant) (reject_action i tenant) (\<lambda>x l'. response_ok (t_id tenant) (trace l') (R_action x)) l"
  unfolding reject_action_def
  by (intro step_bind step_pending_action step_decide step_seq step_commit step_return) (simp_all add: action_evidence owns_Cons)

lemma step_select_endpoint:
  assumes "\<And>r e l'. ep_id e = i \<Longrightarrow> trace l' = Select_endpoint i r # trace l \<Longrightarrow> loaded_deliveries l' = loaded_deliveries l \<Longrightarrow> Q e l'"
  shows "step t (endpoint_one i) Q l"
  unfolding endpoint_one_def
proof (rule step_bind)
  have step: "inv t (logged (Select_endpoint i r) l)" if "inv t l" for r using that by (simp add: inv_logged)
  show "step t (select_endpoint i) (\<lambda>row. step t (case row of None \<Rightarrow> raise No_result | Some e \<Rightarrow> return e) Q) l"
    unfolding step_def [of t "select_endpoint i"]
    by (intro impI safe_select_endpoint) (use assms step in \<open>auto intro!: step_raise step_return\<close>)
qed

lemma approve_confined:
  assumes "loaded_deliveries l = []"
  shows "step (t_id tenant) (approve_action i tenant) (\<lambda>x l'. response_ok (t_id tenant) (trace l') (R_action x)) l"
  unfolding approve_action_def reset_breaker_def
proof (intro step_bind step_pending_action step_select_endpoint)
  fix d1 d2 r and l1 :: local_state and e :: endpoint and c :: agent_action
  let ?t = "t_id tenant" let ?p = "ac_endpoint_id c"
  assume c: "c \<in> set (actions d2)" and own: "owns ?t ?p (Queried d1 # trace l)" and e: "ep_id e = ?p"
    and tr: "trace l1 = Select_endpoint ?p r # trace (logged (Queried d2) (logged (Queried d1) l))"
    and none: "loaded_deliveries l1 = loaded_deliveries (logged (Queried d2) (logged (Queried d1) l))"
  have own1: "owns ?t ?p (trace l1)" using own by (simp add: tr owns_Cons)
  have act1: "of_tenant ?t actions ac_id ac_endpoint_id (ac_id c) (trace l1)"
    using action_evidence [OF c own] by (simp add: tr of_tenant_Cons)
  have loop: "step ?t (for_each ds (\<lambda>d. enqueue_delivery (d_id d) (d_event_id d) (d_endpoint_id d))) (\<lambda>_ l'. owns ?t ?p (trace l')) l2"
    if "\<forall>d \<in> set ds. d_endpoint_id d = ?p" "owns ?t ?p (trace l2)" for ds l2
    by (rule step_for_each) (use that in \<open>auto intro!: step_enqueue_delivery owns_Cons\<close>)
  have finish: "step ?t (bind (decide c AApproved) (\<lambda>act. seq commit (seq (only_if (ac_action act = Replay_dlq \<and> dead \<noteq> [])
       (seq (redis_unit (Breaker_reset (ep_id e)) g) (for_each dead (\<lambda>d. enqueue_delivery (d_id d) (d_event_id d) (d_endpoint_id d)))))
       (return act)))) (\<lambda>x l'. owns ?t (ac_endpoint_id x) (trace l')) l2"
    if "\<forall>d \<in> set dead. d_endpoint_id d = ?p" "owns ?t ?p (trace l2)" "of_tenant ?t actions ac_id ac_endpoint_id (ac_id c) (trace l2)"
    for dead l2 g
    by (intro step_bind step_decide step_seq step_commit step_only_if step_redis_unit)
      (use that e in \<open>auto intro!: step_return step_mono [OF loop] owns_Cons\<close>)
  show "step ?t (apply_action c e) (\<lambda>dead. step ?t (bind (decide c AApproved) (\<lambda>act. seq commit (seq (only_if (ac_action act = Replay_dlq \<and> dead \<noteq> [])
       (seq (redis_unit (Breaker_reset (ep_id e)) (\<lambda>s. s\<lparr>sh_breakers := (sh_breakers s)(ep_id e := reset_keys (sh_breakers s (ep_id e)))\<rparr>))
         (for_each dead (\<lambda>d. enqueue_delivery (d_id d) (d_event_id d) (d_endpoint_id d)))))
       (return act)))) (\<lambda>x l'. response_ok ?t (trace l') (R_action x))) l1"
  proof (cases "ac_action c")
    case Pause_endpoint
    show ?thesis
      unfolding apply_action_def Pause_endpoint agent_action_kind.case response_ok.simps
      by (rule step_bind, rule step_assign_endpoint, simp add: e own1,
          rule step_return, rule finish) (simp_all add: own1 act1)
  next
    case Replay_dlq
    have revive: "step ?t (map_proc revive xs) (\<lambda>dead l'. trace l' = Queried d # trace l1 \<and> (\<forall>x \<in> set dead. d_endpoint_id x = ?p)) l2"
      if "set xs \<subseteq> set (dead_of (ep_id e) None d)" "trace l2 = Queried d # trace l1" for xs d l2
      by (rule step_mono [OF step_revive_all [where p = ?p]])
        (use that dead_evidence [OF _ own1] e in auto)
    have empty: "loaded_deliveries l1 = []" using none assms by simp
    show ?thesis
      unfolding apply_action_def Replay_dlq agent_action_kind.case response_ok.simps
      by (rule step_bind, rule step_load_deliveries, simp add: empty, rule step_mono, rule revive, assumption,
          simp, rule finish) (simp_all add: own1 act1 owns_Cons of_tenant_Cons)
  qed
qed

section \<open>Every route\<close>

lemma step_answer: "step t m (\<lambda>x l'. response_ok t (trace l') (f x)) l \<Longrightarrow> step t (answer f m) (\<lambda>x l'. response_ok t (trace l') x) l"
  unfolding answer_def by (rule step_bind) (auto elim!: step_mono intro: step_return)

lemma serve_confined:
  assumes "loaded_deliveries l = []" and "loaded_endpoints l = []"
  shows "step (t_id tenant) (serve rq tenant) (\<lambda>x l'. response_ok (t_id tenant) (trace l') x) l"
  unfolding serve_def
  by (cases rq; simp only: tenant_request.case; rule step_answer)
    (simp_all only: create_endpoint_confined list_endpoints_confined get_endpoint_confined patch_endpoint_confined breaker_confined
      deliveries_confined list_attempts_confined diagnoses_confined get_event_confined ingest_confined replay_confined
      reject_confined approve_confined assms)

section \<open>Isolation\<close>

text \<open>The request carried the key of the tenant, as the request read it.\<close>

definition authenticated :: "string option \<Rightarrow> uuid \<Rightarrow> action list \<Rightarrow> bool" where
  "authenticated authorization t tr \<longleftrightarrow> (\<exists>token. authorization = Some (''Bearer '' @ token) \<and>
     saw (\<lambda>d. \<exists>x \<in> set (tenants d). t_id x = t \<and> t_api_key_hash x = hash_api_key token) tr)"

lemma authenticated_Cons: "authenticated a t tr \<Longrightarrow> authenticated a t (x # tr)"
  by (auto simp: authenticated_def)

text \<open>Nothing but a look at the tenants.\<close>

definition only_looked :: "action list \<Rightarrow> bool" where
  "only_looked tr \<longleftrightarrow> (\<forall>a \<in> set tr. \<exists>d. a = Queried d)"

definition isolated :: "string option \<Rightarrow> tenant_request \<Rightarrow> (exn + response) \<Rightarrow> action list \<Rightarrow> bool" where
  "isolated authorization rq r tr \<longleftrightarrow>
     (only_looked tr \<and> (\<exists>e. r = Inl e)) \<or>
     (\<exists>t. request_ok rq \<and> authenticated authorization t tr \<and> confined t tr \<and> (\<forall>x. r = Inr x \<longrightarrow> response_ok t tr x))"

lemma starts_with_split: "starts_with p s \<Longrightarrow> s = p @ drop (length p) s"
  unfolding starts_with_def by (metis append_take_drop_id)

lemma bearer_run:
  "bearer_token a w = (Inr token, w') \<Longrightarrow> w' = w \<and> a = Some (''Bearer '' @ token)"
  by (auto simp: bearer_token_def return_def raise_def split: option.splits if_splits dest: starts_with_split)

lemma safe_bearer:
  "(\<And>token. a = Some (''Bearer '' @ token) \<Longrightarrow> Q token l) \<Longrightarrow> (\<And>e. E e l) \<Longrightarrow> safe (bearer_token a) Q E l"
  by (auto simp: safe_def bearer_token_def return_def raise_def split: option.splits if_splits dest: starts_with_split)

lemma safe_require_tenant:
  assumes "\<And>token tenant d. a = Some (''Bearer '' @ token) \<Longrightarrow> tenant_by_key (hash_api_key token) d = Some tenant
      \<Longrightarrow> Q tenant (logged (Queried d) l)"
    and "\<And>e d. E e (logged (Queried d) l)" and "\<And>e. E e l"
  shows "safe (require_tenant a) Q E l"
  unfolding require_tenant_def
  by (intro safe_bind safe_bearer safe_query_rows safe_case_option safe_raise safe_return) (use assms in auto)

lemma keeps_api_calls [keeps_intro]:
  "(\<And>x. keeps J (f x)) \<Longrightarrow> keeps J (map_proc f xs)" "keeps J token_urlsafe"
  "keeps J m \<Longrightarrow> (\<And>e. keeps J (h e)) \<Longrightarrow> keeps J (except_in es m h)"
  "keeps J n \<Longrightarrow> (\<And>y ys. keeps J (k y ys)) \<Longrightarrow> keeps J (case zs of [] \<Rightarrow> n | y # ys \<Rightarrow> k y ys)"
  "keeps J p \<Longrightarrow> keeps J q \<Longrightarrow> keeps J (case kind of Pause_endpoint \<Rightarrow> p | Replay_dlq \<Rightarrow> q)"
proof -
  show "keeps J (map_proc f xs)" if "\<And>x. keeps J (f x)"
    by (induction xs) (simp_all add: that keeps_return keeps_bind)
  show "keeps J token_urlsafe"
    by (simp add: keeps_def token_urlsafe_def next_draw_def bind_def)
  show "keeps J m \<Longrightarrow> (\<And>e. keeps J (h e)) \<Longrightarrow> keeps J (except_in es m h)"
    unfolding keeps_def except_in_def by (fastforce split: prod.splits sum.splits if_splits)
  show "keeps J n \<Longrightarrow> (\<And>y ys. keeps J (k y ys)) \<Longrightarrow> keeps J (case zs of [] \<Rightarrow> n | y # ys \<Rightarrow> k y ys)"
    by (cases zs) simp_all
  show "keeps J p \<Longrightarrow> keeps J q \<Longrightarrow> keeps J (case kind of Pause_endpoint \<Rightarrow> p | Replay_dlq \<Rightarrow> q)"
    by (cases kind) simp_all
qed

lemmas route_defs = serve_def answer_def create_endpoint_def list_endpoints_def get_endpoint_def patch_endpoint_def get_breaker_def
  reset_breaker_endpoint_def delete_endpoint_def ingest_event_def get_event_def list_deliveries_def list_attempts_def list_dlq_def
  replay_def list_diagnoses_def get_diagnosis_def acknowledge_def list_actions_def approve_action_def reject_action_def
  generate_signing_secret_def load_deliveries_def load_endpoints_def get_owned_def set_if_def narrow_def
  existing_by_idempotency_key_def new_event_def new_delivery_def fan_out_def try_commit_def resolve_conflict_def
  expired_tenant_id_def enqueue_one_def get_owned_diagnosis_def assign_diagnosis_def pending_action_def decide_def
  assign_action_def endpoint_one_def apply_action_def revive_def replay_one_def

text \<open>What a request established stays in its trace.\<close>

lemma serve_keeps:
  assumes step: "\<And>a tr v. J tr v \<Longrightarrow> J (a # tr) v"
  shows "keeps J (serve rq tenant)"
  unfolding route_defs Let_def
  by (cases rq; simp only: tenant_request.case; intro keeps_intro; (erule step)?)

lemma api_isolated:
  assumes "trace l = []"
  shows "safe (api a rq) (\<lambda>x l'. isolated a rq (Inr x) (trace l')) (\<lambda>e l'. isolated a rq (Inl e) (trace l')) l"
  unfolding api_def tenant_route_def
proof (intro safe_with_session safe_bind safe_require_tenant safe_if safe_raise)
  fix token tenant d
  assume a: "a = Some (''Bearer '' @ token)" and t: "tenant_by_key (hash_api_key token) d = Some tenant" and ok: "request_ok rq"
  let ?l = "logged (Queried d) (clear_session l)" let ?t = "t_id tenant"
  have inv: "inv ?t ?l" using assms by (simp add: inv_def clear_session_def)
  have auth: "authenticated a ?t (trace ?l)"
    using find_by_SomeD [OF t [unfolded tenant_by_key_def]] by (auto simp: a authenticated_def)
  have J: "keeps (on_trace (authenticated a ?t)) (serve rq tenant)"
    by (rule serve_keeps, rule authenticated_Cons)
  have "safe (serve rq tenant) (\<lambda>x l'. inv ?t l' \<and> response_ok ?t (trace l') x) (\<lambda>_ l'. inv ?t l') ?l"
    using serve_confined [of ?l tenant rq] inv by (simp add: step_def clear_session_def)
  note both = safe_conj [OF keeps_safe [OF J auth] this]
  show "safe (serve rq tenant) (\<lambda>x l'. isolated a rq (Inr x) (trace (clear_session l')))
      (\<lambda>e l'. isolated a rq (Inl e) (trace (clear_session l'))) ?l"
    by (rule safe_mono [OF both]) (use ok in \<open>auto simp: isolated_def inv_def\<close>)
qed (use assms in \<open>auto simp: isolated_def only_looked_def\<close>)

end
