(* ===== verification/Api_Fanout.thy ===== *)
theory Api_Fanout
  imports Api_Safety
begin

text \<open>
  What ingestion and replay put on the streams: exactly the deliveries they committed, each
  after the commit and, for an ordered endpoint, after its place in the endpoint's queue.
\<close>

section \<open>What a trace enqueued\<close>

text \<open>The entries put on the streams, oldest first.\<close>

fun sent_entries :: "action list \<Rightarrow> (uuid \<times> uuid \<times> uuid) list" where
  "sent_entries [] = []"
| "sent_entries (a # tr) = sent_entries tr @ (case a of Xadd d e p \<Rightarrow> [(d, e, p)] | _ \<Rightarrow> [])"

text \<open>Every entry put on a stream satisfied \<open>P\<close> of what happened before it.\<close>

fun each_entry :: "(uuid \<Rightarrow> uuid \<Rightarrow> uuid \<Rightarrow> action list \<Rightarrow> bool) \<Rightarrow> action list \<Rightarrow> bool" where
  "each_entry P [] = True"
| "each_entry P (a # tr) = (each_entry P tr \<and> (case a of Xadd d e p \<Rightarrow> P d e p tr | _ \<Rightarrow> True))"

definition inserted :: "uuid \<Rightarrow> uuid \<Rightarrow> uuid \<Rightarrow> action list \<Rightarrow> bool" where
  "inserted d e p tr \<longleftrightarrow> (\<exists>ws db x. Committed ws db \<in> set tr \<and> Ins_delivery x \<in> set ws \<and>
     d_id x = d \<and> d_event_id x = e \<and> d_endpoint_id x = p)"

definition in_turn :: "uuid \<Rightarrow> uuid \<Rightarrow> action list \<Rightarrow> bool" where
  "in_turn d p tr \<longleftrightarrow> Rpush p d \<in> set tr \<or>
     saw (\<lambda>db. \<exists>x \<in> set (endpoints db). ep_id x = p \<and> ep_ordering x = Unordered) tr"

section \<open>Lists, with what was done so far\<close>

lemma safe_map_prefix:
  assumes "I [] [] l"
    and "\<And>pre x post ys l. xs = pre @ x # post \<Longrightarrow> I pre ys l \<Longrightarrow> safe (f x) (\<lambda>y. I (pre @ [x]) (ys @ [y])) E l"
  shows "safe (map_proc f xs) (I xs) E l"
proof -
  have "safe (map_proc f post) (\<lambda>zs. I xs (ys @ zs)) E l" if "I pre ys l" "xs = pre @ post" for pre post ys l
    using that
  proof (induction post arbitrary: pre ys l)
    case Nil
    then show ?case by (simp add: safe_return)
  next
    case (Cons x post)
    have rest: "safe (bind (map_proc f post) (\<lambda>zs. return (y # zs))) (\<lambda>zs. I xs (ys @ zs)) E l'"
      if "I (pre @ [x]) (ys @ [y]) l'" for y l'
      by (rule safe_bind, rule safe_mono [OF Cons.IH [OF that]]) (use Cons.prems in \<open>auto intro: safe_return\<close>)
    show ?case
      unfolding map_proc.simps
      by (rule safe_bind, rule safe_mono [OF assms(2) [OF Cons.prems(2,1)]]) (auto intro: rest)
  qed
  from this [OF assms(1), of xs] show ?thesis by simp
qed

lemma safe_each_prefix:
  assumes "I [] l"
    and "\<And>pre x post l. xs = pre @ x # post \<Longrightarrow> I pre l \<Longrightarrow> safe (f x) (\<lambda>_. I (pre @ [x])) E l"
  shows "safe (for_each xs f) (\<lambda>_. I xs) E l"
proof -
  have "safe (for_each post f) (\<lambda>_. I xs) E l" if "I pre l" "xs = pre @ post" for pre post l
    using that
  proof (induction post arbitrary: pre l)
    case Nil
    then show ?case by (simp add: safe_return)
  next
    case (Cons x post)
    show ?case
      unfolding for_each.simps
      by (rule safe_seq, rule safe_mono [OF assms(2) [OF Cons.prems(2,1)]]) (use Cons in auto)
  qed
  from this [OF assms(1), of xs] show ?thesis by simp
qed

text \<open>Rows loaded into a fresh session are the rows of the query.\<close>

lemma safe_load_fresh:
  assumes "find_by d_id (d_id row) (loaded_deliveries l) = None"
    and "Q row (l\<lparr>loaded_deliveries := row # loaded_deliveries l\<rparr>)"
  shows "safe (load_delivery row) Q E l"
  using assms by (simp add: safe_def load_delivery_def)

lemma safe_load_fresh_endpoint:
  assumes "find_by ep_id (ep_id row) (loaded_endpoints l) = None"
    and "Q row (l\<lparr>loaded_endpoints := row # loaded_endpoints l\<rparr>)"
  shows "safe (load_endpoint row) Q E l"
  using assms by (simp add: safe_def load_endpoint_def)

lemma safe_load_endpoints:
  assumes "loaded_endpoints l = []"
    and ok: "\<And>d xs es. set xs \<subseteq> set (q d) \<Longrightarrow> (distinct (map ep_id (q d)) \<Longrightarrow> xs = q d)
      \<Longrightarrow> Q xs (logged (Queried d) l\<lparr>loaded_endpoints := es\<rparr>)"
    and "\<And>e d. e \<in> flush_exns \<Longrightarrow> E e (logged (Queried d) l)" and "\<And>e. e \<in> flush_exns \<Longrightarrow> E e l"
  shows "safe (load_endpoints q) Q E l"
  unfolding load_endpoints_def
proof (rule safe_bind, rule safe_query_rows)
  fix d
  let ?l = "logged (Queried d) l"
  show "safe (map_proc load_endpoint (q d)) Q E ?l"
  proof (cases "distinct (map ep_id (q d))")
    case True
    have fresh: "safe (load_endpoint x) (\<lambda>y l''. ys @ [y] = pre @ [x] \<and> l'' = ?l\<lparr>loaded_endpoints := rev (pre @ [x])\<rparr>) E l'"
      if "q d = pre @ x # post" "ys = pre \<and> l' = ?l\<lparr>loaded_endpoints := rev pre\<rparr>" for pre x post ys l'
      by (rule safe_load_fresh_endpoint) (use that True in \<open>auto simp: find_by_None_iff\<close>)
    have "safe (map_proc load_endpoint (q d)) (\<lambda>ys l'. ys = q d \<and> l' = ?l\<lparr>loaded_endpoints := rev (q d)\<rparr>) E ?l"
      by (rule safe_map_prefix [where I = "\<lambda>pre ys l'. ys = pre \<and> l' = ?l\<lparr>loaded_endpoints := rev pre\<rparr>"])
        (use assms(1) fresh in \<open>simp_all add: logged_def\<close>)
    then show ?thesis by (rule safe_mono) (use ok [of _ d] in auto)
  next
    case False
    let ?I = "\<lambda>ys l'. set ys \<subseteq> set (q d) \<and> set (loaded_endpoints l') \<subseteq> set (q d) \<and> l' = ?l\<lparr>loaded_endpoints := loaded_endpoints l'\<rparr>"
    have load: "safe (load_endpoint x) (\<lambda>y. ?I (ys @ [y])) E l'" if "x \<in> set (q d)" "?I ys l'" for x ys l'
      by (rule safe_load_endpoint_in) (use that in \<open>auto intro: overwritten\<close>)
    have "safe (map_proc load_endpoint (q d)) ?I E ?l"
      by (rule safe_map_proc) (use load assms(1) in auto)
    then show ?thesis by (rule safe_mono) (use ok [of _ d] False in \<open>auto, metis\<close>)
  qed
qed (use assms(3,4) in auto)

lemma safe_load_deliveries:
  assumes "loaded_deliveries l = []"
    and ok: "\<And>d xs ds. set xs \<subseteq> set (q d) \<Longrightarrow> (distinct (map d_id (q d)) \<Longrightarrow> xs = q d)
      \<Longrightarrow> Q xs (logged (Queried d) l\<lparr>loaded_deliveries := ds\<rparr>)"
    and "\<And>e d. e \<in> flush_exns \<Longrightarrow> E e (logged (Queried d) l)" and "\<And>e. e \<in> flush_exns \<Longrightarrow> E e l"
  shows "safe (load_deliveries q) Q E l"
  unfolding load_deliveries_def
proof (rule safe_bind, rule safe_query_rows)
  fix d
  let ?l = "logged (Queried d) l"
  show "safe (map_proc load_delivery (q d)) Q E ?l"
  proof (cases "distinct (map d_id (q d))")
    case True
    have fresh: "safe (load_delivery x) (\<lambda>y l''. ys @ [y] = pre @ [x] \<and> l'' = ?l\<lparr>loaded_deliveries := rev (pre @ [x])\<rparr>) E l'"
      if "q d = pre @ x # post" "ys = pre \<and> l' = ?l\<lparr>loaded_deliveries := rev pre\<rparr>" for pre x post ys l'
      by (rule safe_load_fresh) (use that True in \<open>auto simp: find_by_None_iff\<close>)
    have "safe (map_proc load_delivery (q d)) (\<lambda>ys l'. ys = q d \<and> l' = ?l\<lparr>loaded_deliveries := rev (q d)\<rparr>) E ?l"
      by (rule safe_map_prefix [where I = "\<lambda>pre ys l'. ys = pre \<and> l' = ?l\<lparr>loaded_deliveries := rev pre\<rparr>"])
        (use assms(1) fresh in \<open>simp_all add: logged_def\<close>)
    then show ?thesis by (rule safe_mono) (use ok [of _ d] in auto)
  next
    case False
    let ?I = "\<lambda>ys l'. set ys \<subseteq> set (q d) \<and> set (loaded_deliveries l') \<subseteq> set (q d) \<and> l' = ?l\<lparr>loaded_deliveries := loaded_deliveries l'\<rparr>"
    have load: "safe (load_delivery x) (\<lambda>y. ?I (ys @ [y])) E l'" if "x \<in> set (q d)" "?I ys l'" for x ys l'
      by (rule safe_load_delivery_in) (use that in \<open>auto intro: overwritten\<close>)
    have "safe (map_proc load_delivery (q d)) ?I E ?l"
      by (rule safe_map_proc) (use load assms(1) in auto)
    then show ?thesis by (rule safe_mono) (use ok [of _ d] False in \<open>auto, metis\<close>)
  qed
qed (use assms(3,4) in auto)

section \<open>Putting deliveries on the streams\<close>

lemma saw_Nil [simp]: "\<not> saw P []"
  by (simp add: saw_def)

lemma in_turn_mono: "in_turn d p tr \<Longrightarrow> set tr \<subseteq> set tr' \<Longrightarrow> in_turn d p tr'"
  unfolding in_turn_def saw_def by blast

lemma inserted_mono: "inserted d e p tr \<Longrightarrow> set tr \<subseteq> set tr' \<Longrightarrow> inserted d e p tr'"
  unfolding inserted_def by blast

definition triple :: "delivery \<Rightarrow> uuid \<times> uuid \<times> uuid" where
  "triple d = (d_id d, d_event_id d, d_endpoint_id d)"

text \<open>The evidence a route has when it enqueues a delivery with the mode it read.\<close>

definition ready :: "(uuid \<Rightarrow> uuid \<Rightarrow> uuid \<Rightarrow> action list \<Rightarrow> bool) \<Rightarrow> ordering_mode \<Rightarrow> delivery \<Rightarrow> action list \<Rightarrow> bool" where
  "ready P mode d tr \<longleftrightarrow> P (d_id d) (d_event_id d) (d_endpoint_id d) tr \<and> (mode = Ordered \<or> in_turn (d_id d) (d_endpoint_id d) tr)"

abbreviation entries_ok :: "(uuid \<Rightarrow> uuid \<Rightarrow> uuid \<Rightarrow> action list \<Rightarrow> bool) \<Rightarrow> action list \<Rightarrow> bool" where
  "entries_ok P \<equiv> each_entry (\<lambda>d e p tr. P d e p tr \<and> in_turn d p tr)"

lemma safe_enqueue_one:
  assumes mono: "\<And>d e p tr tr'. P d e p tr \<Longrightarrow> set tr \<subseteq> set tr' \<Longrightarrow> P d e p tr'"
    and "entries_ok P (trace l)" and "ready P mode d (trace l)"
  shows "safe (enqueue_one mode d) (\<lambda>_ l'. entries_ok P (trace l') \<and> sent_entries (trace l') = sent_entries (trace l) @ [triple d] \<and>
     set (trace l) \<subseteq> set (trace l')) (\<lambda>_ l'. entries_ok P (trace l')) l"
proof -
  have P: "P (d_id d) (d_event_id d) (d_endpoint_id d) (a # trace l)" for a
    by (rule mono) (use assms(3) in \<open>auto simp: ready_def\<close>)
  show ?thesis
    unfolding enqueue_one_def
    by (intro safe_intro) (use assms(2,3) P in \<open>auto simp: ready_def in_turn_def triple_def\<close>)
qed

lemma ready_mono:
  assumes "\<And>d e p tr tr'. P d e p tr \<Longrightarrow> set tr \<subseteq> set tr' \<Longrightarrow> P d e p tr'"
  shows "ready P mode d tr \<Longrightarrow> set tr \<subseteq> set tr' \<Longrightarrow> ready P mode d tr'"
  unfolding ready_def using assms in_turn_mono by blast

lemma safe_enqueue_all:
  assumes mono: "\<And>d e p tr tr'. P d e p tr \<Longrightarrow> set tr \<subseteq> set tr' \<Longrightarrow> P d e p tr'"
    and "entries_ok P (trace l)" and ready: "\<forall>d \<in> set ds. ready P (mode d) d (trace l)"
  shows "safe (for_each ds (\<lambda>d. enqueue_one (mode d) d)) (\<lambda>_ l'. entries_ok P (trace l') \<and>
     sent_entries (trace l') = sent_entries (trace l) @ map triple ds \<and> set (trace l) \<subseteq> set (trace l')) (\<lambda>_ l'. entries_ok P (trace l')) l"
proof (rule safe_each_prefix [where I = "\<lambda>pre l'. entries_ok P (trace l') \<and>
     sent_entries (trace l') = sent_entries (trace l) @ map triple pre \<and> set (trace l) \<subseteq> set (trace l')"])
  fix pre post :: "delivery list" and d :: delivery and l' :: local_state
  assume ds: "ds = pre @ d # post" and I: "entries_ok P (trace l') \<and> sent_entries (trace l') = sent_entries (trace l) @ map triple pre \<and> set (trace l) \<subseteq> set (trace l')"
  have "ready P (mode d) d (trace l')"
    by (rule ready_mono [OF mono]) (use ready ds I in auto)
  then show "safe (enqueue_one (mode d) d) (\<lambda>_ l'. entries_ok P (trace l') \<and>
     sent_entries (trace l') = sent_entries (trace l) @ map triple (pre @ [d]) \<and> set (trace l) \<subseteq> set (trace l')) (\<lambda>_ l'. entries_ok P (trace l')) l'"
    using I by (intro safe_mono [OF safe_enqueue_one [where P = P, OF mono]]) auto
qed (use assms(2) in simp)

section \<open>Ingestion\<close>

text \<open>Which endpoints of the tenant the fan-out reached, by the rows it read.\<close>

definition fanned_out :: "tenant \<Rightarrow> string \<Rightarrow> uuid \<Rightarrow> action list \<Rightarrow> bool" where
  "fanned_out tenant event_type i tr \<longleftrightarrow> (\<forall>x \<in> set (sent_entries tr). fst (snd x) = i) \<and>
     (\<exists>db. Queried db \<in> set tr \<and> (distinct (map ep_id (endpoints db)) \<longrightarrow>
        map (\<lambda>x. snd (snd x)) (sent_entries tr) = map ep_id (filter (subscribed event_type) (active_endpoints_of tenant db))))"

definition replayed_key :: "tenant \<Rightarrow> event_create \<Rightarrow> uuid \<Rightarrow> action list \<Rightarrow> bool" where
  "replayed_key tenant body i tr \<longleftrightarrow> sent_entries tr = [] \<and> (\<exists>key db e. vc_idempotency_key body = Some key \<and> Queried db \<in> set tr \<and>
     event_with_key (t_id tenant) key db = Some e \<and> i = ev_id e)"

lemma same_draws: "\<exists>n. l = (l :: local_state)\<lparr>draws := n\<rparr>"
  by (rule exI [of _ "draws l"]) simp

lemma safe_new_deliveries:
  "safe (map_proc (new_delivery i) es) (\<lambda>ys l'. map d_endpoint_id ys = map ep_id es \<and> (\<forall>y \<in> set ys. d_event_id y = i) \<and>
     (\<exists>n. l' = l\<lparr>draws := n\<rparr>)) E l"
proof (rule safe_map_prefix [where I = "\<lambda>pre ys l'. map d_endpoint_id ys = map ep_id pre \<and> (\<forall>y \<in> set ys. d_event_id y = i) \<and>
     (\<exists>n. l' = l\<lparr>draws := n\<rparr>)"])
  fix pre post :: "endpoint list" and x :: endpoint and ys :: "delivery list" and l' :: local_state
  assume I: "map d_endpoint_id ys = map ep_id pre \<and> (\<forall>y \<in> set ys. d_event_id y = i) \<and> (\<exists>n. l' = l\<lparr>draws := n\<rparr>)"
  show "safe (new_delivery i x) (\<lambda>y l'. map d_endpoint_id (ys @ [y]) = map ep_id (pre @ [x]) \<and>
      (\<forall>y \<in> set (ys @ [y]). d_event_id y = i) \<and> (\<exists>n. l' = l\<lparr>draws := n\<rparr>)) E l'"
    unfolding new_delivery_def by (intro safe_intro) (use I in auto)
qed (simp, rule same_draws)

lemma sent_prefix [simp]: "sent_entries (Queried d # tr) = sent_entries tr" "sent_entries (Rolled_back # tr) = sent_entries tr"
  "sent_entries (Committed ws d # tr) = sent_entries tr"
  by simp_all

lemma conflict_enqueues_nothing:
  assumes "entries_ok P (trace l)"
  shows "safe (resolve_conflict tenant body) (\<lambda>_ _. False) (\<lambda>_ l'. entries_ok P (trace l')) l"
  unfolding resolve_conflict_def expired_tenant_id_def
  by (intro safe_intro) (use assms in simp_all)

lemma fan_out_ok:
  assumes "loaded_endpoints l = []" and "entries_ok inserted (trace l)" and "sent_entries (trace l) = []"
  shows "safe (fan_out tenant body event) (\<lambda>i l'. i = ev_id event \<and> entries_ok inserted (trace l') \<and>
     fanned_out tenant (vc_event_type body) i (trace l')) (\<lambda>_ l'. entries_ok inserted (trace l')) l"
  unfolding fan_out_def Let_def
proof (intro safe_bind safe_load_endpoints)
  fix db xs es
  let ?type = "vc_event_type body" let ?i = "ev_id event" let ?l = "logged (Queried db) l\<lparr>loaded_endpoints := es\<rparr>"
  let ?matching = "filter (subscribed ?type) xs"
  assume sub: "set xs \<subseteq> set (active_endpoints_of tenant db)"
    and all: "distinct (map ep_id (active_endpoints_of tenant db)) \<Longrightarrow> xs = active_endpoints_of tenant db"
  have read: "ordering_of ?matching p = Ordered \<or> saw (\<lambda>db. \<exists>x \<in> set (endpoints db). ep_id x = p \<and> ep_ordering x = Unordered) [Queried db]"
    if "p \<in> ep_id ` set ?matching" for p
  proof (cases "find_by ep_id p ?matching")
    case None
    then show ?thesis using that by (simp add: find_by_None_iff)
  next
    case (Some e)
    then have "e \<in> set ?matching" "ep_id e = p" using find_by_SomeD by fastforce+
    then have "e \<in> set (endpoints db)" "ep_id e = p" using sub by (auto simp: active_endpoints_of_def)
    then show ?thesis using Some by (cases "ep_ordering e") (auto simp: ordering_of_def)
  qed
  have distinct: "xs = active_endpoints_of tenant db" if "distinct (map ep_id (endpoints db))"
    by (rule all) (use that in \<open>simp add: active_endpoints_of_def distinct_map_filter\<close>)
  show "safe (map_proc (new_delivery ?i) ?matching) (\<lambda>deliveries. safe (seq (add_pending (map Ins_delivery deliveries))
      (bind try_commit (\<lambda>conflict. if conflict then resolve_conflict tenant body
         else seq (for_each deliveries (\<lambda>d. enqueue_one (ordering_of ?matching (d_endpoint_id d)) d))
             (seq (count_metric (M_ingested (t_id tenant))) (return ?i)))))
      (\<lambda>i l'. i = ?i \<and> entries_ok inserted (trace l') \<and> fanned_out tenant ?type i (trace l')) (\<lambda>_ l'. entries_ok inserted (trace l')))
      (\<lambda>_ l'. entries_ok inserted (trace l')) ?l"
  proof (rule safe_mono [OF safe_new_deliveries])
    fix ys :: "delivery list" and l1 :: local_state
    assume ys: "map d_endpoint_id ys = map ep_id ?matching \<and> (\<forall>y \<in> set ys. d_event_id y = ?i) \<and> (\<exists>n. l1 = ?l\<lparr>draws := n\<rparr>)"
    then have tr: "trace l1 = Queried db # trace l" by auto
    let ?l1 = "l1\<lparr>pending := pending l1 @ map Ins_delivery ys\<rparr>"
    have ready: "\<forall>y \<in> set ys. ready inserted (ordering_of ?matching (d_endpoint_id y)) y (Committed (pending ?l1) db' # trace l1)" for db'
    proof
      fix y assume y: "y \<in> set ys"
      then have p: "d_endpoint_id y \<in> ep_id ` set ?matching"
        using ys by (metis (no_types, lifting) imageI image_set)
      have "inserted (d_id y) (d_event_id y) (d_endpoint_id y) (Committed (pending ?l1) db' # trace l1)"
        using y unfolding inserted_def by (intro exI [of _ "pending ?l1"] exI [of _ db'] exI [of _ y]) simp
      then show "ready inserted (ordering_of ?matching (d_endpoint_id y)) y (Committed (pending ?l1) db' # trace l1)"
        using read [OF p] by (auto simp: ready_def in_turn_def tr)
    qed
    have sent: "safe (for_each ys (\<lambda>d. enqueue_one (ordering_of ?matching (d_endpoint_id d)) d))
        (\<lambda>_ l'. entries_ok inserted (trace l') \<and> fanned_out tenant ?type ?i (trace l')) (\<lambda>_ l'. entries_ok inserted (trace l')) l2"
      if l2: "trace l2 = Committed (pending ?l1) db' # trace l1" for l2 db'
    proof (rule safe_mono [OF safe_enqueue_all [where P = inserted, OF inserted_mono]])
      show "entries_ok inserted (trace l2)" using assms(2) by (simp add: l2 tr)
      show "\<forall>d \<in> set ys. ready inserted (ordering_of ?matching (d_endpoint_id d)) d (trace l2)" using ready by (simp add: l2)
      fix l' assume l': "entries_ok inserted (trace l') \<and> sent_entries (trace l') = sent_entries (trace l2) @ map triple ys \<and> set (trace l2) \<subseteq> set (trace l')"
      then have "sent_entries (trace l') = map triple ys" and "Queried db \<in> set (trace l')"
        using assms(3) by (auto simp: l2 tr)
      moreover have "map (\<lambda>x. snd (snd x)) (map triple ys) = map ep_id ?matching" using ys by (simp add: triple_def comp_def)
      ultimately show "entries_ok inserted (trace l') \<and> fanned_out tenant ?type ?i (trace l')"
        using l' ys distinct unfolding fanned_out_def by (auto simp: triple_def intro!: exI [of _ db])
    qed
    show "safe (seq (add_pending (map Ins_delivery ys)) (bind try_commit (\<lambda>conflict. if conflict then resolve_conflict tenant body
         else seq (for_each ys (\<lambda>d. enqueue_one (ordering_of ?matching (d_endpoint_id d)) d))
             (seq (count_metric (M_ingested (t_id tenant))) (return ?i)))))
      (\<lambda>i l'. i = ?i \<and> entries_ok inserted (trace l') \<and> fanned_out tenant ?type i (trace l')) (\<lambda>_ l'. entries_ok inserted (trace l')) l1"
      unfolding try_commit_def
      by (intro safe_seq safe_bind safe_add_pending safe_except_in safe_commit safe_return)
        (use assms(2) in \<open>auto simp: tr intro!: safe_return safe_seq safe_count_metric
            safe_mono [OF conflict_enqueues_nothing] safe_mono [OF sent]\<close>)
  qed simp
qed (use assms in auto)

lemma ingest_ok:
  assumes "loaded_endpoints l = []" and "trace l = []"
  shows "safe (ingest_event body tenant) (\<lambda>i l'. entries_ok inserted (trace l') \<and>
     (replayed_key tenant body i (trace l') \<or> fanned_out tenant (vc_event_type body) i (trace l')))
     (\<lambda>_ l'. entries_ok inserted (trace l')) l"
  unfolding ingest_event_def existing_by_idempotency_key_def new_event_def
  by (intro safe_bind safe_case_option safe_return safe_query_rows safe_seq safe_uuid4 safe_inputs safe_add_pending)
    (use assms in \<open>auto simp: replayed_key_def intro!: safe_mono [OF fan_out_ok]\<close>)

section \<open>Replay\<close>

text \<open>A row under the updates of a transaction, in their order, and what a revived row is.\<close>

fun write_on :: "uuid \<Rightarrow> db_write \<Rightarrow> delivery \<Rightarrow> delivery" where
  "write_on i (Upd_delivery j f) d = (if j = i then f d else d)"
| "write_on i w d = d"

definition row_after :: "db_write list \<Rightarrow> delivery \<Rightarrow> delivery" where
  "row_after ws d = fold (write_on (d_id d)) ws d"

definition as_new :: "delivery \<Rightarrow> bool" where
  "as_new d \<longleftrightarrow> d_status d = Pending \<and> d_attempt_count d = 0 \<and> d_next_attempt_at d = None"

text \<open>The evidence that a replayed delivery was dead at the endpoint asked for, and asked for, and
  that its revival was committed: the row that was read is, under the committed updates, pending
  again with no attempts counted and no time of the next.\<close>

definition revived_row :: "uuid \<Rightarrow> uuid list option \<Rightarrow> uuid \<Rightarrow> uuid \<Rightarrow> uuid \<Rightarrow> action list \<Rightarrow> bool" where
  "revived_row endpoint_id ids d e p tr \<longleftrightarrow>
     (\<exists>db x ws db'. Queried db \<in> set tr \<and> x \<in> set (dead_of endpoint_id ids db) \<and> triple x = (d, e, p) \<and>
        Committed ws db' \<in> set tr \<and> as_new (row_after ws x))"

lemma revived_row_mono: "revived_row q ids d e p tr \<Longrightarrow> set tr \<subseteq> set tr' \<Longrightarrow> revived_row q ids d e p tr'"
  unfolding revived_row_def by (meson subsetD)

lemma revived_row_later: "revived_row q ids d e p tr \<Longrightarrow> revived_row q ids d e p (a # tr)"
  by (rule revived_row_mono) auto

definition replayed_rows :: "uuid \<Rightarrow> uuid list option \<Rightarrow> uuid list \<Rightarrow> action list \<Rightarrow> bool" where
  "replayed_rows endpoint_id ids replayed tr \<longleftrightarrow> map fst (sent_entries tr) = replayed \<and>
     (\<exists>db. Queried db \<in> set tr \<and> (distinct (map d_id (deliveries db)) \<longrightarrow> replayed = map d_id (dead_of endpoint_id ids db)))"

text \<open>Each column of \<open>r\<close> is that of \<open>d\<close> or a revived row's; updates that keep it so.\<close>

definition partly :: "delivery \<Rightarrow> delivery \<Rightarrow> bool" where
  "partly d r \<longleftrightarrow> d_status r \<in> {d_status d, Pending} \<and> d_attempt_count r \<in> {d_attempt_count d, 0} \<and>
     d_next_attempt_at r \<in> {d_next_attempt_at d, None}"

fun revives :: "db_write \<Rightarrow> bool" where
  "revives (Upd_delivery i f) = (\<forall>r. partly r (f r))"
| "revives w = True"

lemma partly_trans: "partly d r \<Longrightarrow> partly r r' \<Longrightarrow> partly d r'"
  by (auto simp: partly_def)

lemma partly_write: "revives w \<Longrightarrow> partly d r \<Longrightarrow> partly d (write_on i w r)"
  by (cases w) (simp_all add: partly_trans)

lemma partly_fold: "list_all revives ws \<Longrightarrow> partly d r \<Longrightarrow> partly d (fold (write_on i) ws r)"
  by (induction ws arbitrary: r) (simp_all add: partly_write)

lemma partly_refl [simp]: "partly d d"
  by (simp add: partly_def)

lemma as_new_partly: "as_new d \<Longrightarrow> partly d r \<Longrightarrow> as_new r"
  by (auto simp: as_new_def partly_def)

lemma status_unchanged: "d\<lparr>d_status := s\<rparr> = d \<longleftrightarrow> d_status (d :: delivery) = s"
  by (cases d) auto

lemma count_unchanged: "d\<lparr>d_attempt_count := n\<rparr> = d \<longleftrightarrow> d_attempt_count (d :: delivery) = n"
  by (cases d) auto

lemma next_unchanged: "d\<lparr>d_next_attempt_at := t\<rparr> = d \<longleftrightarrow> d_next_attempt_at (d :: delivery) = t"
  by (cases d) auto

lemma safe_revive:
  assumes "d_status d = Dead"
  shows "safe (revive d) (\<lambda>x l'. triple x = triple d \<and> trace l' = trace l \<and> (\<exists>us. pending l' = pending l @ us \<and>
     list_all revives us \<and> (\<forall>r. partly d r \<longrightarrow> as_new (fold (write_on (d_id d)) us r)))) E l"
  unfolding revive_def
  by (intro safe_bind safe_assign_delivery)
    (use assms in \<open>auto simp: assigned_def triple_def status_unchanged count_unchanged next_unchanged partly_def as_new_def\<close>)

lemma safe_revive_all:
  assumes "\<forall>d \<in> set ds. d_status d = Dead" and "list_all revives (pending l)"
  shows "safe (map_proc revive ds) (\<lambda>xs l'. map triple xs = map triple ds \<and> trace l' = trace l \<and>
     list_all revives (pending l') \<and> (\<forall>d \<in> set ds. as_new (row_after (pending l') d))) E l"
proof (rule safe_map_prefix [where I = "\<lambda>pre xs l'. map triple xs = map triple pre \<and> trace l' = trace l \<and>
     list_all revives (pending l') \<and> (\<forall>d \<in> set pre. as_new (row_after (pending l') d))"])
  fix pre post xs :: "delivery list" and d :: delivery and l' :: local_state
  assume ds: "ds = pre @ d # post" and I: "map triple xs = map triple pre \<and> trace l' = trace l \<and> list_all revives (pending l') \<and>
    (\<forall>d \<in> set pre. as_new (row_after (pending l') d))"
  have "d_status d = Dead" using assms(1) ds by simp
  then show "safe (revive d) (\<lambda>x l'. map triple (xs @ [x]) = map triple (pre @ [d]) \<and> trace l' = trace l \<and>
     list_all revives (pending l') \<and> (\<forall>d \<in> set (pre @ [d]). as_new (row_after (pending l') d))) E l'"
    by (rule safe_mono [OF safe_revive])
      (use I in \<open>auto simp: row_after_def partly_fold intro: as_new_partly partly_fold\<close>)
qed (use assms(2) in simp)

lemma safe_replay_all:
  assumes mono: "\<And>d e p tr tr'. P d e p tr \<Longrightarrow> set tr \<subseteq> set tr' \<Longrightarrow> P d e p tr'"
    and "entries_ok P (trace l)" and ready: "\<forall>d \<in> set ds. ready P mode d (trace l)"
  shows "safe (map_proc (replay_one mode) ds) (\<lambda>is l'. is = map d_id ds \<and> entries_ok P (trace l') \<and>
     sent_entries (trace l') = sent_entries (trace l) @ map triple ds \<and> set (trace l) \<subseteq> set (trace l')) (\<lambda>_ l'. entries_ok P (trace l')) l"
proof (rule safe_map_prefix [where I = "\<lambda>pre is l'. is = map d_id pre \<and> entries_ok P (trace l') \<and>
     sent_entries (trace l') = sent_entries (trace l) @ map triple pre \<and> set (trace l) \<subseteq> set (trace l')"])
  fix pre post :: "delivery list" and d :: delivery and "is" and l' :: local_state
  assume ds: "ds = pre @ d # post"
    and I: "is = map d_id pre \<and> entries_ok P (trace l') \<and> sent_entries (trace l') = sent_entries (trace l) @ map triple pre \<and> set (trace l) \<subseteq> set (trace l')"
  have one: "safe (enqueue_one mode d) (\<lambda>_ l''. entries_ok P (trace l'') \<and> sent_entries (trace l'') = sent_entries (trace l1) @ [triple d] \<and>
     set (trace l1) \<subseteq> set (trace l'')) (\<lambda>_ l''. entries_ok P (trace l'')) l1"
    if "trace l1 = a # trace l'" "\<And>x y z. a \<noteq> Xadd x y z" for l1 a
  proof (rule safe_enqueue_one [where P = P, OF mono])
    show "entries_ok P (trace l1)" using I that by (simp split: action.splits)
    show "ready P mode d (trace l1)" by (rule ready_mono [OF mono]) (use ready ds I that(1) in auto)
  qed
  show "safe (replay_one mode d) (\<lambda>i l'. is @ [i] = map d_id (pre @ [d]) \<and> entries_ok P (trace l') \<and>
     sent_entries (trace l') = sent_entries (trace l) @ map triple (pre @ [d]) \<and> set (trace l) \<subseteq> set (trace l')) (\<lambda>_ l'. entries_ok P (trace l')) l'"
    unfolding replay_one_def
    by (intro safe_bind safe_remove_from_retry_queue safe_seq, rule safe_mono, rule one)
      (use I in \<open>auto intro!: safe_return\<close>)
qed (use assms(2) in simp)

lemma ordering_row_turn:
  "ordering_row p db = Some mode \<Longrightarrow> mode = Ordered \<or> saw (\<lambda>db. \<exists>x \<in> set (endpoints db). ep_id x = p \<and> ep_ordering x = Unordered) [Queried db]"
  by (cases mode) (auto simp: ordering_row_def dest: find_by_SomeD)

lemma replay_ok:
  assumes "loaded_deliveries l = []" and "trace l = []" and "pending l = []"
  shows "safe (replay body tenant) (\<lambda>is l'. entries_ok (revived_row (rr_endpoint_id body) (rr_delivery_ids body)) (trace l') \<and>
     replayed_rows (rr_endpoint_id body) (rr_delivery_ids body) is (trace l'))
     (\<lambda>_ l'. entries_ok (revived_row (rr_endpoint_id body) (rr_delivery_ids body)) (trace l')) l"
  unfolding replay_def
proof (intro safe_bind safe_query_rows safe_if safe_raise safe_case_option safe_load_deliveries)
  let ?p = "rr_endpoint_id body" let ?ids = "rr_delivery_ids body" let ?P = "revived_row ?p ?ids"
  fix d1 d2 d3 xs ds mode
  let ?l = "logged (Queried d3) (logged (Queried d2) (logged (Queried d1) l))\<lparr>loaded_deliveries := ds\<rparr>"
  assume mode: "ordering_row ?p d2 = Some mode" and sub: "set xs \<subseteq> set (dead_of ?p ?ids d3)"
    and all: "distinct (map d_id (dead_of ?p ?ids d3)) \<Longrightarrow> xs = dead_of ?p ?ids d3"
  have rows: "xs = dead_of ?p ?ids d3" if "distinct (map d_id (deliveries d3))"
    by (rule all) (use that in \<open>simp add: dead_of_def distinct_map_filter\<close>)
  show "safe (map_proc revive xs) (\<lambda>revived. safe (seq commit (seq (only_if (revived \<noteq> []) (reset_breaker ?p)) (map_proc (replay_one mode) revived)))
      (\<lambda>is l'. entries_ok ?P (trace l') \<and> replayed_rows ?p ?ids is (trace l')) (\<lambda>_ l'. entries_ok ?P (trace l')))
      (\<lambda>_ l'. entries_ok ?P (trace l')) ?l"
  proof (rule safe_mono [OF safe_revive_all])
    show "\<forall>d \<in> set xs. d_status d = Dead" using sub by (auto simp: dead_of_def)
    show "list_all revives (pending ?l)" using assms(3) by simp
    fix ys :: "delivery list" and l1 :: local_state
    assume ys: "map triple ys = map triple xs \<and> trace l1 = trace ?l \<and> list_all revives (pending l1) \<and>
      (\<forall>d \<in> set xs. as_new (row_after (pending l1) d))"
    have tr: "trace l1 = [Queried d3, Queried d2, Queried d1]" using ys assms(2) by simp
    have sent: "safe (map_proc (replay_one mode) ys) (\<lambda>is l'. entries_ok ?P (trace l') \<and> replayed_rows ?p ?ids is (trace l'))
        (\<lambda>_ l'. entries_ok ?P (trace l')) l2"
      if l2: "set (Committed (pending l1) db # trace l1) \<subseteq> set (trace l2)" "sent_entries (trace l2) = []" "entries_ok ?P (trace l2)" for l2 db
    proof (rule safe_mono [OF safe_replay_all [where P = ?P, OF revived_row_mono]])
      show "entries_ok ?P (trace l2)" by (rule l2)
      show "\<forall>d \<in> set ys. ready ?P mode d (trace l2)"
      proof
        fix y assume "y \<in> set ys"
        then have "triple y \<in> triple ` set xs" using ys by (metis imageI image_set)
        then obtain x where x: "x \<in> set xs" "triple y = triple x" by auto
        then have dead: "x \<in> set (dead_of ?p ?ids d3)" and p: "d_endpoint_id y = ?p"
          using sub by (auto simp: dead_of_def triple_def)
        have "?P (d_id y) (d_event_id y) (d_endpoint_id y) (trace l2)"
          unfolding revived_row_def
        proof (intro exI conjI)
          show "Queried d3 \<in> set (trace l2)" "Committed (pending l1) db \<in> set (trace l2)" using l2(1) by (simp_all add: tr)
          show "triple x = (d_id y, d_event_id y, d_endpoint_id y)" using x(2) by (simp add: triple_def)
          show "as_new (row_after (pending l1) x)" using ys x(1) by blast
        qed (rule dead)
        then show "ready ?P mode y (trace l2)"
          using ordering_row_turn [OF mode] l2(1) p by (auto simp: ready_def in_turn_def saw_def tr)
      qed
      fix "is" l'
      assume l': "is = map d_id ys \<and> entries_ok ?P (trace l') \<and> sent_entries (trace l') = sent_entries (trace l2) @ map triple ys \<and>
        set (trace l2) \<subseteq> set (trace l')"
      have ids: "map d_id zs = map fst (map triple zs)" for zs by (simp add: triple_def comp_def)
      have "Queried d3 \<in> set (trace l')" using l' l2(1) tr by auto
      then show "entries_ok ?P (trace l') \<and> replayed_rows ?p ?ids is (trace l')"
        using l' l2(2) ys rows unfolding replayed_rows_def ids by (auto intro!: exI [of _ d3])
    qed
    show "safe (seq commit (seq (only_if (ys \<noteq> []) (reset_breaker ?p)) (map_proc (replay_one mode) ys)))
        (\<lambda>is l'. entries_ok ?P (trace l') \<and> replayed_rows ?p ?ids is (trace l')) (\<lambda>_ l'. entries_ok ?P (trace l')) l1"
      by (intro safe_seq safe_commit safe_only_if safe_commands; (rule sent)?) (auto simp: tr)
  qed simp
qed (use assms in auto)

section \<open>Approved replays\<close>

text \<open>What an approved action put on the streams, by its trace and the action it answers with.\<close>

definition approved :: "agent_action \<Rightarrow> action list \<Rightarrow> bool" where
  "approved c tr \<longleftrightarrow> ac_status c = AApproved \<and> (case ac_action c of
     Pause_endpoint \<Rightarrow> sent_entries tr = []
   | Replay_dlq \<Rightarrow> each_entry (revived_row (ac_endpoint_id c) None) tr \<and>
       replayed_rows (ac_endpoint_id c) None (map fst (sent_entries tr)) tr)"

lemma decision_unchanged: "c\<lparr>ac_status := s\<rparr> = c \<longleftrightarrow> ac_status (c :: agent_action) = s"
  by (cases c) auto

lemma safe_decide:
  "safe (decide c AApproved) (\<lambda>x l'. ac_status x = AApproved \<and> ac_action x = ac_action c \<and> ac_endpoint_id x = ac_endpoint_id c \<and>
     trace l' = trace l \<and> (\<exists>us. pending l' = pending l @ us \<and> list_all revives us \<and> (\<forall>i r. fold (write_on i) us r = r))) (\<lambda>_ _. True) l"
  unfolding decide_def assign_action_def
  by (intro safe_intro) (auto simp: decision_unchanged)

lemma safe_put_all:
  assumes "each_entry P (trace l)" and mono: "\<And>d e p tr tr'. P d e p tr \<Longrightarrow> set tr \<subseteq> set tr' \<Longrightarrow> P d e p tr'"
    and "\<forall>d \<in> set ds. P (d_id d) (d_event_id d) (d_endpoint_id d) (trace l)"
  shows "safe (for_each ds (\<lambda>d. enqueue_delivery (d_id d) (d_event_id d) (d_endpoint_id d))) (\<lambda>_ l'. each_entry P (trace l') \<and>
     sent_entries (trace l') = sent_entries (trace l) @ map triple ds \<and> set (trace l) \<subseteq> set (trace l')) (\<lambda>_ _. True) l"
proof (rule safe_each_prefix [where I = "\<lambda>pre l'. each_entry P (trace l') \<and>
     sent_entries (trace l') = sent_entries (trace l) @ map triple pre \<and> set (trace l) \<subseteq> set (trace l')"])
  fix pre post :: "delivery list" and d :: delivery and l' :: local_state
  assume ds: "ds = pre @ d # post" and I: "each_entry P (trace l') \<and> sent_entries (trace l') = sent_entries (trace l) @ map triple pre \<and>
    set (trace l) \<subseteq> set (trace l')"
  have "P (d_id d) (d_event_id d) (d_endpoint_id d) (trace l')" by (rule mono) (use assms(3) ds I in auto)
  then show "safe (enqueue_delivery (d_id d) (d_event_id d) (d_endpoint_id d)) (\<lambda>_ l'. each_entry P (trace l') \<and>
     sent_entries (trace l') = sent_entries (trace l) @ map triple (pre @ [d]) \<and> set (trace l) \<subseteq> set (trace l')) (\<lambda>_ _. True) l'"
    by (intro safe_enqueue_delivery) (use I in \<open>auto simp: triple_def\<close>)
qed (use assms(1) in simp)

lemma safe_pending_action:
  "(\<And>d1 d2 c. Q c (logged (Queried d2) (logged (Queried d1) l))) \<Longrightarrow> safe (pending_action i tenant) Q (\<lambda>_ _. True) l"
  unfolding pending_action_def by (intro safe_intro) auto

lemma safe_endpoint_one:
  assumes "\<And>e l'. ep_id e = i \<Longrightarrow> pending l' = pending l \<Longrightarrow> loaded_deliveries l' = loaded_deliveries l
    \<Longrightarrow> sent_entries (trace l') = sent_entries (trace l) \<Longrightarrow> (\<And>P. each_entry P (trace l) \<Longrightarrow> each_entry P (trace l')) \<Longrightarrow> Q e l'"
  shows "safe (endpoint_one i) Q (\<lambda>_ _. True) l"
  unfolding endpoint_one_def
  by (intro safe_bind safe_select_endpoint safe_case_option safe_raise safe_return) (auto intro!: safe_raise safe_return assms)

lemma approve_ok:
  assumes "loaded_deliveries l = []" and "trace l = []" and "pending l = []"
  shows "safe (approve_action i tenant) (\<lambda>c l'. approved c (trace l')) (\<lambda>_ _. True) l"
  unfolding approve_action_def
proof (intro safe_bind safe_pending_action safe_endpoint_one)
  fix d1 d2 and c :: agent_action and l1 :: local_state and e :: endpoint
  let ?l = "logged (Queried d2) (logged (Queried d1) l)" let ?p = "ac_endpoint_id c" let ?P = "revived_row ?p None"
  assume e: "ep_id e = ?p" and l1: "pending l1 = pending ?l" "loaded_deliveries l1 = loaded_deliveries ?l"
    "sent_entries (trace l1) = sent_entries (trace ?l)" "\<And>P. each_entry P (trace ?l) \<Longrightarrow> each_entry P (trace l1)"
  have start: "pending l1 = []" "loaded_deliveries l1 = []" "sent_entries (trace l1) = []" "each_entry ?P (trace l1)"
    using l1 assms by auto
  have finish: "safe (bind (decide c AApproved) (\<lambda>act. seq commit (seq (only_if (ac_action act = Replay_dlq \<and> dead \<noteq> [])
       (seq (reset_breaker (ep_id e)) (for_each dead (\<lambda>d. enqueue_delivery (d_id d) (d_event_id d) (d_endpoint_id d)))))
       (return act)))) (\<lambda>act l'. approved act (trace l')) (\<lambda>_ _. True) l2"
    if l2: "sent_entries (trace l2) = []" "each_entry ?P (trace l2)" and none: "ac_action c = Pause_endpoint \<Longrightarrow> dead = []"
      and dead: "ac_action c = Replay_dlq \<Longrightarrow> map triple dead = map triple xs \<and> set xs \<subseteq> set (dead_of ?p None dq) \<and>
        Queried dq \<in> set (trace l2) \<and> (distinct (map d_id (deliveries dq)) \<longrightarrow> xs = dead_of ?p None dq) \<and>
        (\<forall>d \<in> set xs. as_new (row_after (pending l2) d))" for dead xs dq l2
  proof (rule safe_bind, rule safe_mono [OF safe_decide])
    fix x :: agent_action and l3 :: local_state
    assume "ac_status x = AApproved \<and> ac_action x = ac_action c \<and> ac_endpoint_id x = ?p \<and> trace l3 = trace l2 \<and>
      (\<exists>us. pending l3 = pending l2 @ us \<and> list_all revives us \<and> (\<forall>i r. fold (write_on i) us r = r))"
    then have x: "ac_status x = AApproved" "ac_action x = ac_action c" "ac_endpoint_id x = ?p" "trace l3 = trace l2"
      and same: "row_after (pending l3) d = row_after (pending l2) d" for d
      by (auto simp: row_after_def)
    let ?done = "\<lambda>db. Committed (pending l3) db # trace l2"
    have none_left: "approved x (?done db)" if "dead = []" for db
      using x l2 dead that by (cases "ac_action c") (auto simp: approved_def replayed_rows_def)
    have put: "safe (for_each dead (\<lambda>d. enqueue_delivery (d_id d) (d_event_id d) (d_endpoint_id d))) (\<lambda>_ l'. approved x (trace l')) (\<lambda>_ _. True) l4"
      if replay: "ac_action c = Replay_dlq" and l4: "trace l4 = a # ?done db" "\<And>d e p. a \<noteq> Xadd d e p" for l4 a db
    proof (rule safe_mono [OF safe_put_all [where P = ?P, OF _ revived_row_mono]])
      note rows = dead [OF replay]
      have evidence: "?P (d_id y) (d_event_id y) (d_endpoint_id y) (trace l4)" if "y \<in> set dead" for y
      proof -
        have "map triple dead = map triple xs" using rows by blast
        then have "triple y \<in> triple ` set xs" using that by (metis imageI image_set)
        then obtain z where z: "z \<in> set xs" "triple z = triple y" by auto
        show ?thesis
          unfolding revived_row_def
          by (rule exI [of _ dq], rule exI [of _ z], rule exI [of _ "pending l3"], rule exI [of _ db])
            (use rows z same in \<open>auto simp: l4 triple_def\<close>)
      qed
      then show "\<forall>y \<in> set dead. ?P (d_id y) (d_event_id y) (d_endpoint_id y) (trace l4)" by blast
      show "each_entry ?P (trace l4)" using l2 l4 by (auto split: action.splits)
      fix u l'
      assume l': "each_entry ?P (trace l') \<and> sent_entries (trace l') = sent_entries (trace l4) @ map triple dead \<and> set (trace l4) \<subseteq> set (trace l')"
      have "sent_entries (trace l4) = []" using l2(1) l4 by (auto split: action.splits)
      moreover have "map fst (map triple zs) = map d_id zs" for zs by (simp add: triple_def)
      ultimately have "map fst (sent_entries (trace l')) = map d_id xs" using l' rows by (metis append_Nil)
      moreover have "Queried dq \<in> set (trace l')" using l' rows l4(1) by auto
      moreover have "distinct (map d_id (deliveries dq)) \<Longrightarrow> xs = dead_of ?p None dq" using rows by blast
      ultimately have "replayed_rows ?p None (map fst (sent_entries (trace l'))) (trace l')"
        unfolding replayed_rows_def by metis
      then show "approved x (trace l')" using x replay l' by (simp add: approved_def)
    qed
    show "safe (seq commit (seq (only_if (ac_action x = Replay_dlq \<and> dead \<noteq> [])
        (seq (reset_breaker (ep_id e)) (for_each dead (\<lambda>d. enqueue_delivery (d_id d) (d_event_id d) (d_endpoint_id d))))) (return x)))
       (\<lambda>act l'. approved act (trace l')) (\<lambda>_ _. True) l3"
    proof (cases "dead = []")
      case True
      then show ?thesis
        by (auto simp: only_if_def x(4) none_left intro!: safe_seq safe_commit safe_return)
    next
      case False
      then have "ac_action c = Replay_dlq" using none by (cases "ac_action c") auto
      then show ?thesis
        using False x(2)
        by (simp only: only_if_def)
          (auto simp: x(4) intro!: safe_seq safe_commit safe_commands safe_return safe_mono [OF put])
    qed
  qed simp
  show "safe (apply_action c e) (\<lambda>dead. safe (bind (decide c AApproved) (\<lambda>act. seq commit (seq (only_if (ac_action act = Replay_dlq \<and> dead \<noteq> [])
       (seq (reset_breaker (ep_id e)) (for_each dead (\<lambda>d. enqueue_delivery (d_id d) (d_event_id d) (d_endpoint_id d)))))
       (return act)))) (\<lambda>act l'. approved act (trace l')) (\<lambda>_ _. True)) (\<lambda>_ _. True) l1"
  proof (cases "ac_action c")
    case Pause_endpoint
    show ?thesis
      unfolding apply_action_def Pause_endpoint agent_action_kind.case
      by (rule safe_bind, rule safe_assign_endpoint; rule safe_return, rule finish [where xs = "[]" and dq = d1])
        (use start Pause_endpoint in auto)
  next
    case Replay_dlq
    show ?thesis
      unfolding apply_action_def Replay_dlq agent_action_kind.case
    proof (rule safe_bind, rule safe_load_deliveries)
      fix dq xs ds
      let ?l3 = "logged (Queried dq) l1\<lparr>loaded_deliveries := ds\<rparr>"
      assume sub: "set xs \<subseteq> set (dead_of (ep_id e) None dq)" and all: "distinct (map d_id (dead_of (ep_id e) None dq)) \<Longrightarrow> xs = dead_of (ep_id e) None dq"
      have rows: "xs = dead_of (ep_id e) None dq" if "distinct (map d_id (deliveries dq))"
        by (rule all) (use that in \<open>simp add: dead_of_def distinct_map_filter\<close>)
      show "safe (map_proc revive xs) (\<lambda>dead. safe (bind (decide c AApproved) (\<lambda>act. seq commit (seq (only_if (ac_action act = Replay_dlq \<and> dead \<noteq> [])
         (seq (reset_breaker (ep_id e)) (for_each dead (\<lambda>d. enqueue_delivery (d_id d) (d_event_id d) (d_endpoint_id d)))))
         (return act)))) (\<lambda>act l'. approved act (trace l')) (\<lambda>_ _. True)) (\<lambda>_ _. True) ?l3"
        by (rule safe_mono [OF safe_revive_all], use sub in \<open>force simp: dead_of_def\<close>, use start in simp,
            rule finish [where xs = xs and dq = dq]) (use start sub rows Replay_dlq e in auto)
    qed (use start in auto)
  qed
qed

end
