(* ===== verification/Api_Properties.thy ===== *)
theory Api_Properties
  imports Api_Fanout Worker_Runs
begin

text \<open>
  The properties of the API: what a request may touch, what its errors are, and what the
  decisions on proposed actions do.
\<close>

lemmas api_simps = api_def tenant_route_def require_tenant_def bearer_token_def starts_with_def query_rows_def serve_def answer_def
  load_endpoints_def load_deliveries_def tenant_by_key_def

text \<open>The database of the witnesses, with the key of its tenant.\<close>

definition keyed_db :: "string \<Rightarrow> ordering_mode \<Rightarrow> delivery_status \<Rightarrow> db" where
  "keyed_db key mode s = (demo_db mode s)\<lparr>tenants := map (\<lambda>t. t\<lparr>t_api_key_hash := hash_api_key key\<rparr>) (tenants (demo_db mode s))\<rparr>"

section \<open>Isolation\<close>

text \<open>C2: a tenant request that begins with an empty trace either only looks at tables and fails, or it
  passed the checks of its parameters, carried the key of one tenant and stays within that tenant,
  whatever fails and whatever other processes do meanwhile: whatever it commits, puts on a stream
  or a queue, removes from the retry queue or resets belongs to an endpoint of that tenant, by rows
  the request itself read before; and so does every row it answers with: endpoints and
  breakers, deliveries, attempts, diagnoses and actions are those of endpoints it read as the
  tenant's, an event is one it read as the tenant's, and the deliveries listed with it are rows it
  read with that event's identifier.\<close>

theorem tenant_isolation:
  assumes "trace (w_loc w) = []"
  shows "isolated a rq (fst (api a rq w)) (trace (w_loc (snd (api a rq w))))"
  using api_isolated [OF assms] by (cases "api a rq w"; cases "fst (api a rq w)") (auto dest: safe_run [OF _ refl])

lemma keyed_run:
  "\<exists>v w'. api (Some ''Bearer rk_k'') (Get_event 3) (quiet_world (keyed_db ''rk_k'' Ordered Pending) ok_reply) = (Inr (R_event v), w') \<and>
     vo_id v = 3 \<and> vo_deliveries v = map delivery_status_view (deliveries (demo_db Ordered Pending))"
  by (simp add: api_simps run_simps io_simps quiet_simps keyed_db_def demo_db_def empty_db_def find_by_def get_event_def owned_event_def
      request_ok_def cong: run_cong)

theorem tenant_isolation_witness:
  "\<exists>v tr. isolated (Some ''Bearer rk_k'') (Get_event 3) (Inr (R_event v)) tr \<and> map ds_delivery_id (vo_deliveries v) = [4]"
proof -
  obtain v w' where run: "api (Some ''Bearer rk_k'') (Get_event 3) (quiet_world (keyed_db ''rk_k'' Ordered Pending) ok_reply) = (Inr (R_event v), w')"
    and v: "vo_deliveries v = map delivery_status_view (deliveries (demo_db Ordered Pending))" using keyed_run by blast
  have "map ds_delivery_id (vo_deliveries v) = [4]" by (simp add: v delivery_status_view_def demo_db_def)
  then show ?thesis
    using tenant_isolation [of "quiet_world (keyed_db ''rk_k'' Ordered Pending) ok_reply" "Some ''Bearer rk_k''" "Get_event 3"] run
    by (auto simp: quiet_simps)
qed

section \<open>Authentication\<close>

text \<open>The key a request carries, if its header is one \<open>require_tenant\<close> takes.\<close>

definition carried_key :: "string option \<Rightarrow> string option" where
  "carried_key a = (case a of None \<Rightarrow> None | Some h \<Rightarrow>
     if starts_with ''Bearer '' h then Some (drop (length ''Bearer '') h) else None)"

lemma bearer_token_run:
  "bearer_token a w = (case carried_key a of
     None \<Rightarrow> (Inl (unauthorized (''expected 'Authorization: Bearer <key>'' @ [CHR 0x27])), w)
   | Some token \<Rightarrow> (Inr token, w))"
  by (auto simp: bearer_token_def carried_key_def starts_with_def return_def raise_def split: option.splits)

lemma quiet_query_rows:
  assumes "w_oracle w = []" and "apply_writes (pending (w_loc w)) (sh_db (w_sh w)) = Inr d"
  shows "query_rows q w = (Inr (q d), log_action (Queried d) w)"
  using assms by (cases w; cases "w_sh w")
    (simp add: query_rows_def query_def bind_def return_def effect_def calm_event_def advance_def log_action_def)

text \<open>A request without the key of a tenant is refused with 401 and leaves everything as it
  was, provided its one query succeeds.\<close>

theorem unknown_key_refused:
  assumes "w_oracle w = []" and "\<And>key. carried_key a = Some key \<Longrightarrow> tenant_by_key (hash_api_key key) (sh_db (w_sh w)) = None"
  shows "(\<exists>m. fst (api a rq w) = Inl (unauthorized m) \<and> error_status (unauthorized m) = 401) \<and> w_sh (snd (api a rq w)) = w_sh w"
proof (cases "carried_key a")
  case None
  then show ?thesis
    by (simp add: api_def tenant_route_def with_session_def require_tenant_def bind_def bearer_token_run error_status_def unauthorized_def)
next
  case (Some key)
  have "query_rows q (w\<lparr>w_loc := clear_session (w_loc w)\<rparr>) =
      (Inr (q (sh_db (w_sh w))), log_action (Queried (sh_db (w_sh w))) (w\<lparr>w_loc := clear_session (w_loc w)\<rparr>))" for q :: "db \<Rightarrow> tenant option"
    by (rule quiet_query_rows) (use assms(1) in \<open>simp_all add: clear_session_def\<close>)
  then show ?thesis
    using Some assms(2) [OF Some]
    by (simp add: api_def tenant_route_def with_session_def require_tenant_def bind_def bearer_token_run raise_def
        error_status_def unauthorized_def log_action_def)
qed

theorem unknown_key_refused_witness:
  "(\<exists>m. fst (api None List_endpoints (quiet_world empty_db ok_reply)) = Inl (unauthorized m) \<and> error_status (unauthorized m) = 401) \<and>
     w_sh (snd (api None List_endpoints (quiet_world empty_db ok_reply))) = quiet_shared empty_db"
  using unknown_key_refused [of "quiet_world empty_db ok_reply" None List_endpoints]
  by (simp add: quiet_world_def carried_key_def)

text \<open>The admin check admits exactly the configured token, answers every other ASCII token and
  every other header with 401, and raises a \<open>TypeError\<close>, which is answered with 500, when the
  token it is given is not ASCII.\<close>

theorem admin_check:
  assumes "is_ascii (admin_token (in_cfg (w_in w)))"
  shows "error_status Type_error = 500 \<and> fst (require_admin a w) = (case carried_key a of
     None \<Rightarrow> Inl (unauthorized (''expected 'Authorization: Bearer <key>'' @ [CHR 0x27]))
   | Some token \<Rightarrow> if \<not> is_ascii token then Inl Type_error
       else if token = admin_token (in_cfg (w_in w)) then Inr () else Inl (unauthorized ''invalid admin token''))"
  using assms by (auto simp: require_admin_def bind_def bearer_token_run settings_of_def compare_digest_def return_def raise_def
      error_status_def split: option.splits)

theorem admin_check_witness:
  "fst (require_admin (Some (''Bearer '' @ [CHR 0xE9])) (quiet_world empty_db ok_reply)) = Inl Type_error"
  using admin_check [of "quiet_world empty_db ok_reply" "Some (''Bearer '' @ [CHR 0xE9])"]
  by (simp add: quiet_simps carried_key_def starts_with_def is_ascii_def)

section \<open>Ingestion\<close>

lemmas event_simps = ingest_event_def existing_by_idempotency_key_def new_event_def new_delivery_def fan_out_def try_commit_def except_in_def
  resolve_conflict_def expired_tenant_id_def enqueue_one_def enqueue_ordered_def enqueue_delivery_def active_endpoints_of_def subscribed_def
  event_with_key_def ordering_of_def rollback_def enqueue_ordered_list_def

text \<open>C6: ingestion puts on the streams only deliveries it has committed, each, if its endpoint was
  read as ordered, after its place in the endpoint's queue; whatever fails meanwhile.  When it
  answers, the key was known and nothing was enqueued, or exactly one delivery of the new event
  was enqueued for every active endpoint of the tenant that subscribes to its type, in the order
  of the query.\<close>

theorem ingestion_fans_out:
  assumes "trace (w_loc w) = []" and "loaded_endpoints (w_loc w) = []" and "ingest_event body tenant w = (r, w')"
  shows "entries_ok inserted (trace (w_loc w')) \<and>
    (\<forall>i. r = Inr i \<longrightarrow> replayed_key tenant body i (trace (w_loc w')) \<or> fanned_out tenant (vc_event_type body) i (trace (w_loc w')))"
  using ingest_ok [OF assms(2,1), of body tenant] assms(3) by (cases r) (auto dest: safe_run [OF _ refl])

definition demo_event :: event_create where
  "demo_event = \<lparr>vc_event_type = ''order.created'', vc_payload = JObj [], vc_idempotency_key = Some ''k''\<rparr>"

definition demo_tenant :: tenant where
  "demo_tenant = hd (tenants (demo_db Ordered Pending))"

lemma demo_ingest:
  "\<exists>w'. ingest_event demo_event demo_tenant (quiet_world (demo_db Ordered Pending) ok_reply) = (Inr 0, w') \<and>
     sent_entries (trace (w_loc w')) = [(1, 0, 2)] \<and> Rpush 2 1 \<in> set (trace (w_loc w'))"
  by (simp add: event_simps api_simps run_simps io_simps quiet_simps demo_db_def demo_event_def demo_tenant_def empty_db_def find_by_def
      shard_for_def Let_def event_key_free_def storable_simps cong: run_cong)

theorem ingestion_fans_out_witness:
  "\<exists>w'. ingest_event demo_event demo_tenant (quiet_world (demo_db Ordered Pending) ok_reply) = (Inr 0, w') \<and>
     sent_entries (trace (w_loc w')) = [(1, 0, 2)] \<and> entries_ok inserted (trace (w_loc w')) \<and>
     fanned_out demo_tenant ''order.created'' 0 (trace (w_loc w'))"
proof -
  obtain w' where run: "ingest_event demo_event demo_tenant (quiet_world (demo_db Ordered Pending) ok_reply) = (Inr 0, w')"
    and sent: "sent_entries (trace (w_loc w')) = [(1, 0, 2)]" using demo_ingest by blast
  show ?thesis
    using ingestion_fans_out [OF _ _ run] run sent by (auto simp: quiet_simps replayed_key_def demo_event_def)
qed

text \<open>A key already in the database is answered with the event that holds it, and nothing is
  written, enqueued or counted.\<close>

theorem known_key_is_replayed:
  assumes "w_oracle w = []" and "pending (w_loc w) = []" and "vc_idempotency_key body = Some key"
    and "event_with_key (t_id tenant) key (sh_db (w_sh w)) = Some e"
  shows "ingest_event body tenant w = (Inr (ev_id e), log_action (Queried (sh_db (w_sh w))) w)"
  using quiet_query_rows [of w "sh_db (w_sh w)" "event_with_key (t_id tenant) key"] assms
  by (simp add: ingest_event_def existing_by_idempotency_key_def bind_def return_def)

theorem known_key_is_replayed_witness:
  "fst (ingest_event demo_event demo_tenant (quiet_world ((demo_db Ordered Pending)\<lparr>events :=
      [\<lparr>ev_id = 3, ev_tenant_id = 1, ev_event_type = ''t'', ev_payload = JNull, ev_idempotency_key = Some ''k'', ev_created_at = 0\<rparr>]\<rparr>) ok_reply)) = Inr 3"
  by (subst known_key_is_replayed [where key = "''k''" and e = "\<lparr>ev_id = 3, ev_tenant_id = 1, ev_event_type = ''t'', ev_payload = JNull,
      ev_idempotency_key = Some ''k'', ev_created_at = 0\<rparr>"])
    (simp_all add: quiet_simps demo_event_def demo_tenant_def demo_db_def event_with_key_def)

text \<open>Two requests racing on one idempotency key are not both answered with the same event: if
  the key is free when the request looks and taken when it selects the endpoints, the flush
  before that query raises the \<open>IntegrityError\<close>, outside the \<open>try\<close> that would resolve it, and the
  request ends with 500.\<close>

theorem racing_key_is_500:
  assumes "w_oracle w = [early, late]" and "io_fault early = Up" and "io_fault late = Up"
    and "pending (w_loc w) = []" and "vc_idempotency_key body = Some key"
    and "event_with_key (t_id tenant) key (sh_db (advance early (w_sh w))) = None"
    and "event_with_key (t_id tenant) key (sh_db (advance late (advance early (w_sh w)))) = Some e"
    and "text_ok (vc_event_type body)" and "json_storable (vc_payload body)" and "text_ok key"
  shows "fst (ingest_event body tenant w) = Inl Integrity_error \<and> error_status Integrity_error = 500"
proof -
  have taken: "\<not> event_key_free ev (sh_db (advance late (advance early (w_sh w))))"
    if "ev_tenant_id ev = t_id tenant" "ev_idempotency_key ev = Some key" for ev
    using that find_SomeD [OF assms(7) [unfolded event_with_key_def]] by (auto simp: event_key_free_def)
  show ?thesis
    using assms(1-6,8-10) taken
    by (cases w) (auto simp: ingest_event_def existing_by_idempotency_key_def new_event_def fan_out_def load_endpoints_def query_rows_def query_def
        effect_def bind_def seq_def return_def uuid4_def next_draw_def db_now_def add_pending_def modify_local_def log_action_def logged_def
        check_def db_exn_def error_status_def event_storable_def)
qed

text \<open>Another request with the same key commits between the look and the query of the endpoints.\<close>

definition rival_event :: event where
  "rival_event = \<lparr>ev_id = 9, ev_tenant_id = 1, ev_event_type = ''order.created'', ev_payload = JObj [], ev_idempotency_key = Some ''k'', ev_created_at = 0\<rparr>"

definition rival :: io_event where
  "rival = calm_event\<lparr>io_env := (\<lambda>s. s\<lparr>sh_db := (sh_db s)\<lparr>events := rival_event # events (sh_db s)\<rparr>\<rparr>)\<rparr>"

theorem racing_key_is_500_witness:
  "fst (ingest_event demo_event demo_tenant ((quiet_world (demo_db Ordered Pending) ok_reply)\<lparr>w_oracle := [calm_event, rival]\<rparr>)) = Inl Integrity_error"
  by (rule racing_key_is_500 [where early = calm_event and late = rival and key = "''k''" and e = rival_event, THEN conjunct1])
    (simp_all add: quiet_simps calm_event_def rival_def rival_event_def demo_event_def demo_tenant_def demo_db_def advance_def event_with_key_def text_ok_def)

text \<open>A commit of the ingestion that raises \<open>IntegrityError\<close> never leads to the event of the
  request that won: without a key the assertion fails, and with one the tenant's expired
  identifier cannot be read after the rollback; the answer is 500 in every case.\<close>

theorem conflict_never_resolved:
  "\<exists>e. fst (resolve_conflict tenant body w) = Inl e \<and> error_status e = 500 \<and>
     sent_entries (trace (w_loc (snd (resolve_conflict tenant body w)))) = sent_entries (trace (w_loc w))"
proof -
  have "safe (resolve_conflict tenant body) (\<lambda>_ _. False) (\<lambda>e l'. error_status e = 500 \<and>
      sent_entries (trace l') = sent_entries (trace l)) l" for l
    unfolding resolve_conflict_def expired_tenant_id_def
    by (intro safe_intro) (auto simp: error_status_def sql_exns_def)
  then have s: "safe (resolve_conflict tenant body) (\<lambda>_ _. False) (\<lambda>e l'. error_status e = 500 \<and>
      sent_entries (trace l') = sent_entries (trace (w_loc w))) (w_loc w)" .
  show ?thesis
    by (cases "resolve_conflict tenant body w"; cases "fst (resolve_conflict tenant body w)")
      (use safe_run [OF s refl] in auto)
qed

section \<open>Replay\<close>

text \<open>C26: a replay in a fresh session, whatever fails and whatever other processes do: every entry it
  puts on a stream is of a delivery it read as dead at the endpoint it names (and, if it names
  deliveries, among those), comes after the commit of updates that turn the row it read back to
  "pending" with no attempts counted and no next attempt, and, for an endpoint it read as ordered,
  after the delivery's place in the queue.  When it answers, the identifiers it answers with are
  those put on the streams, in that order, and, identifiers being unique in the table it read, all
  the dead deliveries asked for.\<close>

theorem replay_requeues_the_dead:
  assumes "trace (w_loc w) = []" and "loaded_deliveries (w_loc w) = []" and "pending (w_loc w) = []" and "replay body tenant w = (r, w')"
  shows "entries_ok (revived_row (rr_endpoint_id body) (rr_delivery_ids body)) (trace (w_loc w')) \<and>
    (\<forall>is. r = Inr is \<longrightarrow> replayed_rows (rr_endpoint_id body) (rr_delivery_ids body) is (trace (w_loc w')))"
  using replay_ok [OF assms(2,1,3), of body tenant] assms(4) by (cases r) (auto dest: safe_run [OF _ refl])

lemma demo_replay:
  "\<exists>w'. replay \<lparr>rr_endpoint_id = 2, rr_delivery_ids = None\<rparr> demo_tenant (quiet_world (demo_db Ordered Dead) ok_reply) = (Inr [4], w') \<and>
     sent_entries (trace (w_loc w')) = [(4, 3, 2)] \<and> Rpush 2 4 \<in> set (trace (w_loc w'))"
  by (simp add: replay_def owned_ids_def dead_of_def ordering_row_def revive_def replay_one_def remove_from_retry_queue_def reset_breaker_def
      event_simps api_simps run_simps io_simps quiet_simps demo_db_def demo_tenant_def empty_db_def find_by_def update_by_def
      shard_for_def encode_member_def Let_def storable_simps cong: run_cong)

theorem replay_requeues_the_dead_witness:
  "\<exists>tr. sent_entries tr = [(4, 3, 2)] \<and> entries_ok (revived_row 2 None) tr \<and> replayed_rows 2 None [4] tr"
proof -
  obtain w' where run: "replay \<lparr>rr_endpoint_id = 2, rr_delivery_ids = None\<rparr> demo_tenant (quiet_world (demo_db Ordered Dead) ok_reply) = (Inr [4], w')"
    and sent: "sent_entries (trace (w_loc w')) = [(4, 3, 2)]" using demo_replay by blast
  show ?thesis
    using replay_requeues_the_dead [OF _ _ _ run] sent by (auto simp: quiet_simps)
qed

section \<open>Decisions\<close>

definition no_rpush :: "action list \<Rightarrow> bool" where
  "no_rpush tr \<longleftrightarrow> (\<forall>p d. Rpush p d \<notin> set tr)"

lemma approve_keeps_no_rpush: "keeps (on_trace no_rpush) (approve_action i tenant)"
  unfolding route_defs Let_def by (intro keeps_intro; simp add: no_rpush_def)

text \<open>C40: approving a proposed replay in a fresh session, whatever fails and whatever other processes
  do: it never gives a delivery a place in an ordering queue; and when it answers, it has put on the
  streams entries of deliveries it read as dead at the action's endpoint, each after the commit that
  revived it, and, identifiers being unique in the table it read, of all of them.  So unlike a replay
  by the tenant, it puts the deliveries of an ordered endpoint back on the stream without their
  places in its queue.\<close>

theorem approved_replay_skips_the_queue:
  assumes "trace (w_loc w) = []" and "loaded_deliveries (w_loc w) = []" and "pending (w_loc w) = []"
    and "approve_action i tenant w = (r, w')"
  shows "(\<forall>p d. Rpush p d \<notin> set (trace (w_loc w'))) \<and>
    (\<forall>c. r = Inr c \<and> ac_action c = Replay_dlq \<longrightarrow>
       each_entry (revived_row (ac_endpoint_id c) None) (trace (w_loc w')) \<and>
       replayed_rows (ac_endpoint_id c) None (map fst (sent_entries (trace (w_loc w')))) (trace (w_loc w')))"
proof
  show "\<forall>p d. Rpush p d \<notin> set (trace (w_loc w'))"
    using keepsD [OF approve_keeps_no_rpush assms(4)] assms(1) by (simp add: no_rpush_def)
  show "\<forall>c. r = Inr c \<and> ac_action c = Replay_dlq \<longrightarrow> each_entry (revived_row (ac_endpoint_id c) None) (trace (w_loc w')) \<and>
       replayed_rows (ac_endpoint_id c) None (map fst (sent_entries (trace (w_loc w')))) (trace (w_loc w'))"
    using approve_ok [OF assms(2,1,3), of i tenant] assms(4)
    by (cases r) (auto dest: safe_run [OF _ refl] simp: approved_def split: agent_action_kind.splits)
qed

definition demo_action :: "agent_action_kind \<Rightarrow> action_status \<Rightarrow> agent_action" where
  "demo_action kind s = \<lparr>ac_id = 6, ac_diagnosis_id = 5, ac_endpoint_id = 2, ac_action = kind, ac_reason = [], ac_status = s,
     ac_decided_at = None, ac_created_at = 0\<rparr>"

definition action_world :: "agent_action_kind \<Rightarrow> action_status \<Rightarrow> world" where
  "action_world kind s = quiet_world ((demo_db Ordered Dead)\<lparr>actions := [demo_action kind s]\<rparr>) ok_reply"

lemmas action_simps = approve_action_def reject_action_def pending_action_def owned_ids_def owned_action_def endpoint_one_def apply_action_def
  decide_def assign_action_def dead_of_def revive_def reset_breaker_def event_simps api_simps

lemma demo_approve:
  "\<exists>c w'. approve_action 6 demo_tenant (action_world Replay_dlq APending) = (Inr c, w') \<and> ac_action c = Replay_dlq \<and>
     ac_endpoint_id c = 2 \<and> sent_entries (trace (w_loc w')) = [(4, 3, 2)]"
  by (simp add: action_simps run_simps io_simps quiet_simps action_world_def demo_action_def demo_db_def demo_tenant_def empty_db_def find_by_def
      update_by_def shard_for_def Let_def storable_simps cong: run_cong)

theorem approved_replay_skips_the_queue_witness:
  "\<exists>c w'. approve_action 6 demo_tenant (action_world Replay_dlq APending) = (Inr c, w') \<and>
     sent_entries (trace (w_loc w')) = [(4, 3, 2)] \<and> Rpush 2 4 \<notin> set (trace (w_loc w')) \<and> revived_row 2 None 4 3 2 (trace (w_loc w'))"
proof -
  obtain c w' where run: "approve_action 6 demo_tenant (action_world Replay_dlq APending) = (Inr c, w')" and kind: "ac_action c = Replay_dlq"
    and p: "ac_endpoint_id c = 2" and sent: "sent_entries (trace (w_loc w')) = [(4, 3, 2)]" using demo_approve by blast
  have all: "Rpush 2 4 \<notin> set (trace (w_loc w'))" "each_entry (revived_row 2 None) (trace (w_loc w'))"
    using approved_replay_skips_the_queue [OF _ _ _ run] kind p by (simp_all add: action_world_def quiet_simps)
  have "x \<in> set (sent_entries tr) \<Longrightarrow> each_entry (revived_row 2 None) tr \<Longrightarrow> revived_row 2 None (fst x) (fst (snd x)) (snd (snd x)) tr" for x tr
    by (induction tr) (auto split: action.splits dest: revived_row_later)
  from this [of "(4, 3, 2)"] show ?thesis using run all sent by auto
qed

text \<open>An action of the tenant that is already decided is neither approved nor rejected again:
  both routes answer 409 and change nothing.\<close>

theorem decided_action_conflicts:
  assumes "w_oracle w = []" and "pending (w_loc w) = []" and "owned_action i (owned_ids tenant (sh_db (w_sh w))) (sh_db (w_sh w)) = Some c"
    and "ac_status c \<noteq> APending"
  shows "(\<exists>m. fst (approve_action i tenant w) = Inl (Api_error 409 ''already_decided'' m)) \<and> w_sh (snd (approve_action i tenant w)) = w_sh w \<and>
    (\<exists>m. fst (reject_action i tenant w) = Inl (Api_error 409 ''already_decided'' m)) \<and> w_sh (snd (reject_action i tenant w)) = w_sh w"
proof -
  let ?db = "sh_db (w_sh w)"
  have one: "query_rows (owned_ids tenant) w = (Inr (owned_ids tenant ?db), log_action (Queried ?db) w)"
    by (rule quiet_query_rows) (use assms in simp_all)
  have two: "query_rows q (log_action (Queried ?db) w) = (Inr (q ?db), log_action (Queried ?db) (log_action (Queried ?db) w))" for q :: "db \<Rightarrow> agent_action option"
    by (rule quiet_query_rows) (use assms in \<open>simp_all add: log_action_def\<close>)
  have "\<exists>m. pending_action i tenant w = (Inl (Api_error 409 ''already_decided'' m), log_action (Queried ?db) (log_action (Queried ?db) w))"
    using assms(3,4) by (simp add: pending_action_def bind_def one two raise_def)
  moreover have "w_sh (log_action (Queried ?db) (log_action (Queried ?db) w)) = w_sh w" by (simp add: log_action_def)
  ultimately show ?thesis by (auto simp: approve_action_def reject_action_def bind_def)
qed

theorem decided_action_conflicts_witness:
  "\<exists>m. fst (reject_action 6 demo_tenant (action_world Pause_endpoint AApproved)) = Inl (Api_error 409 ''already_decided'' m)"
  using decided_action_conflicts [of "action_world Pause_endpoint AApproved" 6 demo_tenant "demo_action Pause_endpoint AApproved"]
  by (simp add: action_world_def quiet_simps demo_action_def demo_tenant_def demo_db_def owned_action_def owned_ids_def)

definition rejected_meanwhile :: io_event where
  "rejected_meanwhile = calm_event\<lparr>io_env := (\<lambda>s. s\<lparr>sh_db := (sh_db s)
     \<lparr>actions := update_by ac_id 6 (\<lambda>c. c\<lparr>ac_status := ARejected\<rparr>) (actions (sh_db s))\<rparr>\<rparr>)\<rparr>"

text \<open>The check does not exclude a decision made meanwhile: an action another request rejects
  between the look at it and the commit is approved all the same, and what it proposes is
  carried out.\<close>

theorem rejected_action_still_runs:
  "case approve_action 6 demo_tenant ((action_world Pause_endpoint APending)\<lparr>w_oracle := [calm_event, calm_event, rejected_meanwhile]\<rparr>) of
     (r, w') \<Rightarrow> (\<exists>c. r = Inr c \<and> ac_status c = AApproved) \<and> map ep_status (endpoints (sh_db (w_sh w'))) = [Paused] \<and>
       map ac_status (actions (sh_db (w_sh w'))) = [AApproved]"
  by (simp add: action_simps run_simps io_simps quiet_simps action_world_def demo_action_def demo_db_def demo_tenant_def empty_db_def find_by_def
      update_by_def rejected_meanwhile_def Let_def storable_simps cong: run_cong)

section \<open>Pages\<close>

text \<open>The rows a list route answers with, and the limit it was asked for.\<close>

fun rows_of :: "response \<Rightarrow> nat" where
  "rows_of (R_deliveries ds) = length ds"
| "rows_of (R_diagnoses gs) = length gs"
| "rows_of _ = 0"

fun limit_of :: "tenant_request \<Rightarrow> int" where
  "limit_of (List_deliveries e s limit offset) = limit"
| "limit_of (List_dlq e limit offset) = limit"
| "limit_of (List_diagnoses e s limit) = limit"
| "limit_of _ = 0"

lemma safe_anything: "safe m (\<lambda>_ _. True) (\<lambda>_ _. True) l"
  by (auto simp: safe_def split: prod.splits sum.splits)

lemma safe_load_count:
  assumes "\<And>d. length (q d) \<le> n"
  shows "safe (load_deliveries q) (\<lambda>xs _. length xs \<le> n) (\<lambda>_ _. True) l"
proof -
  have count: "safe (map_proc load_delivery xs) (\<lambda>ys _. length ys = length xs) (\<lambda>_ _. True) l" for xs l
    by (rule safe_map_prefix [where I = "\<lambda>pre ys _. length ys = length pre"]) (auto intro!: safe_mono [OF safe_anything])
  show ?thesis
    unfolding load_deliveries_def
    by (rule safe_bind, rule safe_query_rows, rule safe_mono [OF count]) (use assms in simp_all)
qed

lemma page_length: "length (page limit offset xs) \<le> nat limit"
  by (simp add: page_def)

lemma safe_answer: "safe m (\<lambda>x l'. Q (f x) l') E l \<Longrightarrow> safe (answer f m) Q E l"
  unfolding answer_def by (rule safe_bind) (auto elim!: safe_mono intro: safe_return)

lemma serve_page: "safe (serve rq tenant) (\<lambda>x _. rows_of x \<le> nat (limit_of rq)) (\<lambda>_ _. True) l"
proof -
  have narrow: "safe (narrow e owned) (\<lambda>owned. safe (load_deliveries (\<lambda>d. page limit offset (f owned d))) (\<lambda>xs _. length xs \<le> nat limit) (\<lambda>_ _. True)) (\<lambda>_ _. True) l"
    for e owned limit offset f l
    by (rule safe_mono [OF safe_anything]) (auto intro!: safe_load_count page_length)
  show ?thesis
  proof (cases rq)
    case (List_deliveries e s limit offset)
    have "safe (list_deliveries e s limit offset tenant) (\<lambda>x _. length x \<le> nat limit) (\<lambda>_ _. True) l"
      unfolding list_deliveries_def by (intro safe_if safe_raise safe_bind safe_query_rows narrow TrueI)
    then show ?thesis by (simp add: List_deliveries serve_def safe_answer)
  next
    case (List_dlq e limit offset)
    have "safe (list_dlq e limit offset tenant) (\<lambda>x _. length x \<le> nat limit) (\<lambda>_ _. True) l"
      unfolding list_dlq_def by (intro safe_bind safe_query_rows narrow TrueI)
    then show ?thesis by (simp add: List_dlq serve_def safe_answer)
  next
    case (List_diagnoses e s limit)
    have "safe (list_diagnoses e s limit tenant) (\<lambda>x _. length x \<le> nat limit) (\<lambda>_ _. True) l"
      unfolding list_diagnoses_def
      by (intro safe_bind safe_query_rows TrueI, rule safe_mono [OF safe_anything]) (auto intro!: safe_if safe_raise safe_query_rows)
    then show ?thesis by (simp add: List_diagnoses serve_def safe_answer)
  qed (simp_all add: serve_def safe_answer safe_anything)
qed

text \<open>A list of deliveries, a page of the DLQ or a list of diagnoses has no more rows than the
  limit asked for, and never more than 200.\<close>

theorem pages_bounded:
  assumes "fst (api a rq w) = Inr x"
  shows "int (rows_of x) \<le> max 0 (limit_of rq) \<and> rows_of x \<le> 200"
proof -
  have "safe (api a rq) (\<lambda>x _. rows_of x \<le> nat (limit_of rq) \<and> request_ok rq) (\<lambda>_ _. True) (w_loc w)"
    unfolding api_def tenant_route_def
    by (intro safe_with_session safe_bind, rule safe_mono [OF safe_anything])
      (auto intro!: safe_if safe_raise safe_mono [OF serve_page])
  from safe_run(1) [OF this refl, of x "snd (api a rq w)"] assms
  have "rows_of x \<le> nat (limit_of rq)" and "request_ok rq" by (metis prod.collapse)+
  moreover have "limit_of rq \<le> 200" using \<open>request_ok rq\<close> by (cases rq) (simp_all add: request_ok_def page_ok_def)
  ultimately show ?thesis by linarith
qed

lemma keyed_page:
  "fst (api (Some ''Bearer rk_k'') (List_deliveries None None 1 0) (quiet_world (keyed_db ''rk_k'' Ordered Pending) ok_reply)) =
     Inr (R_deliveries (deliveries (demo_db Ordered Pending)))"
  by (simp add: api_simps run_simps io_simps quiet_simps keyed_db_def demo_db_def empty_db_def find_by_def list_deliveries_def owned_ids_def
      narrow_def page_def newest_def optional_def request_ok_def page_ok_def cong: run_cong)

theorem pages_bounded_witness:
  "int (rows_of (R_deliveries (deliveries (demo_db Ordered Pending)))) \<le> 1"
  using pages_bounded [OF keyed_page] by simp

end
