(* ===== verification/Metered.thy ===== *)
theory Metered
  imports Worker_Safety
begin

text \<open>
  Counting: how many actions of a kind a process may add to its trace, whatever fails.  The
  rules compute a bound through a program text; what does none of the counted actions costs
  nothing, by the rules for trace invariants.
\<close>

definition count_of :: "(action \<Rightarrow> bool) \<Rightarrow> action list \<Rightarrow> nat" where
  "count_of A tr = length (filter A tr)"

definition spends :: "(action \<Rightarrow> bool) \<Rightarrow> nat \<Rightarrow> 'a proc \<Rightarrow> bool" where
  "spends A n m \<longleftrightarrow> (\<forall>w r w'. m w = (r, w') \<longrightarrow> count_of A (trace (w_loc w')) \<le> count_of A (trace (w_loc w)) + n)"

lemma count_of_simps [simp]: "count_of A [] = 0" "count_of A (a # tr) = (if A a then Suc (count_of A tr) else count_of A tr)"
  by (simp_all add: count_of_def)

lemma spendsD: "spends A n m \<Longrightarrow> m w = (r, w') \<Longrightarrow> count_of A (trace (w_loc w')) \<le> count_of A (trace (w_loc w)) + n"
  unfolding spends_def by blast

lemma spends_mono: "spends A n m \<Longrightarrow> n \<le> k \<Longrightarrow> spends A k m"
  unfolding spends_def by (meson add_le_mono le_trans order_refl)

lemma spends_none: "(\<And>c. keeps (on_trace (\<lambda>tr. count_of A tr \<le> c)) m) \<Longrightarrow> spends A 0 m"
  unfolding spends_def by (auto dest!: keepsD [where J = "on_trace (\<lambda>tr. count_of A tr \<le> c)" for c])

lemma spends_return: "spends A 0 (return x)"
  by (simp add: spends_def return_def)

lemma spends_raise: "spends A 0 (raise e)"
  by (simp add: spends_def raise_def)

lemma spends_bind: "spends A j m \<Longrightarrow> (\<And>x. spends A k (f x)) \<Longrightarrow> spends A (j + k) (bind m f)"
  unfolding spends_def bind_def by (fastforce split: prod.splits sum.splits)

lemma spends_then: "spends A n m \<Longrightarrow> (\<And>x. spends A 0 (f x)) \<Longrightarrow> spends A n (bind m f)"
  using spends_bind [of A n m 0 f] by simp

lemma spends_after: "spends A 0 m \<Longrightarrow> (\<And>x. spends A n (f x)) \<Longrightarrow> spends A n (bind m f)"
  using spends_bind [of A 0 m n f] by simp

lemma spends_seq: "spends A j m \<Longrightarrow> spends A k m2 \<Longrightarrow> spends A (j + k) (seq m m2)"
  unfolding seq_def by (rule spends_bind)

lemma spends_if: "(b \<Longrightarrow> spends A n m) \<Longrightarrow> (\<not> b \<Longrightarrow> spends A n k) \<Longrightarrow> spends A n (if b then m else k)"
  by simp

lemma spends_option: "spends A n m \<Longrightarrow> (\<And>y. x = Some y \<Longrightarrow> spends A n (k y)) \<Longrightarrow> spends A n (case x of None \<Rightarrow> m | Some y \<Rightarrow> k y)"
  by (cases x) simp_all

lemma spends_prod: "(\<And>a b. spends A n (f a b)) \<Longrightarrow> spends A n (case x of (a, b) \<Rightarrow> f a b)"
  by (cases x) simp

lemma spends_try_except: "spends A j m \<Longrightarrow> (\<And>e. spends A k (h e)) \<Longrightarrow> spends A (j + k) (try_except m h)"
  unfolding spends_def try_except_def by (fastforce split: prod.splits sum.splits if_splits)

lemma spends_try_finally: "spends A j m \<Longrightarrow> spends A k fin \<Longrightarrow> spends A (j + k) (try_finally m fin)"
  unfolding spends_def try_finally_def by (fastforce split: prod.splits sum.splits if_splits)

lemma spends_with_session: "spends A n m \<Longrightarrow> spends A n (with_session m)"
  unfolding spends_def with_session_def by (fastforce split: prod.splits)

lemma spends_effect:
  assumes "\<And>w r w'. f w = (r, w') \<Longrightarrow> count_of A (trace (w_loc w')) \<le> count_of A (trace (w_loc w)) + n"
  shows "spends A n (effect co f)"
proof -
  have step: "count_of A (trace (w_loc (snd (f w)))) \<le> count_of A (trace (w_loc w)) + n" for w
    using assms [OF prod.collapse [symmetric]] .
  show ?thesis
    unfolding spends_def effect_def Let_def
    by (auto split: prod.splits fault.splits dest: assms intro!: order.trans [OF step])
qed

end
