(* ===== verification/Worker_Bounds.thy ===== *)
theory Worker_Bounds
  imports Metered Worker_Runs
begin

text \<open>
  How much one stream entry can cause: at most one request, at most one attempt row, and at most
  one new entry in the retry queue, on every path and whatever fails.
\<close>

fun posts :: "action \<Rightarrow> bool" where
  "posts (Posted rq r) = True" | "posts a = False"

fun requeues :: "action \<Rightarrow> bool" where
  "requeues (Zadd_retry d e p due) = True" | "requeues a = False"

text \<open>An action that neither sends nor requeues is free for both; the two counts are proved together.\<close>

definition causes :: "nat \<Rightarrow> nat \<Rightarrow> 'a proc \<Rightarrow> bool" where
  "causes i j m \<longleftrightarrow> spends posts i m \<and> spends requeues j m"

named_theorems causes_intro "rules for what a process may cause"

lemma causes_none: "(\<And>A c. (\<And>a. A a \<Longrightarrow> posts a \<or> requeues a) \<Longrightarrow> keeps (on_trace (\<lambda>tr. count_of A tr \<le> c)) m) \<Longrightarrow> causes 0 0 m"
  unfolding causes_def by (auto intro!: spends_none)

lemma causes_mono: "causes 0 0 m \<Longrightarrow> causes i j m"
  unfolding causes_def by (auto elim: spends_mono)

lemma causes_return [causes_intro]: "causes i j (return x)"
  unfolding causes_def by (auto intro: spends_mono [OF spends_return])

lemma causes_raise [causes_intro]: "causes i j (raise e)"
  unfolding causes_def by (auto intro: spends_mono [OF spends_raise])

lemma causes_then: "causes i j m \<Longrightarrow> (\<And>x. causes 0 0 (f x)) \<Longrightarrow> causes i j (bind m f)"
  unfolding causes_def by (auto intro: spends_then)

lemma causes_after: "causes 0 0 m \<Longrightarrow> (\<And>x. causes i j (f x)) \<Longrightarrow> causes i j (bind m f)"
  unfolding causes_def by (auto intro: spends_after)

lemma causes_try: "causes i j m \<Longrightarrow> (\<And>e. causes 0 0 (h e)) \<Longrightarrow> causes i j (try_except m h)"
  unfolding causes_def using spends_try_except [of posts i m 0 h] spends_try_except [of requeues j m 0 h] by simp

lemma causes_both: "causes i 0 m \<Longrightarrow> (\<And>x. causes 0 j (f x)) \<Longrightarrow> causes i j (bind m f)"
  unfolding causes_def by (auto intro: spends_after spends_then)

lemma causes_cases [causes_intro]:
  "(b \<Longrightarrow> causes i j m) \<Longrightarrow> (\<not> b \<Longrightarrow> causes i j k) \<Longrightarrow> causes i j (if b then m else k)"
  "causes i j m2 \<Longrightarrow> (\<And>y. x = Some y \<Longrightarrow> causes i j (k2 y)) \<Longrightarrow> causes i j (case x of None \<Rightarrow> m2 | Some y \<Rightarrow> k2 y)"
  "(\<And>a c. causes i j (f a c)) \<Longrightarrow> causes i j (case z of (a, c) \<Rightarrow> f a c)"
  by (auto split: option.splits prod.splits)

lemma count_stays: "(\<And>a. A a \<Longrightarrow> posts a \<or> requeues a) \<Longrightarrow> \<not> posts b \<Longrightarrow> \<not> requeues b \<Longrightarrow> count_of A tr \<le> c \<Longrightarrow> count_of A (b # tr) \<le> c"
  by auto

text \<open>The calls of the worker that cause neither.\<close>

lemma free_calls [causes_intro]:
  "causes 0 0 settings_of" "causes 0 0 time_time" "causes 0 0 db_now" "causes 0 0 random_draw" "causes 0 0 (get_local g)"
  "causes 0 0 (count_metric x)" "causes 0 0 (add_pending ws)" "causes 0 0 commit"
  "causes 0 0 (select_delivery d)" "causes 0 0 (select_endpoint p)" "causes 0 0 (select_event e)" "causes 0 0 (select_tenant_one t)"
  "causes 0 0 (refresh_delivery dl)" "causes 0 0 (assign_delivery dl f)" "causes 0 0 (assign_endpoint ep h)"
  "causes 0 0 (acquire_lock p)" "causes 0 0 (release_lock p tok)" "causes 0 0 (peek_head p)" "causes 0 0 (pop_head p d)"
  "causes 0 0 (take_token t r n)" "causes 0 0 (acquire_slot t c n)" "causes 0 0 (release_slot t tok)"
  "causes 0 0 (record_outcome p s n)" "causes 0 0 (allow_request p n)" "causes 0 0 (should_auto_disable p n)"
  "causes 0 0 (xack_proc key i)" "causes 0 0 (timedelta_seconds x2)"
  unfolding xack_proc_def timedelta_seconds_def
  by (rule causes_none; (intro keeps_intro)?; (rule count_stays; assumption?; simp)?; auto split: pyfloat.split intro: keeps_intro)+

lemma causes_post: "causes 1 0 (send_delivery url secret d e payload)"
proof -
  have "spends posts 1 (http_post rq)" for rq
    unfolding http_post_def
    by (rule spends_after, rule spends_none, rule keeps_inputs, rule spends_prod, rule spends_effect) (auto simp: log_action_def)
  moreover have "spends requeues 0 (http_post rq)" for rq
    by (rule spends_none) (intro keeps_intro; simp)
  ultimately have "causes 1 0 (http_post rq)" for rq by (simp add: causes_def)
  then show ?thesis
    unfolding send_delivery_def by (intro causes_after [OF free_calls(2)] causes_then causes_intro)
qed

lemma causes_requeue: "causes 0 1 (schedule_retry d e p delay now)"
proof -
  have "spends requeues 1 (redis_unit (Zadd_retry d e p due) f)" for due f
    unfolding redis_unit_def redis_def by (rule spends_effect) (auto simp: log_action_def split: prod.splits)
  moreover have "spends posts 0 (redis_unit (Zadd_retry d e p due) f)" for due f
    by (rule spends_none) (intro keeps_intro; simp)
  ultimately have add: "causes 0 1 (redis_unit (Zadd_retry d e p due) f)" for due f by (simp add: causes_def)
  have now: "causes 0 0 (case now of None \<Rightarrow> time_time | Some t \<Rightarrow> return t)"
    by (intro causes_intro)
  show ?thesis
    unfolding schedule_retry_def seq_def Let_def
    by (intro causes_after [OF now] causes_after [OF free_calls(1)] causes_intro causes_then [OF add])
qed

lemma causes_settle: "causes 0 0 (settle_delivery delivery n result)"
  unfolding settle_delivery_def
  by (intro causes_intro causes_then [where i = 0 and j = 0])

lemma causes_record: "causes 0 1 (record_attempt delivery endpoint event n result)"
proof -
  have retry: "causes 0 1 (case delay of None \<Rightarrow> return () | Some d \<Rightarrow> bind (schedule_retry a b c d None) (\<lambda>_. return ()))" for delay a b c
    by (intro causes_intro causes_then [OF causes_requeue])
  have metric: "causes 0 0 (record_delivery t s x)" for t s x
    unfolding record_delivery_def by (intro causes_intro)
  show ?thesis
    unfolding record_attempt_def seq_def
    by (intro causes_after [OF free_calls(3)] causes_after [OF free_calls(7)] causes_after [OF causes_settle] causes_cases(3)
        causes_after [OF free_calls(8)] causes_then [OF retry] causes_then [OF metric] causes_return)
qed

lemma causes_process: "causes 1 1 (process_delivery d)"
proof -
  have "causes 1 1 (attempt_delivery delivery endpoint event)" for delivery endpoint event
    unfolding attempt_delivery_def seq_def Let_def
    by (intro causes_after [OF free_calls(14)] causes_after [OF free_calls(8)] causes_both [OF causes_post causes_record])
  then show ?thesis
    unfolding process_delivery_def
    by (intro causes_after [OF free_calls(9)] causes_intro causes_after [OF free_calls(10)] causes_after [OF free_calls(11)])
qed

lemma causes_gate_out: "causes i 1 (gate_out delivery endpoint reason delay)"
proof -
  have "causes 0 1 (gate_out delivery endpoint reason delay)"
    unfolding gate_out_def defer_delivery_def seq_def
    by (intro causes_after [OF free_calls(6)] causes_then [OF causes_then [OF causes_requeue]] causes_return)
  then show ?thesis unfolding causes_def by (auto elim: spends_mono)
qed

lemma causes_only_if: "causes 0 0 m \<Longrightarrow> causes 0 0 (only_if b m)"
  by (simp add: only_if_def causes_return)

lemma causes_body: "causes 1 1 (gated_body d delivery endpoint now)"
proof -
  have gates: "causes 0 0 (check_gates delivery endpoint now)"
    unfolding check_gates_def seq_def Let_def by (intro causes_intro causes_then [where i = 0 and j = 0])
  have var: "causes 0 0 (modify_local (\<lambda>l. l\<lparr>slot_var := x\<rparr>))" for x
    by (simp add: causes_def spends_def modify_local_def)
  have attempt: "causes 1 1 (attempt_and_record d delivery endpoint)"
    unfolding attempt_and_record_def seq_def
    by (intro causes_then [OF causes_process] causes_then [where i = 0 and j = 0] causes_intro causes_only_if)
  show ?thesis
    unfolding gated_body_def seq_def Let_def
    by (intro causes_after [OF gates] causes_cases causes_gate_out causes_after [OF free_calls(1)] causes_after [OF free_calls(12)]
        causes_after [OF free_calls(21)] causes_after [OF var] attempt)
qed

lemma causes_deliver: "causes 1 1 (deliver_with_gates d)"
proof -
  have release: "causes 0 0 (release_all endpoint tok)" for endpoint tok
    unfolding release_all_def seq_def by (intro causes_then [where i = 0 and j = 0] causes_intro)
  have clean: "causes 1 1 (try_finally m (release_all endpoint tok))" if "causes 1 1 m" for m :: "bool proc" and endpoint tok
    using that release [of endpoint tok] spends_try_finally [of _ 1 m 0] by (auto simp: causes_def)
  have var: "causes 0 0 (modify_local (\<lambda>l. l\<lparr>slot_var := x\<rparr>))" for x
    by (simp add: causes_def spends_def modify_local_def)
  have held: "causes 1 1 (with_slot_and_lock d delivery endpoint now tok)" for delivery endpoint now tok
    unfolding with_slot_and_lock_def seq_def by (intro causes_after [OF var] clean causes_body)
  show ?thesis
    unfolding deliver_with_gates_def seq_def
    by (intro causes_after [OF free_calls(2)] causes_after [OF free_calls(9)] causes_after [OF free_calls(10)]
        causes_after [OF free_calls(16)] causes_after [OF free_calls(18)] causes_after [OF free_calls(17)] causes_cases causes_return
        causes_gate_out held)
qed

lemma causes_handle: "causes 1 1 (handle_message key i flds)"
proof -
  have session: "causes 1 1 (with_session (deliver_with_gates d))" for d
    using causes_deliver [of d] by (auto simp: causes_def intro: spends_with_session)
  have tried: "causes 1 1 (try_except (bind (with_session (deliver_with_gates d)) (\<lambda>should_ack. return (Some should_ack))) (\<lambda>exc. return None))" for d
    by (intro causes_try causes_then [OF session] causes_return)
  show ?thesis
    unfolding handle_message_def
    by (intro causes_cases causes_raise causes_then [OF tried] causes_return causes_only_if free_calls)
qed

section \<open>Properties\<close>

text \<open>C14: Handling one stream entry, whatever its fields are and whatever fails or interferes, sends
  at most one HTTP request and puts at most one member into the retry queue.\<close>

theorem one_entry_one_request:
  "count_of posts (trace (w_loc (snd (handle_message key i flds w)))) \<le> count_of posts (trace (w_loc w)) + 1 \<and>
   count_of requeues (trace (w_loc (snd (handle_message key i flds w)))) \<le> count_of requeues (trace (w_loc w)) + 1"
  using causes_handle [of key i flds] unfolding causes_def by (metis prod.collapse spendsD)

end
