(* ===== verification/Agent_Llm.thy ===== *)
theory Agent_Llm
  imports Worker_Runs Agent_Prompts
begin

text \<open>
  The provider-neutral model client (\<open>relay/agent/llm.py\<close>): prices, the translation of the
  graph's messages to the provider's and of its answer back, and the retries of \<open>create\<close>.  The
  provider itself (the object \<open>get_llm\<close> wraps) is a parameter: a function from the number of the
  call, the tools offered and the messages to an answer or an exception.
\<close>

section \<open>Text\<close>

text \<open>Code points and their UTF-8 bytes, the form in which the model keeps the text columns.\<close>

definition utf8_point :: "nat \<Rightarrow> nat list" where
  "utf8_point c =
     (if c < 128 then [c]
      else if c < 2048 then [192 + c div 64, 128 + c mod 64]
      else if c < 65536 then [224 + c div 4096, 128 + c div 64 mod 64, 128 + c mod 64]
      else [240 + c div 262144, 128 + c div 4096 mod 64, 128 + c div 64 mod 64, 128 + c mod 64])"

definition utf8 :: "utext \<Rightarrow> string" where
  "utf8 s = map char_of (concat (map utf8_point s))"

definition continued :: "nat \<Rightarrow> nat list \<Rightarrow> nat" where
  "continued first bs = foldl (\<lambda>a b. a * 64 + b mod 64) first bs"

fun utf8_points :: "nat list \<Rightarrow> utext" where
  "utf8_points [] = []"
| "utf8_points (b # bs) =
     (if b < 128 then b # utf8_points bs
      else if b < 224 then continued (b mod 32) (take 1 bs) # utf8_points (drop 1 bs)
      else if b < 240 then continued (b mod 16) (take 2 bs) # utf8_points (drop 2 bs)
      else continued (b mod 8) (take 3 bs) # utf8_points (drop 3 bs))"

definition decode :: "string \<Rightarrow> utext" where
  "decode s = utf8_points (map of_char s)"

lemma utf8_points_point: "c < 1114112 \<Longrightarrow> utf8_points (utf8_point c @ bs) = c # utf8_points bs"
proof -
  assume c: "c < 1114112"
  have digits: "c div 64 * 64 + c mod 64 = c" "c div 4096 * 64 + c div 64 mod 64 = c div 64"
    "c div 262144 * 64 + c div 4096 mod 64 = c div 4096"
    using div_mult_mod_eq [of c 64] div_mult_mod_eq [of "c div 64" 64] div_mult_mod_eq [of "c div 4096" 64]
    by (simp_all add: div_mult2_eq [symmetric])
  have high: "c < 2048 \<Longrightarrow> c div 64 < 32" "c < 65536 \<Longrightarrow> c div 4096 < 16" "c div 262144 < 8"
    using c by (simp_all add: div_less_iff_less_mult)
  have drops: "drop 2 (x # y # bs) = bs" "drop 3 (x # y # z # bs) = bs" "take 2 (x # y # bs) = [x, y]"
    "take 3 (x # y # z # bs) = [x, y, z]" for x y z
    by (simp_all add: numeral_2_eq_2 numeral_3_eq_3)
  have top: "(192 + k) mod 32 = k" if "k < 32" for k :: nat
    using that mod_mult_self4 [of 32 6 k] by simp
  have top2: "(224 + k) mod 16 = k" if "k < 16" for k :: nat
    using that mod_mult_self4 [of 16 14 k] by simp
  have top3: "(240 + k) mod 8 = k" if "k < 8" for k :: nat
    using that mod_mult_self4 [of 8 30 k] by simp
  have tail: "(128 + k) mod 64 = k" if "k < 64" for k :: nat
    using that mod_mult_self4 [of 64 2 k] by simp
  show ?thesis
    using high by (auto simp: utf8_point_def continued_def drops top top2 top3 tail digits)
qed

lemma decode_utf8: "list_all (\<lambda>c. c < 1114112) s \<Longrightarrow> decode (utf8 s) = s"
proof -
  assume s: "list_all (\<lambda>c. c < 1114112) s"
  have bytes: "b < 256" if "c < 1114112" "b \<in> set (utf8_point c)" for b c
    using that by (auto simp: utf8_point_def div_less_iff_less_mult split: if_splits)
  have "map (of_char \<circ> char_of) bs = bs" if "\<forall>b \<in> set bs. b < 256" for bs :: "nat list"
    using that by (intro map_idI) (simp add: of_char_of)
  moreover have "\<forall>b \<in> set (concat (map utf8_point s)). b < 256"
    using s bytes by (fastforce simp: list_all_iff)
  ultimately have "decode (utf8 s) = utf8_points (concat (map utf8_point s))"
    by (simp add: decode_def utf8_def)
  also have "\<dots> = s" using s by (induction s) (simp_all add: utf8_points_point)
  finally show ?thesis .
qed

fun join_text :: "utext \<Rightarrow> utext list \<Rightarrow> utext" where
  "join_text sep [] = []"
| "join_text sep [x] = x"
| "join_text sep (x # y # xs) = x @ sep @ join_text sep (y # xs)"

text \<open>\<open>str.strip()\<close>.\<close>

definition is_space_point :: "nat \<Rightarrow> bool" where
  "is_space_point c \<longleftrightarrow> (9 \<le> c \<and> c \<le> 13) \<or> (28 \<le> c \<and> c \<le> 32) \<or> c \<in> {133, 160, 5760, 8232, 8233, 8239, 8287, 12288} \<or> (8192 \<le> c \<and> c \<le> 8202)"

definition strip_text :: "utext \<Rightarrow> utext" where
  "strip_text s = rev (dropWhile is_space_point (rev (dropWhile is_space_point s)))"

section \<open>Prices\<close>

definition RETRY_MAX :: nat where "RETRY_MAX = 2"
definition RETRY_BASE_DELAY_S :: rat where "RETRY_BASE_DELAY_S = 2"

definition PRICING :: "string \<Rightarrow> (rat \<times> rat) option" where
  "PRICING provider =
     (if provider = ''gemini'' then Some (3 / 10 / 1000000, 25 / 10 / 1000000)
      else if provider = ''anthropic'' then Some (3 / 1000000, 15 / 1000000)
      else None)"

definition estimate_cost :: "settings \<Rightarrow> int \<Rightarrow> int \<Rightarrow> rat" where
  "estimate_cost cfg input_tokens output_tokens =
     (case (case PRICING (llm_provider cfg) of None \<Rightarrow> the (PRICING ''gemini'') | Some p \<Rightarrow> p) of
        (inp, out) \<Rightarrow> of_int input_tokens * inp + of_int output_tokens * out)"

definition is_rate_limit :: "exn \<Rightarrow> bool" where
  "is_rate_limit exc = (case exc of
     Provider_error type_name msg \<Rightarrow>
       (let name = lower_text type_name; message = lower_text msg in
          mentions ''resourceexhausted'' name \<or> mentions ''ratelimit'' name \<or>
          list_ex (\<lambda>marker. mentions marker message) [''429'', ''resource has been exhausted'', ''quota'', ''rate limit''])
   | _ \<Rightarrow> False)"

section \<open>Messages\<close>

text \<open>A content block of an answer: text, or a request to use a tool, whose arguments are a
  dictionary.\<close>

datatype block = Text_block utext | Tool_use utext utext dict

record llm_response =
  content :: "block list"
  input_tokens :: int
  output_tokens :: int

text \<open>What a prompt is made of: literal text, and values rendered into it by \<open>str\<close>.\<close>

datatype piece = Lit string | Txt utext | Id uuid | Repr json

datatype message = User "piece list" | Tool_results "(utext \<times> json) list" | Assistant "block list"

text \<open>The provider's side.\<close>

record tool_call =
  call_id :: "utext option"
  call_name :: utext
  call_args :: dict

datatype ai_content = Whole utext | Parts "utext list"

record ai_message =
  ai_content :: ai_content
  ai_tool_calls :: "tool_call list"
  ai_usage :: "(int option \<times> int option) option"

datatype lc_message =
    System_message utext
  | Human_message "piece list"
  | Tool_message json utext
  | Replayed ai_message
  | Rebuilt utext "tool_call list"

type_synonym ai_cache = "utext \<Rightarrow> ai_message option"

type_synonym provider = "nat \<Rightarrow> json list \<Rightarrow> lc_message list \<Rightarrow> (utext \<times> utext) + ai_message"

definition tool_ids :: "block list \<Rightarrow> utext list" where
  "tool_ids bs = concat (map (\<lambda>b. case b of Tool_use i n a \<Rightarrow> [i] | _ \<Rightarrow> []) bs)"

fun first_cached :: "ai_cache \<Rightarrow> utext list \<Rightarrow> ai_message option" where
  "first_cached cache [] = None"
| "first_cached cache (i # is) = (case cache i of Some m \<Rightarrow> Some m | None \<Rightarrow> first_cached cache is)"

definition rebuild :: "block list \<Rightarrow> lc_message" where
  "rebuild bs = Rebuilt
     (join_text (ascii [CHR 0x0A]) (concat (map (\<lambda>b. case b of Text_block t \<Rightarrow> [t] | _ \<Rightarrow> []) bs)))
     (concat (map (\<lambda>b. case b of Tool_use i n a \<Rightarrow> [\<lparr>call_id = Some i, call_name = n, call_args = a\<rparr>] | _ \<Rightarrow> []) bs))"

fun to_lc_message :: "ai_cache \<Rightarrow> message \<Rightarrow> lc_message list" where
  "to_lc_message cache (User t) = [Human_message t]"
| "to_lc_message cache (Tool_results rs) = map (\<lambda>(i, r). Tool_message r i) rs"
| "to_lc_message cache (Assistant bs) =
     (case first_cached cache (tool_ids bs) of Some m \<Rightarrow> [Replayed m] | None \<Rightarrow> [rebuild bs])"

definition to_lc_messages :: "ai_cache \<Rightarrow> utext \<Rightarrow> message list \<Rightarrow> lc_message list" where
  "to_lc_messages cache system messages = System_message system # concat (map (to_lc_message cache) messages)"

text \<open>The tools in the form the provider takes them.\<close>

definition member :: "string \<Rightarrow> json \<Rightarrow> json" where
  "member k j = (case j of JObj kvs \<Rightarrow> (case map_of kvs (ascii k) of Some v \<Rightarrow> v | None \<Rightarrow> JNull) | _ \<Rightarrow> JNull)"

definition to_lc_tools :: "json list \<Rightarrow> json list" where
  "to_lc_tools tools = map (\<lambda>t. JObj (jdict
     [(''type'', JStr (ascii ''function'')),
      (''function'', JObj (jdict
        [(''name'', member ''name'' t), (''description'', member ''description'' t), (''parameters'', member ''input_schema'' t)]))])) tools"

section \<open>The answer\<close>

definition content_text :: "ai_content \<Rightarrow> utext" where
  "content_text c = (case c of Whole t \<Rightarrow> t | Parts ps \<Rightarrow> concat ps)"

text \<open>A call without an identifier is given one.\<close>

definition call_block :: "tool_call \<Rightarrow> block proc" where
  "call_block c = (case call_id c of
     Some (x # xs) \<Rightarrow> return (Tool_use (x # xs) (call_name c) (call_args c))
   | _ \<Rightarrow> bind uuid4 (\<lambda>u. return (Tool_use (ascii (''call_'' @ take 8 (uuid_hex u))) (call_name c) (call_args c))))"

definition from_lc_response :: "ai_message \<Rightarrow> llm_response proc" where
  "from_lc_response m =
     (let text = content_text (ai_content m);
          (inp, out) = (case ai_usage m of None \<Rightarrow> (None, None) | Some u \<Rightarrow> u) in
      bind (map_proc call_block (ai_tool_calls m)) (\<lambda>calls. return
        \<lparr>content = (if text = [] then [] else [Text_block text]) @ calls,
         input_tokens = (case inp of None \<Rightarrow> 0 | Some n \<Rightarrow> n), output_tokens = (case out of None \<Rightarrow> 0 | Some n \<Rightarrow> n)\<rparr>))"

section \<open>Calling the model\<close>

definition ainvoke :: "provider \<Rightarrow> json list \<Rightarrow> lc_message list \<Rightarrow> ai_message proc" where
  "ainvoke llm tools lc_messages =
     bind next_draw (\<lambda>n.
     bind (effect http_exn (\<lambda>w. (Inr (llm n tools lc_messages), log_action Llm_called w))) (\<lambda>r. case r of
       Inl (name, msg) \<Rightarrow> raise (Provider_error name msg)
     | Inr m \<Rightarrow> return m))"

definition cache_calls :: "ai_message \<Rightarrow> ai_cache \<Rightarrow> ai_cache" where
  "cache_calls m cache = foldl (\<lambda>c call. case call_id call of Some (x # xs) \<Rightarrow> c(x # xs \<mapsto> m) | _ \<Rightarrow> c) cache (ai_tool_calls m)"

text \<open>The \<open>for\<close> loop of \<open>create\<close>, by the retries left.\<close>

fun create_attempts :: "nat \<Rightarrow> rat \<Rightarrow> provider \<Rightarrow> json list \<Rightarrow> lc_message list \<Rightarrow> ai_message proc" where
  "create_attempts 0 delay llm tools lc_messages = ainvoke llm tools lc_messages"
| "create_attempts (Suc n) delay llm tools lc_messages =
     try_except (ainvoke llm tools lc_messages) (\<lambda>exc.
       if is_rate_limit exc then seq (sleep delay) (create_attempts n (delay * 2) llm tools lc_messages)
       else raise exc)"

definition create :: "provider \<Rightarrow> ai_cache \<Rightarrow> utext \<Rightarrow> message list \<Rightarrow> json list \<Rightarrow> (llm_response \<times> ai_cache) proc" where
  "create llm cache system messages tools =
     bind (create_attempts RETRY_MAX RETRY_BASE_DELAY_S llm (to_lc_tools tools) (to_lc_messages cache system messages)) (\<lambda>m.
     bind (from_lc_response m) (\<lambda>r. return (r, cache_calls m cache)))"

text \<open>\<open>get_llm\<close>: the provider's constructor may raise.\<close>

definition get_llm :: "(string \<Rightarrow> (utext \<times> utext) option) \<Rightarrow> unit proc" where
  "get_llm build =
     bind settings_of (\<lambda>cfg.
     if llm_provider cfg = ''gemini'' \<or> llm_provider cfg = ''anthropic''
     then (case build (llm_provider cfg) of None \<Rightarrow> return () | Some (name, msg) \<Rightarrow> raise (Provider_error name msg))
     else raise Value_error)"

end
