(* ===== verification/Datetime.thy ===== *)
theory Datetime
  imports Stdlib
begin

text \<open>
  The text of an instant in UTC (\<open>datetime.isoformat\<close>, \<open>strftime("%Y-%m-%d")\<close>), from seconds
  since 1970: the proleptic Gregorian date of a day number, and that distinct days have
  distinct texts, which the agent's daily budget relies on.
\<close>

section \<open>Dates\<close>

text \<open>
  Years are counted from March, in eras of 400 years: \<open>year_day\<close> splits the day of an era into the
  year of the era and the day of that year, by centuries, groups of four years and years.
\<close>

definition year_day :: "int \<Rightarrow> int \<times> int" where
  "year_day doe =
     (let c = min 3 (doe div 36524); r = doe - c * 36524; q = r div 1461; s = r mod 1461; y = min 3 (s div 365)
      in (100 * c + 4 * q + y, s - 365 * y))"

definition month_day :: "int \<Rightarrow> int \<times> int" where
  "month_day doy = (let mp = (5 * doy + 2) div 153 in
     (if mp < 10 then mp + 3 else mp - 9, doy - (153 * mp + 2) div 5 + 1))"

definition civil_of_days :: "int \<Rightarrow> int \<times> int \<times> int" where
  "civil_of_days days =
     (let z = days + 719468; (yoe, doy) = year_day (z mod 146097); (m, d) = month_day doy
      in (yoe + z div 146097 * 400 + (if m \<le> 2 then 1 else 0), m, d))"

definition days_of_civil :: "int \<times> int \<times> int \<Rightarrow> int" where
  "days_of_civil = (\<lambda>(year, m, d).
     let y = (if m \<le> 2 then year - 1 else year); yoe = y mod 400;
         doy = (153 * (if 2 < m then m - 3 else m + 9) + 2) div 5 + d - 1
     in y div 400 * 146097 + (yoe * 365 + yoe div 4 - yoe div 100 + doy) - 719468)"

lemma div_bounds: "0 < k \<Longrightarrow> k * (n div k) \<le> n \<and> n < k * (n div k) + k" for k n :: int
  by (metis add_le_cancel_left add.commute le_add_same_cancel1 minus_mod_eq_mult_div mult_div_mod_eq pos_mod_bound
      pos_mod_sign add_less_cancel_left)

lemma year_day_spec:
  assumes "0 \<le> doe" and "doe < 146097" and "year_day doe = (yoe, doy)"
  shows "0 \<le> yoe" and "yoe < 400" and "0 \<le> doy" and "doy < 366"
    and "doe = 365 * yoe + yoe div 4 - yoe div 100 + doy"
proof -
  define c where "c = min 3 (doe div 36524)"
  define r where "r = doe - c * 36524"
  define q where "q = r div 1461"
  define s where "s = r mod 1461"
  define y where "y = min 3 (s div 365)"
  have yoe: "yoe = 100 * c + 4 * q + y" and doy: "doy = s - 365 * y"
    using assms(3) by (auto simp: year_day_def Let_def c_def r_def q_def s_def y_def)
  have c: "0 \<le> c" "c \<le> 3" using assms(1) by (simp_all add: c_def pos_imp_zdiv_nonneg_iff)
  have r: "0 \<le> r" "r \<le> 36524"
    using div_bounds [of 36524 doe] assms(1,2) unfolding r_def c_def by (auto simp: min_def split: if_splits)
  have q: "0 \<le> q" "q < 25" and s: "0 \<le> s" "s < 1461" and rqs: "r = 1461 * q + s"
    using div_bounds [of 1461 r] r by (auto simp: q_def s_def)
  have y: "0 \<le> y" "y \<le> 3" using s by (simp_all add: y_def pos_imp_zdiv_nonneg_iff)
  show "0 \<le> yoe" "yoe < 400" using c q y by (simp_all add: yoe)
  show "0 \<le> doy" "doy < 366"
    using div_bounds [of 365 s] s unfolding doy y_def by (auto simp: min_def split: if_splits)
  have "yoe div 4 = 25 * c + q" using y by (simp add: yoe)
  moreover have "yoe div 100 = c" using q y by (simp add: yoe)
  ultimately show "doe = 365 * yoe + yoe div 4 - yoe div 100 + doy"
    using rqs by (simp add: yoe doy r_def)
qed

lemma month_day_spec:
  assumes "0 \<le> doy" and "doy < 366" and "month_day doy = (m, d)"
  shows "1 \<le> m \<and> m \<le> 12 \<and> 1 \<le> d \<and> d \<le> 31"
    and "(153 * (if 2 < m then m - 3 else m + 9) + 2) div 5 + d - 1 = doy"
proof -
  define mp where "mp = (5 * doy + 2) div 153"
  have mp: "0 \<le> mp" "mp < 12" and lo: "153 * mp \<le> 5 * doy + 2" and hi: "5 * doy + 2 < 153 * mp + 153"
    using assms(1,2) div_bounds [of 153 "5 * doy + 2"] by (auto simp: mp_def)
  have m: "m = (if mp < 10 then mp + 3 else mp - 9)" and d: "d = doy - (153 * mp + 2) div 5 + 1"
    using assms(3) by (auto simp: month_day_def Let_def mp_def)
  have "5 * ((153 * mp + 2) div 5) \<le> 153 * mp + 2" "153 * mp + 2 < 5 * ((153 * mp + 2) div 5) + 5"
    using div_bounds [of 5 "153 * mp + 2"] by auto
  then have "1 \<le> d \<and> d \<le> 31" unfolding d using lo hi by linarith
  then show "1 \<le> m \<and> m \<le> 12 \<and> 1 \<le> d \<and> d \<le> 31" using mp by (simp add: m)
  have "(if 2 < m then m - 3 else m + 9) = mp" using mp by (simp add: m)
  then show "(153 * (if 2 < m then m - 3 else m + 9) + 2) div 5 + d - 1 = doy" by (simp add: d)
qed

lemma days_of_civil_of_days: "days_of_civil (civil_of_days days) = days"
proof -
  define z where "z = days + 719468"
  define era where "era = z div 146097"
  obtain yoe doy where yd: "year_day (z mod 146097) = (yoe, doy)" by (cases "year_day (z mod 146097)")
  note spec = year_day_spec [OF _ _ yd, simplified]
  obtain m d where md: "month_day doy = (m, d)" by (cases "month_day doy")
  have "(if m \<le> 2 then (yoe + era * 400 + (if m \<le> 2 then 1 else 0)) - 1 else yoe + era * 400 + (if m \<le> 2 then 1 else 0))
      = yoe + era * 400" by simp
  moreover have "civil_of_days days = (yoe + era * 400 + (if m \<le> 2 then 1 else 0), m, d)"
    using yd md by (simp add: civil_of_days_def z_def era_def Let_def)
  moreover have "(yoe + era * 400) mod 400 = yoe" "(yoe + era * 400) div 400 = era"
    using spec(1,2) by simp_all
  ultimately have "days_of_civil (civil_of_days days) = era * 146097 + (yoe * 365 + yoe div 4 - yoe div 100 + doy) - 719468"
    using month_day_spec(2) [OF spec(3,4) md] by (simp only: days_of_civil_def prod.case Let_def)
  moreover have "z = era * 146097 + z mod 146097" by (simp add: era_def)
  ultimately show ?thesis using spec(5) unfolding z_def by linarith
qed

lemma civil_of_days_inject: "civil_of_days m = civil_of_days n \<longleftrightarrow> m = n"
  by (metis days_of_civil_of_days)

lemma month_day_range:
  assumes "civil_of_days days = (y, m, d)"
  shows "1 \<le> m \<and> m \<le> 12 \<and> 1 \<le> d \<and> d \<le> 31"
proof -
  obtain yoe doy where yd: "year_day ((days + 719468) mod 146097) = (yoe, doy)"
    by (cases "year_day ((days + 719468) mod 146097)")
  note spec = year_day_spec [OF _ _ yd, simplified]
  have "month_day doy = (m, d)"
    using assms yd by (cases "month_day doy") (simp add: civil_of_days_def Let_def)
  then show ?thesis by (rule month_day_spec(1) [OF spec(3,4)])
qed

section \<open>Texts\<close>

definition pad :: "nat \<Rightarrow> int \<Rightarrow> string" where
  "pad k i = map digit_char (digits_base 10 k (nat i))"

definition day_number :: "rat \<Rightarrow> int" where
  "day_number t = \<lfloor>t / 86400\<rfloor>"

text \<open>\<open>strftime("%Y-%m-%d")\<close>, from the year 1.\<close>

definition day_text :: "int \<Rightarrow> string" where
  "day_text days = (case civil_of_days days of (y, m, d) \<Rightarrow> dec_nat (nat y) @ ''-'' @ pad 2 m @ ''-'' @ pad 2 d)"

definition isoformat :: "rat \<Rightarrow> string" where
  "isoformat t =
     (let us = \<lfloor>t * 1000000\<rfloor>; s = us div 1000000; frac = us mod 1000000; sod = s mod 86400
      in case civil_of_days (s div 86400) of (y, m, d) \<Rightarrow>
           pad 4 y @ ''-'' @ pad 2 m @ ''-'' @ pad 2 d @ ''T'' @
           pad 2 (sod div 3600) @ '':'' @ pad 2 (sod div 60 mod 60) @ '':'' @ pad 2 (sod mod 60) @
           (if frac = 0 then '''' else ''.'' @ pad 6 frac) @ ''+00:00'')"

lemma length_pad [simp]: "length (pad k i) = k"
  by (simp add: pad_def)

lemma digit_texts_inject:
  assumes "map digit_char xs = map digit_char ys" and "\<forall>x \<in> set xs \<union> set ys. x < 16"
  shows "xs = ys"
  using assms
proof (induction xs arbitrary: ys)
  case (Cons x xs)
  then obtain y ys' where ys: "ys = y # ys'" by (cases ys) auto
  with Cons.prems have "x < 16" "y < 16" "digit_char x = digit_char y" by auto
  then have "x = y" by (metis hex_val_digit_char option.inject)
  then show ?case using Cons ys by auto
qed simp

lemma pad_inject:
  assumes "pad k i = pad k j" and "0 \<le> i" "i < 10 ^ k" "0 \<le> j" "j < 10 ^ k"
  shows "i = j"
proof -
  have "digits_base 10 k (nat i) = digits_base 10 k (nat j)"
    using assms(1) unfolding pad_def by (rule digit_texts_inject) (auto dest: digits_base_less [rotated])
  then have "nat i mod 10 ^ k = nat j mod 10 ^ k" by (metis horner_digits_base zero_less_numeral)
  moreover have "nat i < 10 ^ k" "nat j < 10 ^ k"
    using assms(3,5) by (simp_all add: nat_less_iff assms(2,4))
  ultimately show ?thesis using assms(2,4) by simp
qed

lemma day_text_inject:
  assumes "day_text m = day_text n" and "0 \<le> fst (civil_of_days m)" and "0 \<le> fst (civil_of_days n)"
  shows "m = n"
proof -
  obtain y mo d y' mo' d' where c: "civil_of_days m = (y, mo, d)" "civil_of_days n = (y', mo', d')"
    using prod_cases3 by metis
  have "length (dec_nat (nat y)) = length (dec_nat (nat y'))"
    using arg_cong [OF assms(1), of length] by (simp add: day_text_def c)
  then have "dec_nat (nat y) = dec_nat (nat y')" "pad 2 mo = pad 2 mo'" "pad 2 d = pad 2 d'"
    using assms(1) by (auto simp: day_text_def c)
  moreover note month_day_range [OF c(1)] month_day_range [OF c(2)]
  ultimately have "nat y = nat y'" "mo = mo'" "d = d'"
    using pad_inject [of 2] by auto
  then have "civil_of_days m = civil_of_days n" using assms(2,3) c by simp
  then show ?thesis by (simp add: civil_of_days_inject)
qed

lemma civil_of_days_examples:
  "civil_of_days 0 = (1970, 1, 1)" "civil_of_days 11016 = (2000, 2, 29)" "civil_of_days 19675 = (2023, 11, 14)"
  by code_simp+

end
