(* ===== verification/Agent_Tools.thy ===== *)
theory Agent_Tools
  imports Agent_Llm Api_Manage Datetime
begin

text \<open>
  The agent's tools (\<open>relay/agent/tools.py\<close>): the read-only queries, the probe, the DNS and TLS
  check and the two requests for approval, with the dispatcher that turns a failing tool into
  an answer.  What is not the program's is a parameter, \<open>outside\<close>: the resolver, the TLS
  handshake, the provider, and the texts of exceptions and floats.
\<close>

section \<open>The outside\<close>

datatype dns_reply = Addresses "utext list" | Gai_error utext | Lookup_raises exn

datatype tls_reply = Peer_cert rat "utext option" | Verification_failed utext | Handshake_failed utext

record outside =
  chat_model :: provider
  construct_model :: "string \<Rightarrow> (utext \<times> utext) option"
  exn_text :: "exn \<Rightarrow> utext"
  float_repr :: "rat \<Rightarrow> string"
  float_canon :: "string \<Rightarrow> string"
  cjson_text :: "dict \<Rightarrow> utext"
  resolve_host :: "nat \<Rightarrow> string \<Rightarrow> int \<Rightarrow> dns_reply"
  tls_handshake :: "nat \<Rightarrow> string \<Rightarrow> int \<Rightarrow> tls_reply"

section \<open>Values\<close>

definition js :: "string \<Rightarrow> json" where "js s = JStr (decode s)"

definition jopt :: "('a \<Rightarrow> json) \<Rightarrow> 'a option \<Rightarrow> json" where
  "jopt f x = (case x of None \<Rightarrow> JNull | Some y \<Rightarrow> f y)"

definition dict_get :: "string \<Rightarrow> json \<Rightarrow> dict \<Rightarrow> json" where
  "dict_get k dflt kvs = (case map_of kvs (ascii k) of None \<Rightarrow> dflt | Some v \<Rightarrow> v)"

text \<open>\<open>counts[k] = counts.get(k, 0) + 1\<close>.\<close>

fun count_up :: "utext \<Rightarrow> (utext \<times> int) list \<Rightarrow> (utext \<times> int) list" where
  "count_up k [] = [(k, 1)]"
| "count_up k ((k', n) # cs) = (if k' = k then (k, n + 1) # cs else (k', n) # count_up k cs)"

definition counts :: "utext list \<Rightarrow> json" where
  "counts keys = JObj (map (\<lambda>(k, n). (k, JInt n)) (foldl (\<lambda>cs k. count_up k cs) [] keys))"

text \<open>\<open>int(x)\<close>; the digits of other scripts that \<open>int\<close> also reads are refused here.\<close>

definition read_int :: "string \<Rightarrow> int option" where
  "read_int s = (let (neg, ds) = (case strip s of
        c # cs \<Rightarrow> if c = CHR ''-'' then (True, cs) else if c = CHR ''+'' then (False, cs) else (False, c # cs)
      | [] \<Rightarrow> (False, []));
      (digits, rest) = digit_run ds
    in if digits = [] \<or> rest \<noteq> [] then None
       else Some (if neg then - int (horner 10 digits) else int (horner 10 digits)))"

definition py_int :: "json \<Rightarrow> int proc" where
  "py_int j = (case j of
     JInt i \<Rightarrow> return i
   | JBool b \<Rightarrow> return (if b then 1 else 0)
   | JStr s \<Rightarrow> (case if list_all (\<lambda>c. c < 128) s then read_int (map char_of s) else None of
        None \<Rightarrow> raise Value_error | Some i \<Rightarrow> return i)
   | JFloat r \<Rightarrow> (case read_float r of
        Some (Fin x) \<Rightarrow> return (int_of_float x) | Some PosInf \<Rightarrow> raise Overflow_error | Some NegInf \<Rightarrow> raise Overflow_error
      | _ \<Rightarrow> raise Value_error)
   | _ \<Rightarrow> raise Type_error)"

text \<open>\<open>round(x, k)\<close>: to the nearest, ties to even.\<close>

definition round_to :: "nat \<Rightarrow> rat \<Rightarrow> rat" where
  "round_to k x = (let y = x * 10 ^ k; f = \<lfloor>y\<rfloor>; d = y - of_int f
     in of_int (if d < 1 / 2 then f else if d > 1 / 2 then f + 1 else if even f then f else f + 1) / 10 ^ k)"

section \<open>Names\<close>

definition TOOL_SCHEMAS :: "json list" where
  "TOOL_SCHEMAS =
    [JObj (jdict
       [(''name'', JStr (ascii ''query_attempts'')),
        (''description'', JStr (ascii ''Aggregated delivery-attempt history for the endpoint: counts by error class and HTTP status, '' @
                ascii ''latency percentiles, when failures started, and sample response snippets. Call this FIRST on every '' @
                ascii ''investigation '' @ [8212] @
                ascii '' it is the cheapest way to see the failure shape before probing anything.'')),
        (''input_schema'', JObj (jdict
            [(''type'', JStr (ascii ''object'')),
             (''properties'', JObj (jdict
                 [(''window_minutes'', JObj (jdict
                      [(''type'', JStr (ascii ''integer'')),
                       (''description'', JStr (ascii ''How far back to aggregate. Default 60.''))]))])),
             (''required'', JArr [])]))]),
     JObj (jdict
       [(''name'', JStr (ascii ''get_endpoint_config'')),
        (''description'', JStr (ascii ''The endpoint's URL, ordering mode, status, and current circuit-breaker state. Call this when you '' @
                ascii ''need to know whether the endpoint is paused/disabled or the breaker is open, or to see the URL '' @
                ascii ''before checking DNS/TLS.'')),
        (''input_schema'', JObj (jdict
            [(''type'', JStr (ascii ''object'')),
             (''properties'', JObj []),
             (''required'', JArr [])]))]),
     JObj (jdict
       [(''name'', JStr (ascii ''probe_endpoint'')),
        (''description'', JStr (ascii ''Send a real signed test delivery to the endpoint right now and report status, latency, and error. '' @
                ascii ''Marked with '' @ [34] @ ascii ''relay_probe'' @ [34] @
                ascii '': true so the receiver can ignore it. Call this to VERIFY a hypothesis against live behavior '' @
                [8212] @
                ascii '' a diagnosis that was never tested against a probe or a DNS/TLS check is downgraded to low '' @
                ascii ''confidence.'')),
        (''input_schema'', JObj (jdict
            [(''type'', JStr (ascii ''object'')),
             (''properties'', JObj []),
             (''required'', JArr [])]))]),
     JObj (jdict
       [(''name'', JStr (ascii ''check_dns_tls'')),
        (''description'', JStr (ascii ''Resolve the endpoint's hostname and inspect its TLS certificate: expiry, hostname match, chain '' @
                ascii ''validity. Call this when attempts show dns or tls error classes, or when connections fail before '' @
                ascii ''any HTTP status is returned.'')),
        (''input_schema'', JObj (jdict
            [(''type'', JStr (ascii ''object'')),
             (''properties'', JObj []),
             (''required'', JArr [])]))]),
     JObj (jdict
       [(''name'', JStr (ascii ''pause_endpoint'')),
        (''description'', JStr (ascii ''MUTATING '' @ [8212] @
                ascii '' REQUIRES HUMAN APPROVAL. Does not pause anything. Records a pending request for an operator to '' @
                ascii ''approve. Call this only when the endpoint is persistently broken and continued delivery attempts '' @
                ascii ''are pure waste.'')),
        (''input_schema'', JObj (jdict
            [(''type'', JStr (ascii ''object'')),
             (''properties'', JObj (jdict
                 [(''reason'', JObj (jdict
                      [(''type'', JStr (ascii ''string'')),
                       (''description'', JStr (ascii ''Why pausing is warranted, for the operator reviewing it.''))]))])),
             (''required'', JArr [JStr (ascii ''reason'')])]))]),
     JObj (jdict
       [(''name'', JStr (ascii ''replay_dlq'')),
        (''description'', JStr (ascii ''MUTATING '' @ [8212] @
                ascii '' REQUIRES HUMAN APPROVAL. Does not replay anything. Records a pending request for an operator to '' @
                ascii ''approve. Call this only when the underlying fault is resolved and dead deliveries should be retried.'')),
        (''input_schema'', JObj (jdict
            [(''type'', JStr (ascii ''object'')),
             (''properties'', JObj (jdict
                 [(''reason'', JObj (jdict
                      [(''type'', JStr (ascii ''string'')),
                       (''description'', JStr (ascii ''Why replaying is safe now, for the operator reviewing it.''))]))])),
             (''required'', JArr [JStr (ascii ''reason'')])]))])]"

definition MUTATING_TOOLS :: "string list" where "MUTATING_TOOLS = [''pause_endpoint'', ''replay_dlq'']"

definition VERIFICATION_TOOLS :: "string list" where "VERIFICATION_TOOLS = [''probe_endpoint'', ''check_dns_tls'']"

definition SNIPPET_SAMPLES :: nat where "SNIPPET_SAMPLES = 3"

definition error_word :: "error_class \<Rightarrow> string" where
  "error_word e = (case e of E_timeout \<Rightarrow> ''timeout'' | E_tls \<Rightarrow> ''tls'' | E_dns \<Rightarrow> ''dns'' | E_conn_refused \<Rightarrow> ''conn_refused''
     | E_http_5xx \<Rightarrow> ''http_5xx'' | E_http_4xx \<Rightarrow> ''http_4xx'')"

definition ordering_word :: "ordering_mode \<Rightarrow> string" where
  "ordering_word m = (case m of Ordered \<Rightarrow> ''ordered'' | Unordered \<Rightarrow> ''unordered'')"

definition endpoint_word :: "endpoint_status \<Rightarrow> string" where
  "endpoint_word s = (case s of Active \<Rightarrow> ''active'' | Paused \<Rightarrow> ''paused'' | Disabled \<Rightarrow> ''disabled'')"

definition breaker_word :: "breaker_state \<Rightarrow> string" where
  "breaker_word s = (case s of Closed \<Rightarrow> ''closed'' | Open \<Rightarrow> ''open'' | Half_open \<Rightarrow> ''half_open'')"

section \<open>The attempt history\<close>

text \<open>The first instant of the window; a date outside the years 1 to 9999 overflows.\<close>

definition window_start :: "rat \<Rightarrow> int \<Rightarrow> rat proc" where
  "window_start now window_minutes =
     (let since = now - of_int window_minutes * 60
      in if since < -62135596800 \<or> 253402300800 \<le> since then raise Overflow_error else return since)"

definition attempts_since :: "uuid \<Rightarrow> rat \<Rightarrow> db \<Rightarrow> attempt list" where
  "attempts_since endpoint_id since d = sort_key a_started_at
     (filter (\<lambda>a. since \<le> a_started_at a \<and>
        (\<exists>dl \<in> set (deliveries d). d_id dl = a_delivery_id a \<and> d_endpoint_id dl = endpoint_id)) (attempts d))"

definition error_key :: "attempt \<Rightarrow> utext" where
  "error_key a = (case a_error_class a of None \<Rightarrow> ascii ''success'' | Some e \<Rightarrow> ascii (error_word e))"

definition status_key :: "attempt \<Rightarrow> utext" where
  "status_key a = (case a_http_status a of None \<Rightarrow> ascii ''none''
     | Some n \<Rightarrow> if n = 0 then ascii ''none'' else ascii (str_int n))"

definition snippets :: "attempt list \<Rightarrow> utext list" where
  "snippets rows = take SNIPPET_SAMPLES (concat (map (\<lambda>a. case (a_error_class a, a_response_snippet a) of
     (Some e, Some (c # cs)) \<Rightarrow> [take 200 (c # cs)] | _ \<Rightarrow> []) rows))"

text \<open>\<open>round(statistics.mean(ordered), 1)\<close> of integers: an integer when the mean is one.\<close>

definition mean_json :: "outside \<Rightarrow> int list \<Rightarrow> json" where
  "mean_json ext ns =
     (if sum_list ns mod int (length ns) = 0 then JInt (sum_list ns div int (length ns))
      else JFloat (float_repr ext (round_to 1 (of_int (sum_list ns) / of_nat (length ns)))))"

definition percentiles :: "outside \<Rightarrow> int list \<Rightarrow> json" where
  "percentiles ext latencies =
     (let ordered = sort latencies; n = length ordered in JObj (jdict
       [(''p50'', JInt (ordered ! (n div 2))),
        (''p95'', JInt (ordered ! min (n - 1) (n * 95 div 100))),
        (''max'', JInt (last ordered)),
        (''mean'', mean_json ext ordered)]))"

definition attempts_summary :: "outside \<Rightarrow> attempt list \<Rightarrow> dict" where
  "attempts_summary ext rows =
     (if rows = [] then jdict [(''total_attempts'', JInt 0), (''note'', js ''no attempts recorded in this window'')]
      else let failures = filter (\<lambda>a. a_error_class a \<noteq> None) rows;
               failed_at = (\<lambda>pick. if failures = [] then JNull else js (isoformat (a_started_at (pick failures))))
           in jdict
        [(''total_attempts'', JInt (int (length rows))),
         (''failed_attempts'', JInt (int (length failures))),
         (''failure_rate'', JFloat (float_repr ext (round_to 3 (of_nat (length failures) / of_nat (length rows))))),
         (''counts_by_error_class'', counts (map error_key rows)),
         (''counts_by_http_status'', counts (map status_key rows)),
         (''latency_ms'', percentiles ext (map a_latency_ms rows)),
         (''first_failed_at'', failed_at hd),
         (''last_failed_at'', failed_at last),
         (''sample_response_snippets'', JArr (map JStr (snippets rows)))])"

definition query_attempts :: "outside \<Rightarrow> uuid \<Rightarrow> int \<Rightarrow> dict proc" where
  "query_attempts ext endpoint_id window_minutes =
     bind time_time (\<lambda>now.
     bind (window_start now window_minutes) (\<lambda>since.
     bind (in_session (query_rows (attempts_since endpoint_id since))) (\<lambda>rows.
     return (attempts_summary ext rows))))"

section \<open>The endpoint\<close>

definition endpoint_row :: "uuid \<Rightarrow> endpoint proc" where
  "endpoint_row endpoint_id =
     bind (in_session (select_endpoint endpoint_id)) (\<lambda>row. case row of None \<Rightarrow> raise No_result | Some e \<Rightarrow> return e)"

definition breaker_json :: "outside \<Rightarrow> breaker_view \<Rightarrow> json" where
  "breaker_json ext v = JObj (jdict
     [(''state'', js (breaker_word (bv_state v))),
      (''consecutive'', JInt (bv_consecutive v)),
      (''opened_at'', jopt (\<lambda>t. JFloat (float_repr ext t)) (bv_opened_at v)),
      (''last_probe_at'', jopt (\<lambda>t. JFloat (float_repr ext t)) (bv_last_probe_at v))])"

definition get_endpoint_config :: "outside \<Rightarrow> uuid \<Rightarrow> dict proc" where
  "get_endpoint_config ext endpoint_id =
     bind (endpoint_row endpoint_id) (\<lambda>endpoint.
     bind (in_session (load_deliveries (\<lambda>d. filter (\<lambda>dl. d_endpoint_id dl = endpoint_id \<and> d_status dl = Dead) (deliveries d)))) (\<lambda>dead.
     bind (get_breaker_state endpoint_id) (\<lambda>breaker.
     return (jdict
       [(''url'', js (ep_url endpoint)),
        (''ordering'', js (ordering_word (ep_ordering endpoint))),
        (''status'', js (endpoint_word (ep_status endpoint))),
        (''event_types'', JArr (map js (ep_event_types endpoint))),
        (''created_at'', js (isoformat (ep_created_at endpoint))),
        (''breaker'', breaker_json ext breaker),
        (''dead_letter_count'', JInt (int (length dead)))]))))"

section \<open>The probe\<close>

definition probe_payload :: "rat \<Rightarrow> json" where
  "probe_payload now = JObj (jdict
     [(''relay_probe'', JBool True),
      (''note'', js ''synthetic diagnostic delivery from Relay; safe to ignore''),
      (''at'', js (isoformat now))])"

definition probe_endpoint :: "uuid \<Rightarrow> dict proc" where
  "probe_endpoint endpoint_id =
     bind (endpoint_row endpoint_id) (\<lambda>endpoint.
     bind time_time (\<lambda>now.
     bind uuid4 (\<lambda>delivery_id.
     bind uuid4 (\<lambda>event_id.
     bind (send_delivery (ep_url endpoint) (ep_signing_secret endpoint) delivery_id event_id (probe_payload now)) (\<lambda>result.
     return (jdict
       [(''probed_url'', js (ep_url endpoint)),
        (''http_status'', jopt JInt (r_http_status result)),
        (''latency_ms'', JInt (r_latency_ms result)),
        (''error_class'', jopt (\<lambda>e. js (error_word e)) (r_error_class result)),
        (''succeeded'', JBool (succeeded result)),
        (''response_snippet'', JStr (case r_response_snippet result of None \<Rightarrow> [] | Some t \<Rightarrow> take 300 t))]))))))"

section \<open>DNS and TLS\<close>

text \<open>
  \<open>urlparse\<close> on a stored URL, which matches \<open>^https?://\<close>: scheme, host and port.  What Python
  checks beyond the brackets of an IPv6 host (its digits, NFKC forms) is not modelled.
\<close>

definition before :: "char \<Rightarrow> string \<Rightarrow> string" where "before sep s = takeWhile (\<lambda>c. c \<noteq> sep) s"
definition after :: "char \<Rightarrow> string \<Rightarrow> string" where "after sep s = drop 1 (dropWhile (\<lambda>c. c \<noteq> sep) s)"

definition url_scheme :: "string \<Rightarrow> string" where
  "url_scheme u = (if starts_with ''https://'' u then ''https'' else ''http'')"

definition url_netloc :: "string \<Rightarrow> string" where
  "url_netloc u = takeWhile (\<lambda>c. c \<notin> {CHR ''/'', CHR ''?'', CHR ''#''})
     (drop (length (url_scheme u) + 3) (filter (\<lambda>c. c \<notin> {CHR 0x09, CHR 0x0A, CHR 0x0D}) u))"

definition host_and_port :: "string \<Rightarrow> string \<times> string" where
  "host_and_port netloc =
     (let hostinfo = rev (before (CHR ''@'') (rev netloc)) in
      if CHR ''['' \<in> set hostinfo
      then let bracketed = after (CHR ''['') hostinfo in (before (CHR '']'') bracketed, after (CHR '':'') (after (CHR '']'') bracketed))
      else (before (CHR '':'') hostinfo, after (CHR '':'') hostinfo))"

definition url_host :: "string \<Rightarrow> string" where
  "url_host netloc = (let host = fst (host_and_port netloc) in
     map to_lower (before (CHR ''%'') host) @ drop (length (before (CHR ''%'') host)) host)"

definition url_port :: "string \<Rightarrow> int option proc" where
  "url_port netloc = (case snd (host_and_port netloc) of
     [] \<Rightarrow> return None
   | c # cs \<Rightarrow> if list_all is_digit (c # cs) \<and> dec_value (c # cs) \<le> 65535 then return (Some (int (dec_value (c # cs))))
       else raise Value_error)"

definition parse_url :: "string \<Rightarrow> (string \<times> string \<times> int) proc" where
  "parse_url u =
     (let netloc = url_netloc u in
      if (CHR ''['' \<in> set netloc) \<noteq> (CHR '']'' \<in> set netloc) then raise Value_error
      else bind (url_port netloc) (\<lambda>port.
        return (url_scheme u, url_host netloc,
          (case port of None \<Rightarrow> 0 | Some n \<Rightarrow> n))))"

definition tls_json :: "tls_reply \<Rightarrow> rat \<Rightarrow> json" where
  "tls_json r now = (case r of
     Peer_cert not_after issuer \<Rightarrow> JObj (jdict
       [(''valid'', JBool True), (''hostname_matches'', JBool True), (''expires_at'', js (isoformat not_after)),
        (''days_until_expiry'', JInt \<lfloor>(not_after - now) / 86400\<rfloor>), (''issuer'', jopt JStr issuer)])
   | Verification_failed msg \<Rightarrow> JObj (jdict [(''valid'', JBool False), (''verification_error'', JStr msg)])
   | Handshake_failed msg \<Rightarrow> JObj (jdict [(''valid'', JBool False), (''error'', JStr msg)]))"

definition check_dns_tls :: "outside \<Rightarrow> uuid \<Rightarrow> dict proc" where
  "check_dns_tls ext endpoint_id =
     bind (endpoint_row endpoint_id) (\<lambda>endpoint.
     bind (parse_url (ep_url endpoint)) (\<lambda>(scheme, host, parsed_port).
     let port = (if parsed_port \<noteq> 0 then parsed_port else if scheme = ''https'' then 443 else 80);
         out = jdict [(''host'', js host), (''port'', JInt port), (''scheme'', js scheme)] in
     bind next_draw (\<lambda>n.
     seq (modify_local (logged (Dns_tls_checked host)))
     (case resolve_host ext n host port of
        Lookup_raises e \<Rightarrow> raise e
      | Gai_error msg \<Rightarrow> return (out @ jdict [(''dns_resolved'', JBool False), (''dns_error'', JStr msg)])
      | Addresses addresses \<Rightarrow>
          let out = out @ jdict [(''dns_resolved'', JBool True), (''addresses'', JArr (map JStr (sort (remdups addresses))))] in
          if scheme \<noteq> ''https'' then return (out @ jdict [(''tls'', js ''not applicable (plain http)'')])
          else bind time_time (\<lambda>now. return (out @ jdict [(''tls'', tls_json (tls_handshake ext n host port) now)]))))))"

section \<open>Requests for approval\<close>

text \<open>What a text column takes: text without NUL and lone surrogates; \<open>None\<close> violates \<open>NOT NULL\<close>.\<close>

definition text_column :: "json \<Rightarrow> exn + string" where
  "text_column j = (case j of
     JStr s \<Rightarrow> if storable s then Inr (utf8 s) else Inl Sql_error
   | JNull \<Rightarrow> Inl Integrity_error
   | _ \<Rightarrow> Inl Sql_error)"

definition action_kind :: "string \<Rightarrow> agent_action_kind" where
  "action_kind name = (if name = ''pause_endpoint'' then Pause_endpoint else Replay_dlq)"

definition request_mutation :: "uuid \<Rightarrow> uuid \<Rightarrow> string \<Rightarrow> json \<Rightarrow> dict proc" where
  "request_mutation endpoint_id diagnosis_id name reason =
     bind uuid4 (\<lambda>action_id.
     seq (case text_column reason of
            Inl e \<Rightarrow> in_session (refused_commit e)
          | Inr reason \<Rightarrow> in_session (bind db_now (\<lambda>now. seq (add_pending [Ins_action
              \<lparr>ac_id = action_id, ac_diagnosis_id = diagnosis_id, ac_endpoint_id = endpoint_id, ac_action = action_kind name,
               ac_reason = reason, ac_status = APending, ac_decided_at = None, ac_created_at = now\<rparr>]) commit)))
         (return (jdict
           [(''status'', js ''pending_human_approval''),
            (''action_id'', js (uuid_str action_id)),
            (''action'', js name),
            (''note'', js ''Recorded for operator review. Nothing has been changed. Do not assume this action has taken effect.'')])))"

section \<open>Dispatch\<close>

definition named :: "utext \<Rightarrow> string list \<Rightarrow> bool" where
  "named name names \<longleftrightarrow> name \<in> ascii ` set names"

definition run_tool :: "outside \<Rightarrow> utext \<Rightarrow> dict \<Rightarrow> uuid \<Rightarrow> uuid \<Rightarrow> dict proc" where
  "run_tool ext name tool_input endpoint_id diagnosis_id =
     (if name = ascii ''query_attempts'' then
        bind (py_int (dict_get ''window_minutes'' (JInt 60) tool_input)) (query_attempts ext endpoint_id)
      else if name = ascii ''get_endpoint_config'' then get_endpoint_config ext endpoint_id
      else if name = ascii ''probe_endpoint'' then probe_endpoint endpoint_id
      else if name = ascii ''check_dns_tls'' then check_dns_tls ext endpoint_id
      else if named name MUTATING_TOOLS then
        request_mutation endpoint_id diagnosis_id (map char_of name) (dict_get ''reason'' (JStr []) tool_input)
      else return (jdict [(''error'', JStr (ascii ''unknown tool: '' @ name))]))"

definition dispatch :: "outside \<Rightarrow> utext \<Rightarrow> dict \<Rightarrow> uuid \<Rightarrow> uuid \<Rightarrow> dict proc" where
  "dispatch ext name tool_input endpoint_id diagnosis_id =
     try_except (run_tool ext name tool_input endpoint_id diagnosis_id)
       (\<lambda>exc. return (jdict [(''error'', JStr (exn_text ext exc))]))"

text \<open>A tool never ends the run: only cancellation and death escape.\<close>

lemma dispatch_escapes: "safe (dispatch ext name inp p g) (\<lambda>_ _. True) (\<lambda>e _. \<not> is_exception e) l"
  unfolding dispatch_def
  by (rule safe_try_except, rule safe_mono [OF safe_trivial]) (simp_all add: safe_return)

end
