(* ===== verification/Agent_Graph.thy ===== *)
theory Agent_Graph
  imports Agent_Tools
begin

text \<open>
  The diagnosis workflow (\<open>relay/agent/graph.py\<close>): triage, investigate, hypothesize, verify,
  report, the tool-use loop two of them share, and the run around them that writes a stub
  diagnosis first and the result last.
\<close>

section \<open>The state of a run\<close>

definition MAX_INVESTIGATE_TOOL_CALLS :: nat where "MAX_INVESTIGATE_TOOL_CALLS = 6"
definition MAX_VERIFY_TOOL_CALLS :: nat where "MAX_VERIFY_TOOL_CALLS = 2"
definition MAX_COST_USD_PER_RUN :: rat where "MAX_COST_USD_PER_RUN = 1 / 2"

text \<open>\<open>ai_seen\<close> is the cache inside the client; the session is the process's.\<close>

record agent_state =
  s_endpoint :: uuid
  s_diagnosis :: uuid
  s_triggered_by :: string
  triage_notes :: utext
  hypothesis :: utext
  verification_notes :: utext
  evidence :: dict
  tool_calls_made :: "utext list"
  verified :: bool
  run_result :: "dict option"
  tokens_in :: int
  tokens_out :: int
  ai_seen :: ai_cache

definition new_run :: "uuid \<Rightarrow> uuid \<Rightarrow> string \<Rightarrow> agent_state" where
  "new_run endpoint_id diagnosis_id triggered_by =
    \<lparr>s_endpoint = endpoint_id, s_diagnosis = diagnosis_id, s_triggered_by = triggered_by, triage_notes = [],
     hypothesis = [], verification_notes = [], evidence = [], tool_calls_made = [], verified = False, run_result = None,
     tokens_in = 0, tokens_out = 0, ai_seen = (\<lambda>_. None)\<rparr>"

definition cost_usd :: "settings \<Rightarrow> agent_state \<Rightarrow> rat" where
  "cost_usd cfg st = estimate_cost cfg (tokens_in st) (tokens_out st)"

definition over_budget :: "settings \<Rightarrow> agent_state \<Rightarrow> bool" where
  "over_budget cfg st \<longleftrightarrow> cost_usd cfg st \<ge> MAX_COST_USD_PER_RUN"

section \<open>Talking to the model\<close>

definition newline :: string where "newline = [CHR 0x0A]"

definition text_of :: "llm_response \<Rightarrow> utext" where
  "text_of r = strip_text (join_text (ascii newline) (concat (map (\<lambda>b. case b of Text_block t \<Rightarrow> [t] | _ \<Rightarrow> []) (content r))))"

definition tool_uses :: "llm_response \<Rightarrow> (utext \<times> utext \<times> dict) list" where
  "tool_uses r = concat (map (\<lambda>b. case b of Tool_use i name args \<Rightarrow> [(i, name, args)] | _ \<Rightarrow> []) (content r))"

definition call_model :: "outside \<Rightarrow> utext \<Rightarrow> message list \<Rightarrow> json list \<Rightarrow> agent_state \<Rightarrow> (llm_response \<times> agent_state) proc" where
  "call_model ext system messages tool_defs st =
     bind (create (chat_model ext) (ai_seen st) system messages tool_defs) (\<lambda>(r, cache).
     return (r, st\<lparr>tokens_in := tokens_in st + input_tokens r, tokens_out := tokens_out st + output_tokens r, ai_seen := cache\<rparr>))"

fun joined :: "piece list list \<Rightarrow> piece list" where
  "joined [] = []"
| "joined [x] = x"
| "joined (x # y # xs) = x @ [Lit newline] @ joined (y # xs)"

definition context_block :: "agent_state \<Rightarrow> piece list" where
  "context_block st = joined
     ([[Lit ''Endpoint: '', Id (s_endpoint st)], [Lit ''Trigger: '', Txt (decode (s_triggered_by st))]] @
      (if triage_notes st = [] then [] else [[Lit (newline @ ''Triage notes:'' @ newline), Txt (triage_notes st)]]) @
      (if evidence st = [] then [] else [Lit (newline @ ''Evidence gathered so far:'')] #
         map (\<lambda>(name, v). [Lit ''- '', Txt name, Lit '': '', Repr v]) (evidence st)) @
      (if hypothesis st = [] then [] else [[Lit (newline @ ''Hypothesis:'' @ newline), Txt (hypothesis st)]]) @
      (if verification_notes st = [] then []
       else [[Lit (newline @ ''Verification:'' @ newline), Txt (verification_notes st)]]))"

section \<open>The tool-use loop\<close>

definition noted :: "utext \<Rightarrow> json \<Rightarrow> agent_state \<Rightarrow> agent_state" where
  "noted name outcome st = st\<lparr>tool_calls_made := tool_calls_made st @ [name], evidence := dict_set name outcome (evidence st),
     verified := (verified st \<or> named name VERIFICATION_TOOLS)\<rparr>"

fun run_tools :: "outside \<Rightarrow> (utext \<times> utext \<times> dict) list \<Rightarrow> agent_state \<Rightarrow> ((utext \<times> json) list \<times> agent_state) proc" where
  "run_tools ext [] st = return ([], st)"
| "run_tools ext ((i, name, args) # uses) st =
     bind (dispatch ext name args (s_endpoint st) (s_diagnosis st)) (\<lambda>outcome.
     bind (run_tools ext uses (noted name (JObj outcome) st)) (\<lambda>(results, st).
     return ((i, JObj outcome) # results, st)))"

text \<open>\<open>left\<close> is \<open>max_calls - calls\<close>.\<close>

function tool_loop :: "outside \<Rightarrow> utext \<Rightarrow> json list \<Rightarrow> nat \<Rightarrow> message list \<Rightarrow> agent_state \<Rightarrow> (utext \<times> agent_state) proc" where
  "tool_loop ext system tool_defs left messages st =
     bind settings_of (\<lambda>cfg.
     if left = 0 \<or> over_budget cfg st
     then bind (call_model ext system (messages @ [User [Lit ''Summarize what you found.'']]) [] st) (\<lambda>(r, st).
          return (text_of r, st))
     else bind (call_model ext system messages tool_defs st) (\<lambda>(r, st).
          if tool_uses r = [] then return (text_of r, st)
          else bind (run_tools ext (tool_uses r) st) (\<lambda>(results, st).
               tool_loop ext system tool_defs (left - length (tool_uses r))
                 (messages @ [Assistant (content r), Tool_results results]) st)))"
  by pat_completeness auto
termination
  by (relation "measure (\<lambda>(ext, system, tool_defs, left, messages, st). left)") auto

declare tool_loop.simps [simp del]

section \<open>The nodes\<close>

definition triage_node :: "outside \<Rightarrow> agent_state \<Rightarrow> agent_state proc" where
  "triage_node ext st =
     bind (call_model ext TRIAGE_SYSTEM
       [User [Lit ''Endpoint '', Id (s_endpoint st), Lit '' triggered a diagnosis ('', Txt (decode (s_triggered_by st)),
              Lit ''). What will you check?'']] [] st) (\<lambda>(r, st).
     return (st\<lparr>triage_notes := text_of r\<rparr>))"

definition investigate_node :: "outside \<Rightarrow> agent_state \<Rightarrow> agent_state proc" where
  "investigate_node ext st =
     bind (tool_loop ext INVESTIGATE_SYSTEM TOOL_SCHEMAS MAX_INVESTIGATE_TOOL_CALLS
       [User (Lit (''Investigate this endpoint.'' @ newline @ newline) # context_block st)] st) (\<lambda>(closing, st). return st)"

definition hypothesize_node :: "outside \<Rightarrow> agent_state \<Rightarrow> agent_state proc" where
  "hypothesize_node ext st =
     bind (call_model ext HYPOTHESIZE_SYSTEM [User (context_block st)] [] st) (\<lambda>(r, st). return (st\<lparr>hypothesis := text_of r\<rparr>))"

definition tool_name :: "json \<Rightarrow> utext" where
  "tool_name t = (case member ''name'' t of JStr s \<Rightarrow> s | _ \<Rightarrow> [])"

definition verify_node :: "outside \<Rightarrow> agent_state \<Rightarrow> agent_state proc" where
  "verify_node ext st =
     bind (tool_loop ext VERIFY_SYSTEM (filter (\<lambda>t. named (tool_name t) VERIFICATION_TOOLS) TOOL_SCHEMAS) MAX_VERIFY_TOOL_CALLS
       [User (Lit (''Test this hypothesis against live behavior now.'' @ newline @ newline) # context_block st)] st)
       (\<lambda>(closing, st). return (st\<lparr>verification_notes := closing\<rparr>))"

definition no_diagnosis :: dict where
  "no_diagnosis = jdict
     [(''root_cause'', js ''agent_error''), (''confidence'', js ''low''),
      (''summary'', js ''The agent did not produce a structured diagnosis.''),
      (''recommendation'', js ''Re-run the diagnosis; no conclusion was reached.''), (''draft_email'', js '''')]"

text \<open>\<open>summary + suffix\<close> raises unless the summary is text.\<close>

definition downgraded :: "dict \<Rightarrow> dict proc" where
  "downgraded r =
     (let r = dict_set (ascii ''confidence'') (js ''low'') r in
      case dict_get ''summary'' (JStr []) r of
        JStr s \<Rightarrow> return (dict_set (ascii ''summary'') (JStr (strip_text (s @ ascii '' [Not verified against a live probe.]''))) r)
      | _ \<Rightarrow> raise Type_error)"

definition submission :: "llm_response \<Rightarrow> dict option" where
  "submission r = map_option (\<lambda>(i, name, args). args)
     (find (\<lambda>(i, name, args). name = ascii ''submit_diagnosis'') (tool_uses r))"

definition report_request :: "agent_state \<Rightarrow> message list" where
  "report_request st =
     [User (Lit (''Write up the diagnosis using submit_diagnosis.'' @ newline @ newline) # context_block st)]"

definition report_node :: "outside \<Rightarrow> agent_state \<Rightarrow> agent_state proc" where
  "report_node ext st =
     bind (call_model ext REPORT_SYSTEM (report_request st) [REPORT_TOOL] st) (\<lambda>(r, st).
     case submission r of
       None \<Rightarrow> return (st\<lparr>run_result := Some no_diagnosis\<rparr>)
     | Some submitted \<Rightarrow>
         bind (if verified st then return submitted else downgraded submitted) (\<lambda>outcome.
         return (st\<lparr>run_result := Some outcome\<rparr>)))"

section \<open>A run\<close>

text \<open>What the columns of the result take: text; one of three words; JSON without what \<open>JSONB\<close>
  refuses; an amount below \<open>10^4\<close>.\<close>

definition confidence_column :: "json \<Rightarrow> exn + confidence" where
  "confidence_column j = (case text_column j of
     Inl e \<Rightarrow> Inl e
   | Inr s \<Rightarrow> if s = ''low'' then Inr Low else if s = ''medium'' then Inr Medium else if s = ''high'' then Inr High
       else Inl Integrity_error)"

definition evidence_json :: "agent_state \<Rightarrow> dict \<Rightarrow> json" where
  "evidence_json st outcome = JObj (jdict
     [(''tool_calls'', JArr (map JStr (tool_calls_made st))),
      (''verified'', JBool (verified st)),
      (''findings'', JObj (evidence st)),
      (''triage'', JStr (triage_notes st)),
      (''hypothesis'', JStr (hypothesis st)),
      (''verification'', JStr (verification_notes st)),
      (''summary'', dict_get ''summary'' (JStr []) outcome)])"

definition diagnosis_update :: "settings \<Rightarrow> agent_state \<Rightarrow> exn + (diagnosis \<Rightarrow> diagnosis)" where
  "diagnosis_update cfg st =
     (let outcome = (case run_result st of None \<Rightarrow> [] | Some r \<Rightarrow> r);
          cost = round_to 6 (cost_usd cfg st);
          evidence = evidence_json st outcome
      in case (text_column (dict_get ''root_cause'' (js ''agent_error'') outcome),
               confidence_column (dict_get ''confidence'' (js ''low'') outcome),
               text_column (dict_get ''recommendation'' (JStr []) outcome),
               text_column (dict_get ''draft_email'' (JStr []) outcome)) of
           (Inr root_cause, Inr confidence, Inr recommendation, Inr draft_email) \<Rightarrow>
             if json_storable evidence \<and> \<bar>cost\<bar> < 10 ^ 4
             then Inr (\<lambda>g. g\<lparr>dg_root_cause := root_cause, dg_confidence := confidence, dg_recommendation := recommendation,
                    dg_draft_email := draft_email, dg_cost_usd := cost, dg_evidence := evidence\<rparr>)
             else Inl Sql_error
         | (Inl e, _) \<Rightarrow> Inl e
         | (_, Inl e, _) \<Rightarrow> Inl e
         | (_, _, Inl e, _) \<Rightarrow> Inl e
         | (_, _, _, Inl e) \<Rightarrow> Inl e)"

definition persist_result :: "agent_state \<Rightarrow> unit proc" where
  "persist_result st =
     bind settings_of (\<lambda>cfg. case diagnosis_update cfg st of
       Inl e \<Rightarrow> in_session (refused_commit e)
     | Inr f \<Rightarrow> seq (add_pending [Upd_diagnosis (s_diagnosis st) f]) (in_session commit))"

definition diagnosis_stub :: "uuid \<Rightarrow> uuid \<Rightarrow> string \<Rightarrow> rat \<Rightarrow> diagnosis" where
  "diagnosis_stub endpoint_id diagnosis_id triggered_by now =
    \<lparr>dg_id = diagnosis_id, dg_endpoint_id = endpoint_id, dg_triggered_by = triggered_by, dg_root_cause = ''agent_error'',
     dg_confidence = Low, dg_evidence = JObj [], dg_recommendation = [], dg_draft_email = [], dg_status = DOpen,
     dg_cost_usd = 0, dg_created_at = now\<rparr>"

definition run_graph :: "outside \<Rightarrow> agent_state \<Rightarrow> agent_state proc" where
  "run_graph ext st =
     bind (triage_node ext st) (\<lambda>st.
     bind (investigate_node ext st) (\<lambda>st.
     bind (hypothesize_node ext st) (\<lambda>st.
     bind (verify_node ext st) (report_node ext))))"

definition run_diagnosis :: "outside \<Rightarrow> uuid \<Rightarrow> string \<Rightarrow> agent_state proc" where
  "run_diagnosis ext endpoint_id triggered_by =
     bind uuid4 (\<lambda>diagnosis_id.
     bind db_now (\<lambda>now.
     seq (add_pending [Ins_diagnosis (diagnosis_stub endpoint_id diagnosis_id triggered_by now)])
    (seq (in_session commit)
    (seq (get_llm (construct_model ext))
         (bind (run_graph ext (new_run endpoint_id diagnosis_id triggered_by)) (\<lambda>st.
          seq (persist_result st) (return st)))))))"

end
