(* ===== verification/Json_Reader.thy ===== *)
theory Json_Reader
  imports Json
begin

text \<open>
  \<open>json.loads\<close> (\<open>relay/delivery/circuit_breaker.py\<close>, \<open>parse_event\<close>, and the trigger): Python's
  reader with its strict strings, its surrogate pairs, its three float words and its limit on the
  digits of an integer.  A float keeps the text that \<open>canon\<close>, the float's \<open>repr\<close>, gives its
  numeral.  Nesting beyond the interpreter's recursion limit is not modelled.  The reader undoes
  \<open>json.dumps\<close>, whatever separators it wrote.
\<close>

datatype load_error = Decode_error | Digits_error

section \<open>Scanning\<close>

definition is_ws :: "nat \<Rightarrow> bool" where
  "is_ws c \<longleftrightarrow> c = 32 \<or> c = 9 \<or> c = 10 \<or> c = 13"

definition skip_ws :: "utext \<Rightarrow> utext" where
  "skip_ws s = dropWhile is_ws s"

definition is_dec :: "nat \<Rightarrow> bool" where
  "is_dec c \<longleftrightarrow> 48 \<le> c \<and> c \<le> 57"

text \<open>Four hexadecimal digits.\<close>

definition hex_point :: "nat \<Rightarrow> nat option" where
  "hex_point c = (if c < 128 then hex_val (char_of c) else None)"

definition read_hex4 :: "utext \<Rightarrow> nat option" where
  "read_hex4 s =
     (let ds = map hex_point (take 4 s)
      in if length ds = 4 \<and> None \<notin> set ds then Some (horner 16 (map the ds)) else None)"

text \<open>What follows a backslash and \<open>u\<close>: a high surrogate takes a low one that follows with it.\<close>

definition unicode_escape :: "utext \<Rightarrow> (nat \<times> utext) option" where
  "unicode_escape s =
     (case read_hex4 s of
        None \<Rightarrow> None
      | Some hi \<Rightarrow>
          (let rest = drop 4 s in
           if 55296 \<le> hi \<and> hi \<le> 56319 \<and> take 2 rest = [92, 117]
           then (case read_hex4 (drop 2 rest) of
                   None \<Rightarrow> None
                 | Some lo \<Rightarrow>
                     if 56320 \<le> lo \<and> lo \<le> 57343
                     then Some (65536 + (hi - 55296) * 1024 + (lo - 56320), drop 6 rest)
                     else Some (hi, rest))
           else Some (hi, rest)))"

definition escape_chars :: "(nat \<times> nat) list" where
  "escape_chars = [(34, 34), (92, 92), (47, 47), (98, 8), (102, 12), (110, 10), (114, 13), (116, 9)]"

lemma unicode_escape_shorter [termination_simp]: "unicode_escape s = Some (u, rest) \<Longrightarrow> length rest \<le> length s"
  by (auto simp: unicode_escape_def Let_def split: option.splits if_splits)

definition before_text :: "nat \<Rightarrow> (utext \<times> utext) option \<Rightarrow> (utext \<times> utext) option" where
  "before_text c r = map_option (\<lambda>(s, rest). (c # s, rest)) r"

text \<open>A string after its opening quote: its text and what follows the closing quote.\<close>

fun scan_string :: "utext \<Rightarrow> (utext \<times> utext) option" where
  "scan_string [] = None"
| "scan_string (c # cs) =
     (if c = 34 then Some ([], cs)
      else if c < 32 then None
      else if c \<noteq> 92 then before_text c (scan_string cs)
      else case cs of
        [] \<Rightarrow> None
      | e # es \<Rightarrow>
          if e = 117
          then (case unicode_escape es of None \<Rightarrow> None | Some (u, rest) \<Rightarrow> before_text u (scan_string rest))
          else (case map_of escape_chars e of None \<Rightarrow> None | Some u \<Rightarrow> before_text u (scan_string es)))"

lemma scan_string_shorter: "scan_string s = Some (t, rest) \<Longrightarrow> length rest < length s"
proof (induction s arbitrary: t rest rule: scan_string.induct)
  case (2 c cs)
  then show ?case
    by (auto simp: before_text_def split: if_splits list.splits option.splits dest!: unicode_escape_shorter)
      (fastforce dest: unicode_escape_shorter)+
qed simp

section \<open>Numbers\<close>

text \<open>The longest numeral at the start: integer part with its sign, fraction and exponent, the rest.\<close>

definition span_dec :: "utext \<Rightarrow> utext \<times> utext" where
  "span_dec s = (takeWhile is_dec s, dropWhile is_dec s)"

definition scan_sign :: "nat set \<Rightarrow> utext \<Rightarrow> utext \<times> utext" where
  "scan_sign signs s = (case s of c # cs \<Rightarrow> if c \<in> signs then ([c], cs) else ([], s) | [] \<Rightarrow> ([], []))"

definition scan_fraction :: "utext \<Rightarrow> utext \<times> utext" where
  "scan_fraction s = (case s of
     c # cs \<Rightarrow> (case span_dec cs of (ds, rest) \<Rightarrow> if c = 46 \<and> ds \<noteq> [] then (c # ds, rest) else ([], s))
   | [] \<Rightarrow> ([], []))"

definition scan_exponent :: "utext \<Rightarrow> utext \<times> utext" where
  "scan_exponent s = (case s of
     c # cs \<Rightarrow> (case scan_sign {43, 45} cs of (sg, cs') \<Rightarrow> (case span_dec cs' of (ds, rest) \<Rightarrow>
       if (c = 101 \<or> c = 69) \<and> ds \<noteq> [] then (c # sg @ ds, rest) else ([], s)))
   | [] \<Rightarrow> ([], []))"

definition scan_number :: "utext \<Rightarrow> (utext \<times> utext \<times> utext \<times> utext) option" where
  "scan_number s =
     (case scan_sign {45} s of (sg, s1) \<Rightarrow>
      (case s1 of
         [] \<Rightarrow> None
       | d # ds \<Rightarrow>
           if \<not> is_dec d then None
           else (case (if d = 48 then ([d], ds) else span_dec s1) of (whole, s2) \<Rightarrow>
                (case scan_fraction s2 of (dots, s3) \<Rightarrow>
                (case scan_exponent s3 of (expo, rest) \<Rightarrow> Some (sg @ whole, dots, expo, rest))))))"

text \<open>\<open>int(..)\<close> of a numeral without fraction and exponent; beyond 4300 digits it raises \<open>ValueError\<close>.\<close>

definition int_value :: "utext \<Rightarrow> int" where
  "int_value s = (case scan_sign {45} s of (sg, ds) \<Rightarrow>
     (let v = int (horner 10 (map (\<lambda>c. c - 48) ds)) in if sg = [] then v else - v))"

definition MAX_STR_DIGITS :: nat where "MAX_STR_DIGITS = 4300"

definition word_at :: "string \<Rightarrow> utext \<Rightarrow> bool" where
  "word_at w s \<longleftrightarrow> take (length w) s = ascii w"

definition scan_plain :: "(string \<Rightarrow> string) \<Rightarrow> utext \<Rightarrow> load_error + json \<times> utext" where
  "scan_plain canon s =
     (if word_at ''null'' s then Inr (JNull, drop 4 s)
      else if word_at ''true'' s then Inr (JBool True, drop 4 s)
      else if word_at ''false'' s then Inr (JBool False, drop 5 s)
      else case scan_number s of
        Some (whole, dots, expo, rest) \<Rightarrow>
          if dots \<noteq> [] \<or> expo \<noteq> [] then Inr (JFloat (canon (map char_of (whole @ dots @ expo))), rest)
          else if length (filter is_dec whole) > MAX_STR_DIGITS then Inl Digits_error
          else Inr (JInt (int_value whole), rest)
      | None \<Rightarrow>
          if word_at ''NaN'' s then Inr (JFloat ''NaN'', drop 3 s)
          else if word_at ''Infinity'' s then Inr (JFloat ''Infinity'', drop 8 s)
          else if word_at ''-Infinity'' s then Inr (JFloat ''-Infinity'', drop 9 s)
          else Inl Decode_error)"

section \<open>Values\<close>

lemma skip_ws_shorter [termination_simp]: "length (skip_ws s) \<le> length s"
  by (simp add: skip_ws_def length_dropWhile_le)

lemma skip_ws_bounds:
  "2 * length (skip_ws s) < Suc (2 * length s)"
  "length s < n \<Longrightarrow> length (skip_ws s) < n"
  "length s < Suc n \<Longrightarrow> 2 * length (skip_ws s) < Suc (Suc (2 * n))"
  using skip_ws_shorter [of s] by simp_all

lemma after_colon_shorter:
  "scan_string cs = Some (k, rest) \<Longrightarrow> length (skip_ws (drop (Suc 0) (skip_ws rest))) < length cs"
  using scan_string_shorter [of cs k rest] skip_ws_shorter [of rest] skip_ws_shorter [of "drop (Suc 0) (skip_ws rest)"] by simp

lemma after_colon_bound:
  "scan_string cs = Some (k, rest) \<Longrightarrow> 2 * length (skip_ws (drop (Suc 0) (skip_ws rest))) < Suc (Suc (Suc (2 * length cs)))"
  using after_colon_shorter [of cs k rest] by simp

text \<open>The repeated keys of an object: the last value wins, at the place of the first.\<close>

definition dict_of :: "dict \<Rightarrow> dict" where
  "dict_of kvs = foldl (\<lambda>d (k, v). dict_set k v d) [] kvs"

text \<open>The rest after an item is always shorter than the text before it (\<open>scan_shorter\<close>), so the
  comparison of lengths never decides; it makes the recursion end.\<close>

function scan_value :: "(string \<Rightarrow> string) \<Rightarrow> utext \<Rightarrow> load_error + json \<times> utext"
  and scan_items :: "(string \<Rightarrow> string) \<Rightarrow> utext \<Rightarrow> load_error + json list \<times> utext"
  and scan_pairs :: "(string \<Rightarrow> string) \<Rightarrow> utext \<Rightarrow> load_error + dict \<times> utext" where
  "scan_value canon s = (case s of
     [] \<Rightarrow> Inl Decode_error
   | c # cs \<Rightarrow>
       if c = 34 then (case scan_string cs of None \<Rightarrow> Inl Decode_error | Some (t, rest) \<Rightarrow> Inr (JStr t, rest))
       else if c = 123 then
         (if take 1 (skip_ws cs) = [125] then Inr (JObj [], drop 1 (skip_ws cs))
          else case scan_pairs canon (skip_ws cs) of Inl e \<Rightarrow> Inl e | Inr (kvs, rest) \<Rightarrow> Inr (JObj (dict_of kvs), rest))
       else if c = 91 then
         (if take 1 (skip_ws cs) = [93] then Inr (JArr [], drop 1 (skip_ws cs))
          else case scan_items canon (skip_ws cs) of Inl e \<Rightarrow> Inl e | Inr (vs, rest) \<Rightarrow> Inr (JArr vs, rest))
       else scan_plain canon s)"
| "scan_items canon s = (case scan_value canon s of
     Inl e \<Rightarrow> Inl e
   | Inr (v, rest) \<Rightarrow> (case skip_ws rest of
       [] \<Rightarrow> Inl Decode_error
     | c # rest' \<Rightarrow>
         if c = 93 then Inr ([v], rest')
         else if c = 44 \<and> length rest' < length s then
           (case scan_items canon (skip_ws rest') of Inl e \<Rightarrow> Inl e | Inr (vs, rest'') \<Rightarrow> Inr (v # vs, rest''))
         else Inl Decode_error))"
| "scan_pairs canon s = (case s of
     [] \<Rightarrow> Inl Decode_error
   | c # cs \<Rightarrow>
       if c \<noteq> 34 then Inl Decode_error
       else (case scan_string cs of
         None \<Rightarrow> Inl Decode_error
       | Some (k, rest) \<Rightarrow>
           if take 1 (skip_ws rest) \<noteq> [58] then Inl Decode_error
           else (case scan_value canon (skip_ws (drop 1 (skip_ws rest))) of
             Inl e \<Rightarrow> Inl e
           | Inr (v, rest') \<Rightarrow> (case skip_ws rest' of
               [] \<Rightarrow> Inl Decode_error
             | d # rest'' \<Rightarrow>
                 if d = 125 then Inr ([(k, v)], rest'')
                 else if d = 44 \<and> length rest'' < length s then
                   (case scan_pairs canon (skip_ws rest'') of Inl e \<Rightarrow> Inl e | Inr (kvs, r) \<Rightarrow> Inr ((k, v) # kvs, r))
                 else Inl Decode_error))))"
  by pat_completeness auto

termination
  by (relation "measure (case_sum (\<lambda>(canon, s). 2 * length s)
      (case_sum (\<lambda>(canon, s). 2 * length s + 1) (\<lambda>(canon, s). 2 * length s + 1)))")
    (auto simp: skip_ws_bounds after_colon_bound)

declare scan_value.simps [simp del] scan_items.simps [simp del] scan_pairs.simps [simp del]

definition loads :: "(string \<Rightarrow> string) \<Rightarrow> utext \<Rightarrow> load_error + json" where
  "loads canon s =
     (if take 1 s = [65279] then Inl Decode_error
      else case scan_value canon (skip_ws s) of
        Inl e \<Rightarrow> Inl e
      | Inr (v, rest) \<Rightarrow> if skip_ws rest = [] then Inr v else Inl Decode_error)"

section \<open>The reader always advances\<close>

lemma word_at_shorter: "word_at w s \<Longrightarrow> w \<noteq> [] \<Longrightarrow> length (drop (length w) s) < length s"
  by (cases s; cases w) (auto simp: word_at_def ascii_def)

lemma span_dec_le: "span_dec s = (ds, rest) \<Longrightarrow> length rest \<le> length s"
  by (auto simp: span_dec_def length_dropWhile_le)

lemma scan_sign_le: "scan_sign signs s = (sg, rest) \<Longrightarrow> length rest \<le> length s"
  by (auto simp: scan_sign_def split: list.splits if_splits)

lemma scan_fraction_le: "scan_fraction s = (f, rest) \<Longrightarrow> length rest \<le> length s"
  by (auto simp: scan_fraction_def split: list.splits if_splits prod.splits dest: span_dec_le)

lemma scan_exponent_le: "scan_exponent s = (e, rest) \<Longrightarrow> length rest \<le> length s"
  by (auto simp: scan_exponent_def split: list.splits if_splits prod.splits dest!: span_dec_le scan_sign_le)

lemma scan_number_shorter: "scan_number s = Some (w, f, e, rest) \<Longrightarrow> length rest < length s"
proof -
  assume "scan_number s = Some (w, f, e, rest)"
  then obtain sg d ds whole s2 s3 where "scan_sign {45} s = (sg, d # ds)" "is_dec d"
    and whole: "(if d = 48 then ([d], ds) else span_dec (d # ds)) = (whole, s2)"
    and rest: "scan_fraction s2 = (f, s3)" "scan_exponent s3 = (e, rest)"
    by (auto simp: scan_number_def split: prod.splits list.splits if_splits)
  then have "length (d # ds) \<le> length s" "length s2 \<le> length ds"
    using scan_sign_le length_dropWhile_le [of is_dec ds] by (fastforce simp: span_dec_def split: if_splits)+
  then show ?thesis using scan_fraction_le [OF rest(1)] scan_exponent_le [OF rest(2)] by simp
qed

lemma scan_plain_shorter: "scan_plain canon s = Inr (v, rest) \<Longrightarrow> length rest < length s"
  using word_at_shorter [of "''null''" s] word_at_shorter [of "''true''" s] word_at_shorter [of "''false''" s]
    word_at_shorter [of "''NaN''" s] word_at_shorter [of "''Infinity''" s] word_at_shorter [of "''-Infinity''" s]
  by (auto simp: scan_plain_def dest: scan_number_shorter split: if_splits option.splits)

lemma skip_ws_Cons: "skip_ws s = c # r \<Longrightarrow> length r < length s"
  using skip_ws_shorter [of s] by simp

lemma scan_shorter:
  "scan_value canon s = Inr (v, rest) \<Longrightarrow> length rest < length s"
  "scan_items canon s = Inr (vs, rest) \<Longrightarrow> length rest < length s"
  "scan_pairs canon s = Inr (kvs, rest) \<Longrightarrow> length rest < length s"
proof (induction canon s and canon s and canon s arbitrary: v rest and vs rest and kvs rest
    rule: scan_value_scan_items_scan_pairs.induct)
  case (1 canon s)
  show ?case
  proof (cases s)
    case Nil
    then show ?thesis using "1.prems" by (simp add: scan_value.simps [of _ "[]"])
  next
    case (Cons c cs)
    have ws: "length (skip_ws cs) \<le> length cs" by (rule skip_ws_shorter)
    show ?thesis
      using "1.prems" "1.IH" [OF Cons] ws scan_plain_shorter [of canon s v rest] unfolding Cons scan_value.simps [of _ "c # cs"]
      by (force dest: scan_string_shorter split: if_splits option.splits sum.splits)
  qed
next
  case (2 canon s)
  from "2.prems" obtain v r where v: "scan_value canon s = Inr (v, r)"
    and r: "skip_ws r = 93 # rest \<or>
      (\<exists>r' vs'. skip_ws r = 44 # r' \<and> length r' < length s \<and> scan_items canon (skip_ws r') = Inr (vs', rest))"
    unfolding scan_items.simps [of _ s] by (auto split: sum.splits list.splits if_splits)
  have "length r < length s" using "2.IH"(1) [OF v] .
  moreover have "length rest < length (skip_ws r')"
    if "skip_ws r = 44 # r'" "length r' < length s" "scan_items canon (skip_ws r') = Inr (vs', rest)" for r' vs'
    by (rule "2.IH"(2) [OF v refl that(1) _ _ that(3)]) (use that in simp_all)
  ultimately show ?case
    using r skip_ws_Cons [of r] skip_ws_shorter by (meson less_trans order_less_le_trans)
next
  case (3 canon s)
  from "3.prems" obtain cs k r v r' where s: "s = 34 # cs" and k: "scan_string cs = Some (k, r)"
    and colon: "take 1 (skip_ws r) = [58]" and v: "scan_value canon (skip_ws (drop 1 (skip_ws r))) = Inr (v, r')"
    and rest: "skip_ws r' = 125 # rest \<or>
      (\<exists>r'' kvs'. skip_ws r' = 44 # r'' \<and> length r'' < length s \<and> scan_pairs canon (skip_ws r'') = Inr (kvs', rest))"
    unfolding scan_pairs.simps [of _ s] by (auto split: sum.splits list.splits if_splits option.splits)
  have "length r' < length (skip_ws (drop 1 (skip_ws r)))"
    by (rule "3.IH"(1) [OF s _ k refl _ v]) (use colon in simp_all)
  moreover have "length (skip_ws (drop 1 (skip_ws r))) < length s"
    using after_colon_shorter [OF k] by (simp add: s)
  moreover have "length rest < length (skip_ws r'')"
    if "skip_ws r' = 44 # r''" "length r'' < length s" "scan_pairs canon (skip_ws r'') = Inr (kvs', rest)" for r'' kvs'
    by (rule "3.IH"(2) [OF s _ k refl _ v refl that(1) _ _ that(3)]) (use that colon in simp_all)
  ultimately show ?case
    using rest skip_ws_Cons [of r'] skip_ws_shorter by (meson less_trans order_less_le_trans)
qed

section \<open>Reading strings back\<close>

lemma ascii_append [simp]: "ascii (s @ t) = ascii s @ ascii t" and ascii_Nil [simp]: "ascii [] = []"
  and length_ascii [simp]: "length (ascii s) = length s"
  by (simp_all add: ascii_def)

definition plain_point :: "nat \<Rightarrow> bool" where
  "plain_point c \<longleftrightarrow> c < 1114112 \<and> \<not> (55296 \<le> c \<and> c \<le> 57343)"

lemma ascii_digits: "ascii (map digit_char ds) = map (\<lambda>d. of_char (digit_char d)) ds"
  by (simp add: ascii_def)

lemma hex_point_digit: "d < 16 \<Longrightarrow> hex_point (of_char (digit_char d)) = Some d"
proof -
  assume d: "d < 16"
  then have "(of_char (digit_char d) :: nat) < 128" by (simp add: digit_char_def)
  then show ?thesis by (simp add: hex_point_def d)
qed

lemma read_hex4_digits: "read_hex4 (ascii (map digit_char (digits_base 16 4 n)) @ s) = Some (n mod 65536)"
proof -
  let ?ds = "digits_base 16 4 n"
  have "map hex_point (ascii (map digit_char ?ds)) = map Some ?ds"
    using hex_point_digit digits_base_less [of 16] by (simp add: ascii_digits)
  moreover have "map the (map Some ?ds) = ?ds" "None \<notin> set (map Some ?ds)" "length (map Some ?ds) = 4"
    by (simp_all add: comp_def)
  moreover have "take 4 (ascii (map digit_char ?ds) @ s) = ascii (map digit_char ?ds)" by simp
  ultimately show ?thesis
    using horner_digits_base [of 16 4 n] by (simp only: read_hex4_def Let_def if_True simp_thms) simp
qed

lemma hex4_points: "ascii (hex4 n) = 92 # 117 # ascii (map digit_char (digits_base 16 4 n))"
  by (simp add: hex4_def ascii_def)

lemma digits_drop: "drop 4 (ascii (map digit_char (digits_base 16 4 n)) @ s) = s"
  by (simp add: ascii_def)

lemma scan_escape_u: "scan_string (92 # 117 # cs) = (case unicode_escape cs of None \<Rightarrow> None | Some (u, rest) \<Rightarrow> before_text u (scan_string rest))"
  by (simp add: split: option.split)

lemma scan_basic:
  assumes "n < 65536" and "\<not> (55296 \<le> n \<and> n \<le> 57343)"
  shows "scan_string (ascii (hex4 n) @ s) = before_text n (scan_string s)"
proof -
  have "unicode_escape (ascii (map digit_char (digits_base 16 4 n)) @ s) = Some (n, s)"
    using assms by (auto simp: unicode_escape_def read_hex4_digits digits_drop Let_def)
  then show ?thesis by (simp only: hex4_points append_Cons scan_escape_u option.case prod.case)
qed

lemma scan_pair:
  assumes "65536 \<le> c" and "c < 1114112"
  shows "scan_string (ascii (hex4 (55296 + (c - 65536) div 1024) @ hex4 (56320 + (c - 65536) mod 1024)) @ s) = before_text c (scan_string s)"
proof -
  define hi lo where "hi = 55296 + (c - 65536) div 1024" and "lo = 56320 + (c - 65536) mod 1024"
  have "(c - 65536) div 1024 < 1024" using assms by (simp add: div_less_iff_less_mult)
  then have hi: "55296 \<le> hi" "hi \<le> 56319" "hi < 65536" by (simp_all add: hi_def)
  have "(c - 65536) mod 1024 < 1024" by simp
  then have lo: "56320 \<le> lo" "lo \<le> 57343" "lo < 65536" unfolding lo_def by linarith+
  have c: "65536 + (hi - 55296) * 1024 + (lo - 56320) = c"
    using assms(1) div_mult_mod_eq [of "c - 65536" 1024] by (simp add: hi_def lo_def)
  have two: "take 2 (92 # 117 # xs) = [92, 117 :: nat]" "drop 2 (92 # 117 # xs) = xs" "drop 6 (92 # 117 # xs) = drop 4 xs" for xs :: utext
    by (simp_all add: numeral_2_eq_2 eval_nat_numeral)
  have "unicode_escape (ascii (map digit_char (digits_base 16 4 hi)) @ ascii (hex4 lo) @ s) = Some (c, s)"
    using hi lo by (simp add: unicode_escape_def read_hex4_digits digits_drop Let_def hex4_points two c)
  then show ?thesis
    unfolding hi_def [symmetric] lo_def [symmetric]
    by (simp only: hex4_points [of hi] ascii_append append_assoc append_Cons scan_escape_u option.case prod.case)
qed

lemma scan_escape_point:
  assumes "plain_point c"
  shows "scan_string (ascii (escape_point c) @ s) = before_text c (scan_string s)"
proof -
  consider "c \<in> {34, 92, 10, 13, 9, 12, 8}" | "32 \<le> c" "c \<le> 126" "c \<notin> {34, 92}"
    | "c < 65536" "\<not> (32 \<le> c \<and> c \<le> 126)" "c \<notin> {10, 13, 9, 12, 8}" | "65536 \<le> c"
    by fastforce
  then show ?thesis
  proof cases
    case 1
    then show ?thesis by (auto simp: escape_point_def ascii_def escape_chars_def)
  next
    case 2
    then show ?thesis by (auto simp: escape_point_def ascii_def)
  next
    case 3
    then have "escape_point c = hex4 c" by (auto simp: escape_point_def)
    then show ?thesis using 3 assms scan_basic [of c s] by (simp add: plain_point_def)
  next
    case 4
    then have "escape_point c = hex4 (55296 + (c - 65536) div 1024) @ hex4 (56320 + (c - 65536) mod 1024)"
      by (simp add: escape_point_def)
    then show ?thesis using scan_pair [OF 4] assms by (simp only: plain_point_def)
  qed
qed

lemma scan_dump_str:
  assumes "list_all plain_point s"
  shows "\<exists>r. ascii (dump_str s) @ rest = 34 # r \<and> scan_string r = Some (s, rest)"
proof -
  have "scan_string (ascii (concat (map escape_point s)) @ 34 # rest) = Some (s, rest)"
    using assms
  proof (induction s)
    case (Cons c s)
    then show ?case using scan_escape_point [of c "ascii (concat (map escape_point s)) @ 34 # rest"] by (simp add: before_text_def)
  qed simp
  then show ?thesis by (simp add: dump_str_def ascii_def)
qed

section \<open>Reading numbers back\<close>

definition delimited :: "utext \<Rightarrow> bool" where
  "delimited s \<longleftrightarrow> s = [] \<or> hd s \<in> {44, 93, 125}"

lemma dec_nat_parts:
  obtains ds where "ascii (dec_nat n) = map (\<lambda>d. 48 + d) ds" and "\<forall>d \<in> set ds. d < 10" and "horner 10 ds = n" and "ds \<noteq> []"
    and "hd ds = 0 \<longrightarrow> ds = [0]"
proof -
  have "\<exists>ds. dec_nat n = map digit_char ds \<and> (\<forall>d \<in> set ds. d < 10) \<and> horner 10 ds = n \<and> ds \<noteq> [] \<and> (hd ds = 0 \<longrightarrow> n = 0 \<and> ds = [0])"
  proof (induction n rule: dec_nat.induct)
    case (1 n)
    show ?case
    proof (cases "n < 10")
      case True
      then show ?thesis by (intro exI [of _ "[n]"]) (simp add: dec_nat.simps [of n] horner_def)
    next
      case False
      from "1" [OF this] obtain ds where ds: "dec_nat (n div 10) = map digit_char ds" "\<forall>d \<in> set ds. d < 10" "horner 10 ds = n div 10"
        "ds \<noteq> []" "hd ds = 0 \<longrightarrow> n div 10 = 0" by metis
      have "dec_nat n = map digit_char (ds @ [n mod 10])" using False by (simp add: dec_nat.simps [of n] ds(1))
      moreover have "horner 10 (ds @ [n mod 10]) = n" using ds(3) by (simp add: horner_def)
      moreover have "\<forall>d \<in> set (ds @ [n mod 10]). d < 10" using ds(2) by simp
      moreover have "n div 10 \<noteq> 0" using False by (simp add: div_eq_0_iff)
      then have "hd (ds @ [n mod 10]) \<noteq> 0" using ds(4,5) by auto
      ultimately show ?thesis by (intro exI [of _ "ds @ [n mod 10]"]) simp
    qed
  qed
  then obtain ds where ds: "dec_nat n = map digit_char ds" "\<forall>d \<in> set ds. d < 10" "horner 10 ds = n" "ds \<noteq> []" "hd ds = 0 \<longrightarrow> ds = [0]"
    by metis
  have "ascii (dec_nat n) = map (\<lambda>d. 48 + d) ds"
  proof -
    have "(of_char (digit_char d) :: nat) = 48 + d" if "d < 10" for d using that by (simp add: digit_char_def)
    then show ?thesis using ds(1,2) by (simp add: ascii_def)
  qed
  then show ?thesis using ds that by metis
qed

lemma span_dec_all:
  assumes "\<forall>c \<in> set ds. is_dec c" and "delimited rest"
  shows "span_dec (ds @ rest) = (ds, rest)"
proof -
  have "takeWhile is_dec rest = []" "dropWhile is_dec rest = rest"
    using assms(2) by (cases rest; auto simp: delimited_def is_dec_def)+
  then show ?thesis using assms(1) by (simp add: span_dec_def takeWhile_append2 dropWhile_append2)
qed

lemma span_dec_digits:
  assumes "\<forall>d \<in> set ds. d < 10" and "delimited rest"
  shows "span_dec (map (\<lambda>d. 48 + d) ds @ rest) = (map (\<lambda>d. 48 + d) ds, rest)"
  using assms by (intro span_dec_all) (auto simp: is_dec_def)

lemma scan_tail:
  assumes "delimited rest"
  shows "scan_fraction rest = ([], rest)" and "scan_exponent rest = ([], rest)"
  using assms by (auto simp: delimited_def scan_fraction_def scan_exponent_def split: list.split prod.split)

lemma scan_sign_of:
  "scan_sign {45} (ascii (str_int i) @ rest) = (if i < 0 then [45] else [], ascii (dec_nat (nat \<bar>i\<bar>)) @ rest)"
proof (cases "i < 0")
  case True
  then show ?thesis by (simp add: str_int_def ascii_def scan_sign_def)
next
  case False
  obtain ds where "ascii (dec_nat (nat i)) = map (\<lambda>d. 48 + d) ds" "ds \<noteq> []" using dec_nat_parts by metis
  then show ?thesis using False by (cases ds) (simp_all add: str_int_def scan_sign_def)
qed

lemma scan_number_int:
  assumes "delimited rest"
  shows "scan_number (ascii (str_int i) @ rest) = Some (ascii (str_int i), [], [], rest)"
proof -
  obtain ds where ds: "ascii (dec_nat (nat \<bar>i\<bar>)) = map (\<lambda>d. 48 + d) ds" "\<forall>d \<in> set ds. d < 10" "ds \<noteq> []" "hd ds = 0 \<longrightarrow> ds = [0]"
    using dec_nat_parts by metis
  obtain d ds' where cons: "ds = d # ds'" using ds(3) by (cases ds) simp_all
  define sg :: utext where "sg = (if i < 0 then [45] else [])"
  have sign: "scan_sign {45} (ascii (str_int i) @ rest) = (sg, (48 + d) # map (\<lambda>d. 48 + d) ds' @ rest)"
    by (simp add: scan_sign_of ds(1) cons sg_def)
  have whole: "(if 48 + d = 48 then ([48 + d], map (\<lambda>d. 48 + d) ds' @ rest) else span_dec ((48 + d) # map (\<lambda>d. 48 + d) ds' @ rest)) =
      (map (\<lambda>d. 48 + d) ds, rest)"
    using span_dec_digits [OF ds(2) assms] ds(4) cons by auto
  have "is_dec (48 + d)" using ds(2) cons by (simp add: is_dec_def)
  moreover have "ascii (str_int i) = sg @ map (\<lambda>d. 48 + d) ds"
    using ds(1) by (cases "i < 0") (simp_all add: str_int_def ascii_def sg_def)
  ultimately show ?thesis
    unfolding scan_number_def sign prod.case list.case whole by (simp add: scan_tail [OF assms])
qed

lemma int_value_of: "int_value (ascii (str_int i)) = i"
proof -
  obtain ds where ds: "ascii (dec_nat (nat \<bar>i\<bar>)) = map (\<lambda>d. 48 + d) ds" "horner 10 ds = nat \<bar>i\<bar>"
    using dec_nat_parts by metis
  then show ?thesis
    using scan_sign_of [of i "[]"] by (simp add: int_value_def comp_def)
qed

lemma word_at_head: "word_at (w # ws) s \<Longrightarrow> s \<noteq> [] \<and> hd s = of_char w"
  by (cases s) (auto simp: word_at_def ascii_def)

lemma scan_number_head: "scan_number s = Some p \<Longrightarrow> s \<noteq> [] \<and> (hd s = 45 \<or> is_dec (hd s))"
  by (auto simp: scan_number_def scan_sign_def split: list.splits if_splits prod.splits)

lemma scan_plain_number:
  assumes "scan_number s = Some (whole, dots, expo, rest)"
  shows "scan_plain canon s =
    (if dots \<noteq> [] \<or> expo \<noteq> [] then Inr (JFloat (canon (map char_of (whole @ dots @ expo))), rest)
     else if length (filter is_dec whole) > MAX_STR_DIGITS then Inl Digits_error
     else Inr (JInt (int_value whole), rest))"
proof -
  have "\<not> word_at ''null'' s" "\<not> word_at ''true'' s" "\<not> word_at ''false'' s"
    using scan_number_head [OF assms] word_at_head by (fastforce simp: is_dec_def)+
  then show ?thesis by (simp add: scan_plain_def assms)
qed

text \<open>A text \<open>repr\<close> gives a float: one of three words, or a numeral that is no integer's.\<close>

definition float_words :: "string set" where
  "float_words = {''NaN'', ''Infinity'', ''-Infinity''}"

definition float_text :: "string \<Rightarrow> bool" where
  "float_text r \<longleftrightarrow> r \<in> float_words \<or>
     (case scan_number (ascii r) of Some (whole, dots, expo, rest) \<Rightarrow> rest = [] \<and> (dots \<noteq> [] \<or> expo \<noteq> []) | None \<Rightarrow> False)"

lemma span_dec_extend:
  "span_dec s = (ds, []) \<Longrightarrow> delimited rest \<Longrightarrow> span_dec (s @ rest) = (ds, rest)"
  using span_dec_all [of s rest] takeWhile_eq_all_conv [of is_dec s] by (simp add: span_dec_def dropWhile_eq_Nil_conv)

lemma scan_sign_extend:
  "scan_sign signs (s @ rest) = (case scan_sign signs s of (sg, s') \<Rightarrow> (sg, s' @ rest))" if "s \<noteq> []"
  using that by (cases s) (auto simp: scan_sign_def)

lemma span_dec_dropped: "span_dec s = (ds, []) \<Longrightarrow> s = ds"
  unfolding span_dec_def by (metis append_Nil2 prod.inject takeWhile_dropWhile_id)

lemma span_dec_more:
  assumes "span_dec s = (ds, c # r)"
  shows "span_dec (s @ rest) = (ds, c # r @ rest)"
proof -
  have "s = ds @ c # r" using assms takeWhile_dropWhile_id [of is_dec s] by (simp add: span_dec_def)
  moreover have "\<forall>x \<in> set ds. is_dec x" using assms by (auto simp: span_dec_def dest: set_takeWhileD)
  moreover have "\<not> is_dec c" using assms hd_dropWhile [of is_dec s] by (auto simp: span_dec_def)
  ultimately show ?thesis by (simp add: span_dec_def takeWhile_append2 dropWhile_append2)
qed

lemma scan_exponent_extend:
  assumes "scan_exponent s = (e, [])" and "delimited rest"
  shows "scan_exponent (s @ rest) = (e, rest) \<and> e = s"
proof (cases s)
  case Nil
  then show ?thesis using assms scan_tail(2) [of rest] by (simp add: scan_exponent_def)
next
  case (Cons c cs)
  obtain sg cs' where sg: "scan_sign {43, 45} cs = (sg, cs')" by (cases "scan_sign {43, 45} cs")
  obtain ds r where ds: "span_dec cs' = (ds, r)" by (cases "span_dec cs'")
  have taken: "c = 101 \<or> c = 69" "ds \<noteq> []" "r = []" "e = c # sg @ ds"
    using assms(1) Cons sg ds by (auto simp: scan_exponent_def split: if_splits)
  have "cs' = ds" using ds taken(3) span_dec_dropped by simp
  moreover have "cs = sg @ cs'" using sg by (auto simp: scan_sign_def split: list.splits if_splits)
  moreover have "cs \<noteq> []" using calculation taken(2) by simp
  ultimately show ?thesis
    using scan_sign_extend [of cs "{43, 45}" rest] span_dec_extend [of cs' ds rest] ds sg taken assms(2) Cons
    by (auto simp: scan_exponent_def)
qed

lemma scan_fraction_split:
  assumes "scan_fraction s = (f, s')" and "scan_exponent s' = (e, [])" and "delimited rest"
  shows "scan_fraction (s @ rest) = (f, s' @ rest) \<and> s = f @ s'"
proof (cases s)
  case Nil
  then show ?thesis using assms scan_tail(1) [of rest] by (simp add: scan_fraction_def)
next
  case (Cons c cs)
  obtain ds r where ds: "span_dec cs = (ds, r)" by (cases "span_dec cs")
  have cs: "cs = ds @ r" using ds takeWhile_dropWhile_id [of is_dec cs] by (simp add: span_dec_def)
  have "span_dec (cs @ rest) = (ds, r @ rest)"
  proof (cases r)
    case Nil
    then show ?thesis using span_dec_extend ds assms(3) by simp
  next
    case (Cons x xs)
    then show ?thesis using span_dec_more ds by simp
  qed
  then show ?thesis
    using assms(1) ds cs Cons by (auto simp: scan_fraction_def split: if_splits)
qed

lemma scan_number_extend:
  assumes "scan_number s = Some (whole, dots, expo, [])" and "delimited rest"
  shows "scan_number (s @ rest) = Some (whole, dots, expo, rest) \<and> s = whole @ dots @ expo"
proof -
  obtain sg d ds w s2 s3 where sg: "scan_sign {45} s = (sg, d # ds)" and d: "is_dec d"
    and w: "(if d = 48 then ([d], ds) else span_dec (d # ds)) = (w, s2)" and whole: "whole = sg @ w"
    and tail: "scan_fraction s2 = (dots, s3)" "scan_exponent s3 = (expo, [])"
    using assms(1) by (auto simp: scan_number_def split: prod.splits list.splits if_splits)
  have s: "s = sg @ d # ds" "s \<noteq> []" using sg by (auto simp: scan_sign_def split: list.splits if_splits)
  have fraction: "scan_fraction (s2 @ rest) = (dots, s3 @ rest)" "s2 = dots @ s3"
    and exponent: "scan_exponent (s3 @ rest) = (expo, rest)" "s3 = expo"
    using scan_fraction_split [OF tail assms(2)] scan_exponent_extend [OF tail(2) assms(2)] by blast+
  have whole_part: "(if d = 48 then ([d], ds @ rest) else span_dec (d # ds @ rest)) = (w, s2 @ rest) \<and> d # ds = w @ s2"
  proof (cases "s2 = []")
    case True
    then show ?thesis
      using w span_dec_extend [of "d # ds" w rest] span_dec_dropped [of "d # ds" w] assms(2) by (auto split: if_splits)
  next
    case False
    show ?thesis
    proof (cases "d = 48")
      case True
      then show ?thesis using w by auto
    next
      case notzero: False
      obtain c r where c: "s2 = c # r" using False by (cases s2) simp_all
      have "span_dec (d # ds) = (w, c # r)" using w notzero c by simp
      then show ?thesis
        using span_dec_more [of "d # ds" w c r rest] takeWhile_dropWhile_id [of is_dec "d # ds"] notzero c by (simp add: span_dec_def)
    qed
  qed
  have sign: "scan_sign {45} (s @ rest) = (sg, d # ds @ rest)"
    using sg scan_sign_extend [OF s(2), of "{45}" rest] by simp
  have "scan_number (s @ rest) = Some (whole, dots, expo, rest)"
    unfolding scan_number_def sign prod.case list.case using d fraction exponent whole whole_part by simp
  moreover have "s = whole @ dots @ expo" using s(1) whole_part fraction(2) exponent(2) whole by simp
  ultimately show ?thesis ..
qed

lemma scan_plain_float:
  assumes "float_text r" and "delimited rest"
  shows "scan_plain canon (ascii r @ rest) = Inr (JFloat (if r \<in> float_words then r else canon r), rest)"
proof (cases "r \<in> float_words")
  case True
  then show ?thesis
    by (auto simp: float_words_def scan_plain_def word_at_def ascii_def scan_number_def scan_sign_def is_dec_def)
next
  case False
  then obtain w f e where n: "scan_number (ascii r) = Some (w, f, e, [])" and "f \<noteq> [] \<or> e \<noteq> []"
    using assms(1) by (auto simp: float_text_def split: option.splits)
  moreover have "map char_of (ascii r) = r" by (simp add: ascii_def comp_def)
  ultimately show ?thesis
    using scan_number_extend [OF n assms(2)] False by (auto simp: scan_plain_number)
qed

section \<open>Reading values back\<close>

text \<open>What \<open>json.dumps\<close> writes without an exception and \<open>json.loads\<close> reads without a change: integers
  within the digit limit, floats as \<open>repr\<close> prints them, text without surrogates, no key twice.\<close>

fun writable :: "json \<Rightarrow> bool" where
  "writable JNull = True"
| "writable (JBool b) = True"
| "writable (JInt i) = (length (dec_nat (nat \<bar>i\<bar>)) \<le> MAX_STR_DIGITS)"
| "writable (JFloat r) = float_text r"
| "writable (JStr s) = list_all plain_point s"
| "writable (JArr xs) = list_all writable xs"
| "writable (JObj kvs) = (distinct (map fst kvs) \<and> list_all (\<lambda>(k, v). list_all plain_point k \<and> writable v) kvs)"

text \<open>The value read back: keys in the order they were written, each float by its numeral.\<close>

fun reread :: "(string \<Rightarrow> string) \<Rightarrow> bool \<Rightarrow> json \<Rightarrow> json" where
  "reread canon srt (JFloat r) = JFloat (if r \<in> float_words then r else canon r)"
| "reread canon srt (JArr xs) = JArr (map (reread canon srt) xs)"
| "reread canon srt (JObj kvs) =
     JObj (if srt then sort_key fst (map (\<lambda>(k, v). (k, reread canon srt v)) kvs) else map (\<lambda>(k, v). (k, reread canon srt v)) kvs)"
| "reread canon srt JNull = JNull"
| "reread canon srt (JBool b) = JBool b"
| "reread canon srt (JInt i) = JInt i"
| "reread canon srt (JStr s) = JStr s"

definition item_seps :: "string set" where "item_seps = {'','', '', ''}"

definition key_seps :: "string set" where "key_seps = {'':'', '': ''}"

definition starts_value :: "utext \<Rightarrow> bool" where
  "starts_value s \<longleftrightarrow> s \<noteq> [] \<and> \<not> is_ws (hd s) \<and> hd s \<notin> {93, 125}"

lemma skip_starts: "starts_value s \<Longrightarrow> skip_ws (s @ rest) = s @ rest"
  by (cases s) (simp_all add: starts_value_def skip_ws_def)

lemma scan_number_starts: "scan_number s = Some p \<Longrightarrow> starts_value s"
  using scan_number_head [of s p] by (auto simp: starts_value_def is_ws_def is_dec_def)

lemma str_int_starts: "starts_value (ascii (str_int i))"
  using scan_number_int [of "[]" i] scan_number_starts by (simp add: delimited_def)

lemma dump_str_starts: "starts_value (ascii (dump_str s))"
  by (simp add: dump_str_def ascii_def starts_value_def is_ws_def)

lemma dumps_starts: "writable j \<Longrightarrow> starts_value (ascii (dumps_as isep ksep srt j))"
proof (cases j)
  case (JFloat r)
  assume "writable j"
  then have "r \<in> float_words \<or> (\<exists>p. scan_number (ascii r) = Some p)"
    using JFloat by (auto simp: float_text_def split: option.splits)
  then show ?thesis
  proof
    assume "r \<in> float_words"
    then show ?thesis using JFloat by (auto simp: float_words_def ascii_def starts_value_def is_ws_def)
  qed (use JFloat scan_number_starts in auto)
qed (simp_all add: str_int_starts dump_str_starts, simp_all add: ascii_def starts_value_def is_ws_def)

text \<open>\<open>D\<close> writes \<open>x\<close> so that it is read back as \<open>R x\<close>.\<close>

definition reads :: "(string \<Rightarrow> string) \<Rightarrow> string \<Rightarrow> json \<Rightarrow> bool" where
  "reads canon s v \<longleftrightarrow> starts_value (ascii s) \<and> (\<forall>rest. delimited rest \<longrightarrow> scan_value canon (ascii s @ rest) = Inr (v, rest))"

lemma skip_delimited: "delimited rest \<Longrightarrow> skip_ws rest = rest"
  by (cases rest) (auto simp: delimited_def skip_ws_def is_ws_def)

lemma item_sep: "isep \<in> item_seps \<Longrightarrow> starts_value s \<Longrightarrow> \<exists>r. ascii isep @ s @ rest = 44 # r \<and> skip_ws r = s @ rest"
  using skip_starts [of s rest] by (auto simp: item_seps_def ascii_def skip_ws_def is_ws_def)

lemma join_starts:
  assumes "xs \<noteq> []" and "starts_value (ascii (hd xs))"
  shows "starts_value (ascii (join isep xs))"
proof -
  have "\<exists>r. join isep xs = hd xs @ r" using assms(1) by (cases "(isep, xs)" rule: join.cases) auto
  then obtain r where "ascii (join isep xs) = ascii (hd xs) @ ascii r" by force
  then show ?thesis using assms(2) by (auto simp: starts_value_def)
qed

lemma scan_items_join:
  assumes "isep \<in> item_seps" and "xs \<noteq> []" and "list_all2 (reads canon) xs vs"
  shows "scan_items canon (ascii (join isep xs) @ 93 # rest) = Inr (vs, rest)"
  using assms(2,3)
proof (induction xs arbitrary: vs rule: list_nonempty_induct)
  case (single x)
  then obtain v where "vs = [v]" "reads canon x v" by (auto simp: list_all2_Cons1)
  moreover have "delimited (93 # rest)" by (simp add: delimited_def)
  ultimately show ?case
    by (subst scan_items.simps) (simp add: reads_def skip_delimited)
next
  case (cons x xs)
  then obtain v vs' where vs: "vs = v # vs'" "reads canon x v" "list_all2 (reads canon) xs vs'"
    by (auto simp: list_all2_Cons1)
  let ?more = "ascii (join isep xs)"
  have "starts_value ?more"
    using cons.hyps vs(3) by (intro join_starts) (auto simp: neq_Nil_conv list_all2_Cons1 reads_def)
  then obtain r where r: "ascii isep @ ?more @ 93 # rest = 44 # r" "skip_ws r = ?more @ 93 # rest"
    using item_sep [OF assms(1)] by blast
  have joined: "join isep (x # xs) = x @ isep @ join isep xs" using cons.hyps by (cases xs) simp_all
  have "delimited (44 # r)" by (simp add: delimited_def)
  then have val: "scan_value canon (ascii x @ 44 # r) = Inr (v, 44 # r)" "skip_ws (44 # r) = 44 # r"
    using vs(2) by (simp_all add: reads_def skip_delimited)
  have "scan_items canon (?more @ 93 # rest) = Inr (vs', rest)" using cons.IH vs(3) .
  then show ?case
    using r val by (subst scan_items.simps) (simp add: joined vs(1))
qed

definition member_reads :: "(string \<Rightarrow> string) \<Rightarrow> string \<Rightarrow> string \<Rightarrow> utext \<times> json \<Rightarrow> bool" where
  "member_reads canon ksep s kv \<longleftrightarrow>
     (\<exists>t. s = dump_str (fst kv) @ ksep @ t \<and> list_all plain_point (fst kv) \<and> reads canon t (snd kv))"

lemma member_starts: "member_reads canon ksep s kv \<Longrightarrow> starts_value (ascii s)"
  using dump_str_starts [of "fst kv"] by (auto simp: member_reads_def starts_value_def)

lemma scan_member:
  assumes "member_reads canon ksep s (k, v)" and "ksep \<in> key_seps" and "delimited rest"
  shows "\<exists>cs r. ascii s @ rest = 34 # cs \<and> scan_string cs = Some (k, r) \<and> take 1 (skip_ws r) = [58] \<and>
    scan_value canon (skip_ws (drop 1 (skip_ws r))) = Inr (v, rest)"
proof -
  obtain t where s: "s = dump_str k @ ksep @ t" and k: "list_all plain_point k" and t: "reads canon t v"
    using assms(1) by (auto simp: member_reads_def)
  let ?r = "ascii ksep @ ascii t @ rest"
  obtain cs where cs: "ascii (dump_str k) @ ?r = 34 # cs" "scan_string cs = Some (k, ?r)"
    using scan_dump_str [OF k] by blast
  have "take 1 (skip_ws ?r) = [58]" "skip_ws (drop 1 (skip_ws ?r)) = skip_ws (ascii t @ rest)"
    using assms(2) by (auto simp: key_seps_def ascii_def skip_ws_def is_ws_def)
  moreover have "scan_value canon (skip_ws (ascii t @ rest)) = Inr (v, rest)"
    using t assms(3) skip_starts [of "ascii t" rest] by (simp add: reads_def)
  ultimately show ?thesis using cs by (simp add: s)
qed

lemma scan_pairs_join:
  assumes "isep \<in> item_seps" and "ksep \<in> key_seps" and "xs \<noteq> []" and "list_all2 (member_reads canon ksep) xs kvs"
  shows "scan_pairs canon (ascii (join isep xs) @ 125 # rest) = Inr (kvs, rest)"
  using assms(3,4)
proof (induction xs arbitrary: kvs rule: list_nonempty_induct)
  case (single x)
  then obtain k v where kv: "kvs = [(k, v)]" "member_reads canon ksep x (k, v)" by (auto simp: list_all2_Cons1)
  have "delimited (125 # rest)" by (simp add: delimited_def)
  then obtain cs r where "ascii x @ 125 # rest = 34 # cs" "scan_string cs = Some (k, r)" "take 1 (skip_ws r) = [58]"
    "scan_value canon (skip_ws (drop 1 (skip_ws r))) = Inr (v, 125 # rest)" "skip_ws (125 # rest) = 125 # rest"
    using scan_member [OF kv(2) assms(2)] skip_delimited by blast
  then show ?case by (subst scan_pairs.simps) (simp add: kv(1))
next
  case (cons x xs)
  then obtain k v kvs' where kv: "kvs = (k, v) # kvs'" "member_reads canon ksep x (k, v)" "list_all2 (member_reads canon ksep) xs kvs'"
    by (auto simp: list_all2_Cons1)
  let ?more = "ascii (join isep xs)"
  have "starts_value ?more"
    using cons.hyps kv(3) member_starts by (intro join_starts) (auto simp: neq_Nil_conv list_all2_Cons1)
  then obtain r' where r': "ascii isep @ ?more @ 125 # rest = 44 # r'" "skip_ws r' = ?more @ 125 # rest"
    using item_sep [OF assms(1)] by blast
  have "delimited (44 # r')" by (simp add: delimited_def)
  then obtain cs r where member: "ascii x @ 44 # r' = 34 # cs" "scan_string cs = Some (k, r)" "take 1 (skip_ws r) = [58]"
    "scan_value canon (skip_ws (drop 1 (skip_ws r))) = Inr (v, 44 # r')" "skip_ws (44 # r') = 44 # r'"
    using scan_member [OF kv(2) assms(2)] skip_delimited by blast
  have "length (ascii x @ 44 # r') = Suc (length cs)" using member(1) by (metis length_Cons)
  then have shorter: "length r' < Suc (length cs)" by simp
  have joined: "ascii (join isep (x # xs)) @ 125 # rest = 34 # cs"
    using cons.hyps r'(1) member(1) by (cases xs) simp_all
  have "scan_pairs canon (?more @ 125 # rest) = Inr (kvs', rest)" using cons.IH kv(3) .
  then show ?case
    unfolding joined using r'(2) member shorter by (subst scan_pairs.simps) (simp add: kv(1))
qed

lemma sort_key_map_snd:
  "sort_key fst (map (\<lambda>x. (fst x, f x)) xs) = map (\<lambda>x. (fst x, f x)) (sort_key fst xs)"
proof -
  have step: "insort_key fst (fst x, f x) (map (\<lambda>x. (fst x, f x)) ys) = map (\<lambda>x. (fst x, f x)) (insort_key fst x ys)"
    for x ys by (induction ys) simp_all
  show ?thesis
  proof (induction xs)
    case (Cons x xs)
    show ?case by (simp only: list.map sort_key_simps Cons.IH step)
  qed simp
qed

lemma dict_of_distinct: "distinct (map fst kvs) \<Longrightarrow> dict_of kvs = kvs"
proof (induction kvs rule: rev_induct)
  case (snoc kv kvs)
  then show ?case by (cases kv) (simp add: dict_of_def dict_set_new)
qed (simp add: dict_of_def)

lemma scan_value_array:
  assumes "isep \<in> item_seps" and "list_all2 (reads canon) xs vs"
  shows "reads canon (''['' @ join isep xs @ '']'') (JArr vs)"
proof -
  have "scan_value canon (91 # ascii (join isep xs) @ 93 # rest) = Inr (JArr vs, rest)" for rest
  proof (cases "xs = []")
    case True
    then show ?thesis using assms(2) by (subst scan_value.simps) (simp add: skip_ws_def is_ws_def)
  next
    case False
    have "starts_value (ascii (join isep xs))"
      using False assms(2) by (intro join_starts) (auto simp: neq_Nil_conv list_all2_Cons1 reads_def)
    then have "skip_ws (ascii (join isep xs) @ 93 # rest) = ascii (join isep xs) @ 93 # rest" "take 1 (ascii (join isep xs) @ 93 # rest) \<noteq> [93]"
      using skip_starts by (auto simp: starts_value_def neq_Nil_conv)
    then show ?thesis
      using scan_items_join [OF assms(1) False assms(2), of rest] by (subst scan_value.simps) simp
  qed
  then show ?thesis by (simp add: reads_def starts_value_def ascii_def is_ws_def)
qed

lemma scan_value_object:
  assumes "isep \<in> item_seps" and "ksep \<in> key_seps" and "list_all2 (member_reads canon ksep) xs kvs" and "distinct (map fst kvs)"
  shows "reads canon (''{'' @ join isep xs @ ''}'') (JObj kvs)"
proof -
  have "scan_value canon (123 # ascii (join isep xs) @ 125 # rest) = Inr (JObj kvs, rest)" for rest
  proof (cases "xs = []")
    case True
    then show ?thesis using assms(3) by (subst scan_value.simps) (simp add: skip_ws_def is_ws_def)
  next
    case False
    have "starts_value (ascii (join isep xs))"
      using False assms(3) member_starts by (intro join_starts) (auto simp: neq_Nil_conv list_all2_Cons1)
    then have "skip_ws (ascii (join isep xs) @ 125 # rest) = ascii (join isep xs) @ 125 # rest"
      "take 1 (ascii (join isep xs) @ 125 # rest) \<noteq> [125]"
      using skip_starts by (auto simp: starts_value_def neq_Nil_conv)
    then show ?thesis
      using scan_pairs_join [OF assms(1,2) False assms(3), of rest] dict_of_distinct [OF assms(4)]
      by (subst scan_value.simps) simp
  qed
  then show ?thesis by (simp add: reads_def starts_value_def ascii_def is_ws_def)
qed

lemma scan_value_plain: "s \<noteq> [] \<Longrightarrow> hd s \<notin> {34, 123, 91} \<Longrightarrow> scan_value canon s = scan_plain canon s"
  by (cases s) (simp_all add: scan_value.simps)

lemma numeral_plain:
  assumes "scan_number (ascii s @ rest) = Some p"
  shows "scan_value canon (ascii s @ rest) = scan_plain canon (ascii s @ rest)"
  using scan_number_head [OF assms] by (intro scan_value_plain) (auto simp: is_dec_def)

lemma int_reads:
  assumes "length (dec_nat (nat \<bar>i\<bar>)) \<le> MAX_STR_DIGITS"
  shows "reads canon (str_int i) (JInt i)"
proof -
  have "length (filter is_dec (ascii (str_int i))) \<le> length (dec_nat (nat \<bar>i\<bar>))"
  proof (cases "i < 0")
    case True
    then show ?thesis
      using length_filter_le [of is_dec "ascii (dec_nat (nat (- i)))"] by (simp add: str_int_def ascii_def is_dec_def)
  next
    case False
    then show ?thesis
      using length_filter_le [of is_dec "ascii (dec_nat (nat i))"] by (simp add: str_int_def)
  qed
  then show ?thesis
    using assms numeral_plain [OF scan_number_int]
    by (simp add: reads_def str_int_starts scan_plain_number [OF scan_number_int] int_value_of)
qed

lemma float_reads:
  assumes "float_text r"
  shows "reads canon r (JFloat (if r \<in> float_words then r else canon r))"
proof -
  have "scan_value canon (ascii r @ rest) = scan_plain canon (ascii r @ rest)" if "delimited rest" for rest
  proof (cases "r \<in> float_words")
    case True
    then show ?thesis by (intro scan_value_plain) (auto simp: float_words_def ascii_def)
  next
    case False
    then obtain w f e where "scan_number (ascii r) = Some (w, f, e, [])"
      using assms by (auto simp: float_text_def split: option.splits)
    then show ?thesis using scan_number_extend [OF _ that] numeral_plain by blast
  qed
  then show ?thesis
    using dumps_starts [of "JFloat r"] scan_plain_float [OF assms] by (simp add: reads_def assms)
qed

lemma word_reads: "reads canon ''null'' JNull" "reads canon ''true'' (JBool True)" "reads canon ''false'' (JBool False)"
  by (simp_all add: reads_def starts_value_def ascii_def is_ws_def scan_value.simps scan_plain_def word_at_def)

lemma dumps_reads:
  assumes "writable j" and seps: "isep \<in> item_seps" "ksep \<in> key_seps"
  shows "reads canon (dumps_as isep ksep srt j) (reread canon srt j)"
  using assms(1)
proof (induction j)
  case (JArr xs)
  then have "list_all2 (reads canon) (map (dumps_as isep ksep srt) xs) (map (reread canon srt) xs)"
    by (simp add: list_all2_map1 list_all2_map2 list.rel_refl_strong list_all_iff)
  from scan_value_array [OF seps(1) this] show ?case by simp
next
  case (JObj kvs)
  let ?f = "dumps_as isep ksep srt" and ?R = "reread canon srt"
  let ?text = "\<lambda>kv. dump_str (fst kv) @ ksep @ ?f (snd kv)" and ?item = "\<lambda>kv. (fst kv, ?R (snd kv))"
  have all: "list_all2 (member_reads canon ksep) (map ?text xs) (map ?item xs)" if "set xs = set kvs" for xs
    using JObj that by (fastforce simp: list_all2_map1 list_all2_map2 member_reads_def list_all_iff intro!: list.rel_refl_strong)
  have "distinct (map fst (map ?item (sort_key fst kvs)))" "distinct (map fst (map ?item kvs))"
    using JObj.prems by (simp_all add: comp_def distinct_map)
  with scan_value_object [OF seps all] show ?case
    by (cases srt) (simp_all add: case_prod_unfold sort_key_map_snd comp_def)
next
  case (JStr s)
  have "scan_value canon (ascii (dump_str s) @ rest) = Inr (JStr s, rest)" for rest
  proof -
    obtain r where "ascii (dump_str s) @ rest = 34 # r" "scan_string r = Some (s, rest)"
      using scan_dump_str [of s rest] JStr by auto
    then show ?thesis by (simp add: scan_value.simps)
  qed
  then show ?case by (simp add: reads_def dump_str_starts)
qed (simp_all add: int_reads float_reads word_reads)

theorem loads_dumps:
  assumes "writable j" and "isep \<in> item_seps" and "ksep \<in> key_seps"
  shows "loads canon (ascii (dumps_as isep ksep srt j)) = Inr (reread canon srt j)"
proof -
  let ?s = "ascii (dumps_as isep ksep srt j)"
  have s: "reads canon (dumps_as isep ksep srt j) (reread canon srt j)" using dumps_reads [OF assms] .
  then have "scan_value canon ?s = Inr (reread canon srt j, [])" and "starts_value ?s"
    by (simp_all add: reads_def delimited_def)
  moreover have "take 1 ?s \<noteq> [65279]"
  proof -
    have "c < 256" if "c \<in> set ?s" for c using that by (auto simp: ascii_def)
    then show ?thesis by (cases ?s) force+
  qed
  ultimately show ?thesis using skip_starts [of ?s "[]"] by (simp add: loads_def skip_ws_def)
qed

end
