(* ===== verification/Agent_Trigger.thy ===== *)
theory Agent_Trigger
  imports Agent_Graph Json_Reader
begin

text \<open>
  The process that runs diagnoses (\<open>relay/agent/trigger.py\<close>): the budget claims in Redis, the
  reaction to a breaker event, and the loop over the messages of the channel.  What arrives on
  the channel is an input: the text of each message.
\<close>

section \<open>Budgets\<close>

definition AGENT_RECONNECT_BASE_DELAY_S :: rat where "AGENT_RECONNECT_BASE_DELAY_S = 1"
definition AGENT_RECONNECT_MAX_DELAY_S :: rat where "AGENT_RECONNECT_MAX_DELAY_S = 15"

definition per_hour_seconds :: "settings \<Rightarrow> int" where
  "per_hour_seconds cfg = max 1 (3600 div max 1 (agent_max_runs_per_endpoint_per_hour cfg))"

text \<open>\<open>SET key 1 NX EX n\<close> on the endpoint's key.\<close>

definition claim_key :: "settings \<Rightarrow> rat \<Rightarrow> string rkey \<Rightarrow> bool \<times> string rkey" where
  "claim_key cfg t key = set_nx t ''1'' (of_int (per_hour_seconds cfg)) key"

text \<open>\<open>INCR\<close> and \<open>EXPIRE\<close> on the day's key.\<close>

definition incr_key :: "rat \<Rightarrow> int rkey \<Rightarrow> int \<times> int rkey" where
  "incr_key t key = (case live t key of None \<Rightarrow> (1, Some (1, None)) | Some (n, e) \<Rightarrow> (n + 1, Some (n + 1, e)))"

definition DAILY_TTL_S :: rat where "DAILY_TTL_S = 86400 * 2"

definition claim_endpoint :: "uuid \<Rightarrow> bool proc" where
  "claim_endpoint endpoint_id =
     bind settings_of (\<lambda>cfg.
     redis (Budget_claim endpoint_id) (\<lambda>s. case claim_key cfg (sh_now s) (sh_claims s endpoint_id) of (claimed, key) \<Rightarrow>
       (claimed, s\<lparr>sh_claims := (sh_claims s)(endpoint_id := key)\<rparr>)))"

definition count_day :: "string \<Rightarrow> int proc" where
  "count_day day =
     redis (Budget_used day) (\<lambda>s. case incr_key (sh_now s) (sh_daily s day) of (used, key) \<Rightarrow>
       (used, s\<lparr>sh_daily := (sh_daily s)(day := key)\<rparr>))"

definition claim_budget :: "uuid \<Rightarrow> (bool \<times> string option) proc" where
  "claim_budget endpoint_id =
     bind settings_of (\<lambda>cfg.
     bind (claim_endpoint endpoint_id) (\<lambda>claimed.
     if \<not> claimed then return (False, Some ''endpoint_rate_limited'')
     else bind time_time (\<lambda>now. let day = day_text (day_number now) in
          bind (count_day day) (\<lambda>used.
          seq (only_if (used = 1)
                (redis_unit (Budget_expire day)
                  (\<lambda>s. s\<lparr>sh_daily := (sh_daily s)(day := expire (sh_now s) DAILY_TTL_S (sh_daily s day))\<rparr>)))
              (if used > agent_max_runs_per_day cfg
               then seq (redis_unit (Budget_back endpoint_id) (\<lambda>s. s\<lparr>sh_claims := (sh_claims s)(endpoint_id := None)\<rparr>))
                        (return (False, Some ''daily_budget_exhausted''))
               else return (True, None))))))"

section \<open>One diagnosis\<close>

definition outcome_label :: "json \<Rightarrow> string" where
  "outcome_label j = (case j of JStr s \<Rightarrow> utf8 s | _ \<Rightarrow> [])"

text \<open>A counter refuses a negative increment.\<close>

definition diagnose_and_record :: "outside \<Rightarrow> uuid \<Rightarrow> string \<Rightarrow> uuid option proc" where
  "diagnose_and_record ext endpoint_id triggered_by =
     try_except
       (bind (with_session (run_diagnosis ext endpoint_id triggered_by)) (\<lambda>st.
        let outcome = (case run_result st of None \<Rightarrow> [] | Some r \<Rightarrow> r) in
        bind settings_of (\<lambda>cfg.
        seq (count_metric (M_agent_run (outcome_label (dict_get ''root_cause'' (js ''agent_error'') outcome))))
       (seq (if cost_usd cfg st < 0 then raise Value_error else count_metric (M_agent_cost (cost_usd cfg st)))
            (return (Some (s_diagnosis st)))))))
       (\<lambda>exc. seq (count_metric (M_agent_run ''agent_error'')) (return None))"

section \<open>Events\<close>

text \<open>The messages the breaker publishes: \<open>cjson.encode\<close> in its script (the encoder of Redis, whose
  spacing, key order and number format are its own), \<open>json.dumps\<close> in \<open>record_outcome\<close>.\<close>

definition breaker_message :: "outside \<Rightarrow> breaker_event \<Rightarrow> utext" where
  "breaker_message ext ev = (case ev of
     Transition p fr to t n \<Rightarrow> cjson_text ext (jdict
       [(''endpoint_id'', js (uuid_str p)), (''from_state'', js (breaker_word fr)), (''to_state'', js (breaker_word to)),
        (''at'', JFloat (float_repr ext t)), (''consecutive'', JInt n)])
   | Consecutive_failures p n t \<Rightarrow> ascii (dumps_as '', '' '': '' False (JObj (jdict
       [(''endpoint_id'', js (uuid_str p)), (''trigger'', js ''consecutive_failures''), (''consecutive'', JInt n),
        (''at'', JFloat (float_repr ext t))]))))"

definition parse_event :: "(string \<Rightarrow> string) \<Rightarrow> utext \<Rightarrow> load_error + json" where
  "parse_event canon payload = loads canon payload"

definition triggered_by_of :: "dict \<Rightarrow> string option" where
  "triggered_by_of event =
     (if map_of event (ascii ''to_state'') = Some (js ''open'') then Some ''breaker_open''
      else if map_of event (ascii ''trigger'') = Some (js ''consecutive_failures'') then Some ''consecutive_failures''
      else None)"

text \<open>\<open>uuid.UUID(event["endpoint_id"])\<close>: the constructor wants text.\<close>

definition endpoint_id_of :: "dict \<Rightarrow> uuid proc" where
  "endpoint_id_of event = (case map_of event (ascii ''endpoint_id'') of
     None \<Rightarrow> raise Key_error
   | Some JNull \<Rightarrow> raise Type_error
   | Some (JStr s) \<Rightarrow> (case uuid_parse (utf8 s) of None \<Rightarrow> raise Value_error | Some u \<Rightarrow> return u)
   | Some _ \<Rightarrow> raise Attribute_error)"

text \<open>\<open>JSONDecodeError\<close> is a \<open>ValueError\<close>, but the digit limit's \<open>ValueError\<close> is none.\<close>

definition handle_breaker_event :: "outside \<Rightarrow> utext \<Rightarrow> unit proc" where
  "handle_breaker_event ext payload = (case loads (float_canon ext) payload of
     Inl Decode_error \<Rightarrow> return ()
   | Inl Digits_error \<Rightarrow> raise Value_error
   | Inr (JObj event) \<Rightarrow>
       (case triggered_by_of event of
          None \<Rightarrow> return ()
        | Some triggered_by \<Rightarrow>
            bind (endpoint_id_of event) (\<lambda>endpoint_id.
            bind (claim_budget endpoint_id) (\<lambda>(allowed, reason).
            if \<not> allowed then count_metric (M_agent_run (''skipped_'' @ (case reason of None \<Rightarrow> ''None'' | Some r \<Rightarrow> r)))
            else bind (diagnose_and_record ext endpoint_id triggered_by) (\<lambda>_. return ()))))
   | Inr _ \<Rightarrow> raise Attribute_error)"

section \<open>The loop\<close>

text \<open>\<open>inbox\<close>: the message each poll of the channel returns, if any.\<close>

type_synonym inbox = "nat \<Rightarrow> utext option"

definition poll_channel :: "outside \<Rightarrow> inbox \<Rightarrow> unit proc" where
  "poll_channel ext inbox =
     bind next_draw (\<lambda>n.
     bind (redis (\<lambda>_. Redis_read) (\<lambda>s. (inbox n, s))) (\<lambda>message. case message of
       None \<Rightarrow> return ()
     | Some payload \<Rightarrow> handle_breaker_event ext payload))"

fun poll_times :: "nat \<Rightarrow> outside \<Rightarrow> inbox \<Rightarrow> unit proc" where
  "poll_times 0 ext inbox = return ()"
| "poll_times (Suc n) ext inbox = seq (poll_channel ext inbox) (poll_times n ext inbox)"

text \<open>One subscription with at most \<open>n\<close> polls; the answer says whether Redis failed, after which
  the loop subscribes again.\<close>

definition subscription :: "nat \<Rightarrow> outside \<Rightarrow> inbox \<Rightarrow> bool proc" where
  "subscription n ext inbox =
     try_finally
       (except_in {Redis_error, Os_error}
         (seq (redis_unit Redis_read id)
         (seq (modify_local (\<lambda>l. l\<lparr>delay_var := AGENT_RECONNECT_BASE_DELAY_S\<rparr>))
         (seq (poll_times n ext inbox) (return False))))
         (\<lambda>exc. seq (backoff AGENT_RECONNECT_MAX_DELAY_S) (return True)))
       (suppress (redis_unit Redis_read id))"

text \<open>The loop until \<open>stop\<close> is set: \<open>polls\<close> is how many polls each subscription makes before.\<close>

fun subscriptions :: "nat list \<Rightarrow> outside \<Rightarrow> inbox \<Rightarrow> unit proc" where
  "subscriptions [] ext inbox = return ()"
| "subscriptions (n # polls) ext inbox =
     bind (subscription n ext inbox) (\<lambda>failed. if failed then subscriptions polls ext inbox else return ())"

definition run_trigger :: "nat list \<Rightarrow> outside \<Rightarrow> inbox \<Rightarrow> unit proc" where
  "run_trigger polls ext inbox =
     seq (modify_local (\<lambda>l. l\<lparr>delay_var := AGENT_RECONNECT_BASE_DELAY_S\<rparr>)) (subscriptions polls ext inbox)"

end
