(* ===== verification/Agent_Safety.thy ===== *)
theory Agent_Safety
  imports Agent_Trigger Guarded
begin

text \<open>
  What the diagnosis agent may do: whatever the model answers, a run writes its own stub diagnosis,
  the result into that row, and actions that wait for approval; it sends probes, reads, and asks
  the model.  The rules of \<^theory_text>\<open>Guarded\<close> carry this through the tools, the workflow and the loop.
\<close>

section \<open>What is allowed\<close>

text \<open>\<open>tr\<close> shows that this process committed a new diagnosis \<open>g\<close> of endpoint \<open>p\<close>.\<close>

definition began :: "uuid \<Rightarrow> uuid \<Rightarrow> action list \<Rightarrow> bool" where
  "began g p tr \<longleftrightarrow> (\<exists>ws d x. Committed ws d \<in> set tr \<and> Ins_diagnosis x \<in> set ws \<and> dg_id x = g \<and> dg_endpoint_id x = p)"

definition fills_in :: "(diagnosis \<Rightarrow> diagnosis) \<Rightarrow> bool" where
  "fills_in f \<longleftrightarrow> (\<forall>x. dg_id (f x) = dg_id x \<and> dg_endpoint_id (f x) = dg_endpoint_id x \<and> dg_status (f x) = dg_status x)"

fun agent_write_ok :: "action list \<Rightarrow> db_write \<Rightarrow> bool" where
  "agent_write_ok tr (Ins_diagnosis x) = (dg_root_cause x = ''agent_error'' \<and> dg_confidence x = Low \<and> dg_status x = DOpen)"
| "agent_write_ok tr (Upd_diagnosis g f) = ((\<exists>p. began g p tr) \<and> fills_in f)"
| "agent_write_ok tr (Ins_action c) = (began (ac_diagnosis_id c) (ac_endpoint_id c) tr \<and> ac_status c = APending \<and> ac_decided_at c = None)"
| "agent_write_ok tr w = False"

fun agent_act_ok :: "action list \<Rightarrow> action \<Rightarrow> bool" where
  "agent_act_ok tr (Committed ws d) = list_all (agent_write_ok tr) ws"
| "agent_act_ok tr (Queried d) = True"
| "agent_act_ok tr Rolled_back = True"
| "agent_act_ok tr (Select_endpoint p r) = True"
| "agent_act_ok tr (Breaker_read p) = True"
| "agent_act_ok tr Redis_read = True"
| "agent_act_ok tr (Posted rq r) = (\<exists>t. rq_body rq = serialize_payload (probe_payload t))"
| "agent_act_ok tr Llm_called = True"
| "agent_act_ok tr (Dns_tls_checked h) = True"
| "agent_act_ok tr (Slept d) = True"
| "agent_act_ok tr (Budget_claim p b) = True"
| "agent_act_ok tr (Budget_used day n) = True"
| "agent_act_ok tr (Budget_expire day) = True"
| "agent_act_ok tr (Budget_back p) = True"
| "agent_act_ok tr a = False"

lemma began_Cons: "began g p tr \<Longrightarrow> began g p (a # tr)"
  unfolding began_def by (metis list.set_intros(2))

lemma agent_write_later: "agent_write_ok tr w \<Longrightarrow> agent_write_ok (a # tr) w"
  by (cases w) (auto intro: began_Cons)

interpretation agent: guarded_work agent_write_ok agent_act_ok "\<lambda>_. True"
  by unfold_locales (auto simp: agent_write_later)

text \<open>The same once diagnosis \<open>g\<close> of endpoint \<open>p\<close> was begun.\<close>

interpretation begun: guarded_work agent_write_ok agent_act_ok "began g p" for g p
  by unfold_locales (rule began_Cons)

abbreviation confined_agent :: "action list \<Rightarrow> bool" where
  "confined_agent \<equiv> all_ok agent_act_ok"

section \<open>The model and the tools\<close>

lemma create_up: "begun.up g p (create llm cache system messages tools)"
proof -
  have ask: "begun.up g p (ainvoke llm tools ms)" for tools ms
    unfolding ainvoke_def
    by (intro begun.up_control begun.up_effect)
      (auto simp: log_action_def intro: begun.fine_logged begun.up_raise begun.up_return split: sum.split)
  have attempts: "begun.up g p (create_attempts n delay llm tools ms)" for n delay tools ms
    by (induction n arbitrary: delay) (auto simp: sleep_def log_action_def intro!: ask begun.up_control begun.up_effect begun.fine_logged)
  have calls: "begun.up g p (call_block c)" for c
    unfolding call_block_def by (intro begun.up_control begun.up_return) (auto split: list.split intro: begun.up_control)
  show ?thesis
    unfolding create_def from_lc_response_def by (intro begun.up_control attempts begun.up_map_proc calls)
qed

lemma endpoint_row_up: "begun.up g p (endpoint_row i)"
  unfolding endpoint_row_def by (intro begun.up_control begun.up_select_endpoint) simp

lemma read_tools_up:
  "begun.up g p (query_attempts ext i n)" "begun.up g p (get_endpoint_config ext i)"
  unfolding query_attempts_def window_start_def get_endpoint_config_def get_breaker_state_def
  by (intro begun.up_control endpoint_row_up begun.up_redis; simp)+

lemma probe_up: "begun.up g p (probe_endpoint i)"
  unfolding probe_endpoint_def send_delivery_def
  by (intro begun.up_control endpoint_row_up begun.up_http_post) (auto simp: delivery_request_def Let_def)

lemma check_up: "begun.up g p (check_dns_tls ext i)"
proof -
  have port: "begun.up g p (url_port u)" for u
    unfolding url_port_def by (auto split: list.split intro: begun.up_control)
  have parse: "begun.up g p (parse_url u)" for u
    unfolding parse_url_def Let_def by (intro begun.up_control port)
  show ?thesis
    unfolding check_dns_tls_def Let_def
    by (intro begun.up_control endpoint_row_up parse begun.up_log)
      (auto split: dns_reply.split intro!: begun.up_control)
qed

lemma request_up: "begun.up g p (request_mutation p g name reason)"
  unfolding request_mutation_def by (intro begun.up_control begun.up_pending) simp

lemma dispatch_up: "begun.up g p (dispatch ext name inp p g)"
proof -
  have "begun.up g p (py_int j)" for j
    unfolding py_int_def
    by (cases j) (auto intro!: begun.up_control split: pyfloat.split)
  then show ?thesis
    unfolding dispatch_def run_tool_def
    by (intro begun.up_control read_tools_up probe_up check_up request_up)
qed

section \<open>The workflow\<close>

text \<open>A state of the run: its identifiers, and \<open>verified\<close> says whether a verification tool was called.\<close>

definition of_run :: "uuid \<Rightarrow> uuid \<Rightarrow> agent_state \<Rightarrow> bool" where
  "of_run g p st \<longleftrightarrow> s_diagnosis st = g \<and> s_endpoint st = p \<and>
     (verified st \<longleftrightarrow> (\<exists>name \<in> set (tool_calls_made st). named name VERIFICATION_TOOLS))"

lemma of_run_updates [simp]:
  "of_run g p (st\<lparr>triage_notes := x\<rparr>) = of_run g p st" "of_run g p (st\<lparr>hypothesis := x\<rparr>) = of_run g p st"
  "of_run g p (st\<lparr>verification_notes := x\<rparr>) = of_run g p st" "of_run g p (st\<lparr>run_result := r\<rparr>) = of_run g p st"
  "of_run g p (st\<lparr>tokens_in := i, tokens_out := j, ai_seen := c\<rparr>) = of_run g p st"
  by (simp_all add: of_run_def)

lemma of_run_noted: "of_run g p st \<Longrightarrow> of_run g p (noted name outcome st)"
  by (auto simp: of_run_def noted_def)

lemma of_run_ids: "of_run g p st \<Longrightarrow> s_endpoint st = p" "of_run g p st \<Longrightarrow> s_diagnosis st = g"
  by (simp_all add: of_run_def)

abbreviation pair_of_run :: "uuid \<Rightarrow> uuid \<Rightarrow> 'a \<times> agent_state \<Rightarrow> bool" where
  "pair_of_run g p \<equiv> (\<lambda>(x, st). of_run g p st)"

lemma call_model_gives: "of_run g p st \<Longrightarrow> gives (pair_of_run g p) (call_model ext system ms tools st)"
  unfolding call_model_def by (intro gives_after gives_prod gives_return) simp

lemma run_tools_gives: "of_run g p st \<Longrightarrow> gives (pair_of_run g p) (run_tools ext uses st)"
proof (induction ext uses st rule: run_tools.induct)
  case (2 ext i name args uses st)
  show ?case
    unfolding run_tools.simps
    by (rule gives_after, rule gives_bind_pair [OF "2.IH"]) (use "2.prems" in \<open>auto intro: gives_return of_run_noted\<close>)
qed (simp add: gives_return)

lemma tool_loop_gives: "of_run g p st \<Longrightarrow> gives (pair_of_run g p) (tool_loop ext system tools left ms st)"
proof (induction ext system tools left ms st rule: tool_loop.induct)
  case (1 ext system tools left ms st)
  show ?case
    unfolding tool_loop.simps [of ext system tools left]
    by (rule gives_after, rule gives_if; rule gives_bind_pair [OF call_model_gives [OF 1(2)]])
      (auto intro!: gives_if gives_return gives_bind_pair [OF run_tools_gives] 1(1))
qed

lemma call_model_up: "begun.up g p (call_model ext system ms tools st)"
  unfolding call_model_def by (intro begun.up_control create_up)

lemma run_tools_up: "of_run g p st \<Longrightarrow> begun.up g p (run_tools ext uses st)"
proof (induction ext uses st rule: run_tools.induct)
  case (2 ext i name args uses st)
  have "begun.up g p (dispatch ext name args (s_endpoint st) (s_diagnosis st))"
    using dispatch_up [of g p ext name args] by (simp add: of_run_ids [OF "2.prems"])
  then show ?case
    unfolding run_tools.simps
    by (intro begun.up_bind begun.up_prod begun.up_return "2.IH" of_run_noted "2.prems")
qed (simp add: begun.up_return)

lemma tool_loop_up: "of_run g p st \<Longrightarrow> begun.up g p (tool_loop ext system tools left ms st)"
proof (induction ext system tools left ms st rule: tool_loop.induct)
  case (1 ext system tools left ms st)
  note step = begun.up_bind_pair [OF call_model_up call_model_gives [OF 1(2)]]
  show ?case
    unfolding tool_loop.simps [of ext system tools left]
    by (rule begun.up_bind, rule begun.up_inputs, rule begun.up_if; rule step)
      (auto intro!: begun.up_if begun.up_return begun.up_bind_pair [OF run_tools_up run_tools_gives] 1(1))
qed

text \<open>The nodes, for both: what they do and what they return.\<close>

definition node_ok :: "uuid \<Rightarrow> uuid \<Rightarrow> (agent_state \<Rightarrow> agent_state proc) \<Rightarrow> bool" where
  "node_ok g p node \<longleftrightarrow> (\<forall>st. of_run g p st \<longrightarrow> begun.up g p (node st) \<and> gives (of_run g p) (node st))"

lemma node_okI:
  "(\<And>st. of_run g p st \<Longrightarrow> begun.up g p (node st)) \<Longrightarrow> (\<And>st. of_run g p st \<Longrightarrow> gives (of_run g p) (node st)) \<Longrightarrow> node_ok g p node"
  by (simp add: node_ok_def)

lemma node_okD: "node_ok g p node \<Longrightarrow> of_run g p st \<Longrightarrow> begun.up g p (node st)"
  "node_ok g p node \<Longrightarrow> of_run g p st \<Longrightarrow> gives (of_run g p) (node st)"
  by (simp_all add: node_ok_def)

lemma node_ok_then: "node_ok g p node \<Longrightarrow> node_ok g p next_node \<Longrightarrow> node_ok g p (\<lambda>st. bind (node st) next_node)"
  by (rule node_okI) (auto dest: node_okD intro: begun.up_bind_gives gives_bind)

lemmas call_model_node = begun.up_bind_pair [OF call_model_up call_model_gives] gives_bind_pair [OF call_model_gives]
lemmas tool_loop_node = begun.up_bind_pair [OF tool_loop_up tool_loop_gives] gives_bind_pair [OF tool_loop_gives]

lemma talking_nodes_ok: "node_ok g p (triage_node ext)" "node_ok g p (hypothesize_node ext)"
  unfolding triage_node_def hypothesize_node_def
  by (rule node_okI; erule call_model_node; simp add: begun.up_return gives_return)+

lemma tool_nodes_ok: "node_ok g p (investigate_node ext)" "node_ok g p (verify_node ext)"
  unfolding investigate_node_def verify_node_def
  by (rule node_okI; rule tool_loop_node; (assumption | auto intro: begun.up_return gives_return))+

text \<open>The last node: an unverified run reports low confidence.\<close>

definition claims_low :: "dict \<Rightarrow> bool" where
  "claims_low r \<longleftrightarrow> map_of r (ascii ''confidence'') = Some (js ''low'')"

definition reported :: "uuid \<Rightarrow> uuid \<Rightarrow> agent_state \<Rightarrow> bool" where
  "reported g p st \<longleftrightarrow> of_run g p st \<and> (\<exists>r. run_result st = Some r \<and> (verified st \<or> claims_low r))"

lemma tool_words [simp]: "ascii ''summary'' \<noteq> ascii ''confidence''" "ascii ''confidence'' \<noteq> ascii ''summary''"
  by (simp_all add: ascii_def)

lemma downgraded_gives: "gives claims_low (downgraded r)"
  unfolding downgraded_def Let_def
  by (auto simp: claims_low_def map_of_dict_set split: json.split intro!: gives_return gives_raise)

lemma no_diagnosis_low: "claims_low no_diagnosis"
  by (simp add: claims_low_def no_diagnosis_def jdict_def ascii_def)

lemma report_node_up: "of_run g p st \<Longrightarrow> begun.up g p (report_node ext st)"
proof -
  have "begun.up g p (downgraded r)" for r
    unfolding downgraded_def Let_def by (auto split: json.split intro: begun.up_return begun.up_raise)
  then show "of_run g p st \<Longrightarrow> begun.up g p (report_node ext st)"
    unfolding report_node_def
    by (intro call_model_node(1) begun.up_option begun.up_bind begun.up_if begun.up_return)
qed

lemma report_node_gives: "of_run g p st \<Longrightarrow> gives (reported g p) (report_node ext st)"
proof -
  have outcome: "gives (\<lambda>r. verified st' \<or> claims_low r) (if verified st' then return r else downgraded r)" for st' r
    using downgraded_gives [of r] by (auto simp: gives_return)
  assume "of_run g p st"
  then show ?thesis
    unfolding report_node_def
    by (rule call_model_node(2))
      (auto intro!: gives_option gives_return gives_bind [OF outcome] simp: reported_def no_diagnosis_low)
qed

lemma run_graph_nodes:
  assumes "of_run g p st"
  shows "begun.up g p (run_graph ext st)" and "gives (reported g p) (run_graph ext st)"
proof -
  let ?before = "\<lambda>st. bind (bind (bind (triage_node ext st) (investigate_node ext)) (hypothesize_node ext)) (verify_node ext)"
  have before: "node_ok g p ?before"
    by (intro node_ok_then talking_nodes_ok tool_nodes_ok)
  have same: "run_graph ext st = bind (?before st) (report_node ext)"
    by (simp add: run_graph_def bind_def fun_eq_iff split: prod.split sum.split)
  show "begun.up g p (run_graph ext st)"
    unfolding same by (rule begun.up_bind_gives [OF node_okD [OF before assms]]) (rule report_node_up)
  show "gives (reported g p) (run_graph ext st)"
    unfolding same by (rule gives_bind [OF node_okD(2) [OF before assms]]) (rule report_node_gives)
qed

section \<open>The run\<close>

text \<open>What a finished run committed last: the result in its own row, with low confidence unless verified.\<close>

definition filed :: "agent_state \<Rightarrow> local_state \<Rightarrow> bool" where
  "filed st l \<longleftrightarrow> (\<exists>ws f d tr. trace l = Committed ws d # tr \<and> Upd_diagnosis (s_diagnosis st) f \<in> set ws \<and>
     (\<not> verified st \<longrightarrow> (\<forall>x. dg_confidence (f x) = Low)))"

lemma ascii_text:
  assumes "is_ascii s"
  shows "decode s = ascii s" and "utf8 (ascii s) = s"
proof -
  have "utf8_points bs = bs" if "\<forall>b \<in> set bs. b < 128" for bs
    using that by (induction bs) auto
  then show "decode s = ascii s"
    using assms by (simp add: decode_def ascii_def is_ascii_def list_all_iff)
  show "utf8 (ascii s) = s"
    using assms by (induction s) (simp_all add: utf8_def ascii_def utf8_point_def is_ascii_def)
qed

lemma low_column: "confidence_column (js ''low'') = Inr Low"
proof -
  have "is_ascii ''low''" by (simp add: is_ascii_def)
  note ascii_text [OF this]
  moreover have "storable (ascii ''low'')" by (simp add: storable_def ascii_def)
  ultimately show ?thesis by (simp add: confidence_column_def text_column_def js_def)
qed

lemma diagnosis_update_ok:
  assumes "diagnosis_update cfg st = Inr f" and "reported g p st"
  shows "fills_in f" and "\<not> verified st \<Longrightarrow> dg_confidence (f x) = Low"
proof -
  obtain r where r: "run_result st = Some r" and low: "verified st \<or> claims_low r"
    using assms(2) by (auto simp: reported_def)
  obtain rc c rec em where c: "confidence_column (dict_get ''confidence'' (js ''low'') r) = Inr c"
    and f: "f = (\<lambda>g. g\<lparr>dg_root_cause := rc, dg_confidence := c, dg_recommendation := rec, dg_draft_email := em,
        dg_cost_usd := round_to 6 (cost_usd cfg st), dg_evidence := evidence_json st r\<rparr>)"
    using assms(1) r by (auto simp: diagnosis_update_def Let_def split: sum.splits if_splits)
  show "fills_in f" using f by (auto simp: fills_in_def)
  assume "\<not> verified st"
  then have "dict_get ''confidence'' (js ''low'') r = js ''low''"
    using low by (simp add: claims_low_def dict_get_def)
  then have "c = Low" using c low_column by simp
  then show "dg_confidence (f x) = Low" using f by auto
qed

lemma persist_result_safe:
  assumes "begun.fine g p l" and "reported g p st"
  shows "safe (persist_result st) (\<lambda>_ l'. begun.fine g p l' \<and> filed st l') (\<lambda>_. begun.fine g p) l"
  unfolding persist_result_def
proof (rule safe_bind, rule safe_inputs(1))
  fix cfg
  have g: "s_diagnosis st = g" using assms(2) by (simp add: reported_def of_run_def)
  show "safe (case diagnosis_update cfg st of Inl e \<Rightarrow> in_session (refused_commit e)
      | Inr f \<Rightarrow> seq (add_pending [Upd_diagnosis (s_diagnosis st) f]) (in_session commit))
      (\<lambda>_ l'. begun.fine g p l' \<and> filed st l') (\<lambda>_. begun.fine g p) l"
  proof (cases "diagnosis_update cfg st")
    case (Inl e)
    have never: "safe (refused_commit e) (\<lambda>_ _. False) (\<lambda>_. begun.fine g p) l"
      by (rule safe_refused_commit) (rule assms(1))
    show ?thesis
      unfolding Inl sum.case
      by (rule safe_in_session, rule safe_mono [OF never]) (use assms(1) in auto)
  next
    case (Inr f)
    note f = diagnosis_update_ok [OF Inr assms(2)]
    let ?l = "l\<lparr>pending := pending l @ [Upd_diagnosis (s_diagnosis st) f]\<rparr>"
    have fine: "begun.fine g p ?l"
      using assms(1) f(1) by (auto simp: begun.fine_def g intro!: agent.allowed_pending)
    have kept: "begun.fine g p (logged (Committed (pending ?l) d) (?l\<lparr>pending := []\<rparr>))" for d
      using fine agent.allowed_committed [of ?l d] began_Cons [of g p] by (simp add: begun.fine_def)
    have "filed st (logged (Committed (pending ?l) d) (?l\<lparr>pending := []\<rparr>))" for d
      unfolding filed_def trace_logged by (intro exI conjI, rule refl) (use f(2) in auto)
    then show ?thesis
      unfolding Inr sum.case
      by (intro safe_seq safe_add_pending safe_in_session safe_commit) (use fine kept in simp_all)
  qed
qed

lemma run_diagnosis_safe:
  assumes "agent.fine l"
  shows "safe (run_diagnosis ext p triggered_by) (\<lambda>st l'. agent.fine l' \<and> filed st l' \<and> (\<exists>g. of_run g p st))
    (\<lambda>_. agent.fine) l"
proof -
  have weaker: "begun.fine g p l' \<Longrightarrow> agent.fine l'" for g l'
    by (simp add: begun.fine_def agent.fine_def)
  have rest: "safe (seq (get_llm (construct_model ext)) (bind (run_graph ext (new_run p g triggered_by)) (\<lambda>st. seq (persist_result st) (return st))))
      (\<lambda>st l'. agent.fine l' \<and> filed st l' \<and> (\<exists>g. of_run g p st)) (\<lambda>_. agent.fine) l'" if "begun.fine g p l'" for g l'
  proof -
    have llm: "begun.up g p (get_llm b)" for b
      unfolding get_llm_def by (intro begun.up_control)
    have new: "of_run g p (new_run p g triggered_by)"
      by (simp add: of_run_def new_run_def)
    note graph = run_graph_nodes [OF new, of ext]
    have run: "safe (run_graph ext (new_run p g triggered_by)) (\<lambda>st l'. begun.fine g p l' \<and> reported g p st) (\<lambda>_. begun.fine g p) l1"
      if "begun.fine g p l1" for l1
      by (rule safeI) (use safe_run [OF begun.upD [OF graph(1) that]] givesD [OF graph(2)] in blast)+
    have filing: "safe (seq (persist_result st) (return st)) (\<lambda>st l'. agent.fine l' \<and> filed st l' \<and> (\<exists>g. of_run g p st)) (\<lambda>_. agent.fine) l1"
      if "begun.fine g p l1 \<and> reported g p st" for st l1
      by (rule safe_seq, rule safe_mono [OF persist_result_safe])
        (use that weaker in \<open>auto simp: reported_def intro!: safe_return\<close>)
    show ?thesis
      by (rule safe_seq, rule safe_mono [OF begun.upD [OF llm that]], rule safe_bind, rule safe_mono [OF run])
        (auto intro: filing weaker)
  qed
  have start: "safe (seq (in_session commit) (seq (get_llm (construct_model ext)) (bind (run_graph ext (new_run p g triggered_by)) (\<lambda>st. seq (persist_result st) (return st)))))
      (\<lambda>st l'. agent.fine l' \<and> filed st l' \<and> (\<exists>g. of_run g p st)) (\<lambda>_. agent.fine) l1"
    if l1: "agent.fine l1" and stub: "Ins_diagnosis (diagnosis_stub p g triggered_by t) \<in> set (pending l1)" for g t l1
  proof -
    have "began g p (trace (logged (Committed (pending l1) d) (l1\<lparr>pending := []\<rparr>)))" for d
      unfolding began_def trace_logged
      by (intro exI [of _ "pending l1"] exI [of _ d] exI [of _ "diagnosis_stub p g triggered_by t"])
        (use stub in \<open>simp add: diagnosis_stub_def\<close>)
    then have begun: "begun.fine g p (logged (Committed (pending l1) d) (l1\<lparr>pending := []\<rparr>))" for d
      using l1 agent.allowed_committed [of l1 d] by (simp add: begun.fine_def agent.fine_def)
    show ?thesis
      by (rule safe_seq, rule safe_in_session, rule safe_commit) (use l1 begun weaker rest in auto)
  qed
  show ?thesis
    unfolding run_diagnosis_def
    by (rule safe_bind, rule safe_uuid4, rule safe_bind, rule safe_inputs(3), rule safe_seq, rule safe_add_pending, rule start)
      (use assms in \<open>auto simp: agent.fine_def agent.allowed_def diagnosis_stub_def\<close>)
qed

end
