(* ===== verification/Agent_Bounds.thy ===== *)
theory Agent_Bounds
  imports Agent_Safety Metered
begin

text \<open>
  How often a run of the diagnosis agent may ask the model: every answer uses up at least one
  of the tool calls of a loop, so the loops end, and \<open>create\<close> retries at most twice.
\<close>

abbreviation asks :: "action \<Rightarrow> bool" where "asks \<equiv> (\<lambda>a. a = Llm_called)"

section \<open>What asks nothing\<close>

lemma keeps_next_draw [keeps_intro]: "keeps J next_draw"
  by (simp add: keeps_def next_draw_def)

lemma keeps_map_proc [keeps_intro]: "(\<And>x. keeps J (f x)) \<Longrightarrow> keeps J (map_proc f xs)"
  by (induction xs) (auto intro: keeps_intro)

lemma keeps_case_sum [keeps_intro]:
  "(\<And>e. keeps J (h e)) \<Longrightarrow> (\<And>x. keeps J (k x)) \<Longrightarrow> keeps J (case s of Inl e \<Rightarrow> h e | Inr x \<Rightarrow> k x)"
  by (cases s) simp_all

lemma call_block_keeps: "keeps J (call_block c)"
  unfolding call_block_def by (auto split: option.split list.split intro!: keeps_intro)

lemma dispatch_free: "spends asks 0 (dispatch ext name inp p g)"
proof (rule spends_none)
  fix c
  let ?J = "on_trace (\<lambda>tr. count_of asks tr \<le> c)"
  have row: "keeps ?J (endpoint_row i)" for i
    unfolding endpoint_row_def by (intro keeps_intro; simp)
  have load: "keeps ?J (load_deliveries q)" for q
    unfolding load_deliveries_def by (intro keeps_intro; simp)
  have query: "keeps ?J (query_attempts ext p n)" "keeps ?J (get_endpoint_config ext p)" for n
    unfolding query_attempts_def window_start_def Let_def get_endpoint_config_def
    by (intro keeps_intro row load; simp)+
  have probe: "keeps ?J (probe_endpoint p)"
    unfolding probe_endpoint_def by (intro keeps_intro row; simp)
  have port: "keeps ?J (url_port u)" for u
    unfolding url_port_def by (auto split: list.split intro: keeps_intro)
  have parse: "keeps ?J (parse_url u)" for u
    unfolding parse_url_def Let_def by (intro keeps_intro port)
  have log: "keeps ?J (modify_local (logged (Dns_tls_checked h)))" for h
    by (simp add: keeps_def modify_local_def)
  have check: "keeps ?J (check_dns_tls ext p)"
    unfolding check_dns_tls_def Let_def
    by (intro keeps_bind keeps_seq keeps_case_prod row parse log keeps_next_draw) (auto split: dns_reply.split intro!: keeps_intro)
  have request: "keeps ?J (request_mutation p g nm reason)" for nm reason
    unfolding request_mutation_def by (intro keeps_intro; simp)
  have int: "keeps ?J (py_int j)" for j
    unfolding py_int_def by (cases j) (auto split: option.split pyfloat.split intro!: keeps_intro)
  show "keeps ?J (dispatch ext name inp p g)"
    unfolding dispatch_def run_tool_def by (intro keeps_try_except keeps_if keeps_bind keeps_return query probe check request int)
qed

section \<open>What asks\<close>

lemma ainvoke_asks: "spends asks 1 (ainvoke llm tools ms)"
proof -
  have draw: "spends asks 0 next_draw" by (rule spends_none) (rule keeps_next_draw)
  show ?thesis
    unfolding ainvoke_def
    by (intro spends_after [OF draw] spends_then spends_effect)
      (auto simp: log_action_def split: sum.split intro: spends_return spends_raise)
qed

lemma create_attempts_asks: "spends asks (Suc n) (create_attempts n delay llm tools ms)"
proof (induction n arbitrary: delay)
  case 0
  then show ?case using ainvoke_asks by simp
next
  case (Suc n)
  have pause: "spends asks 0 (sleep d)" for d
    unfolding sleep_def by (rule spends_effect) (auto simp: log_action_def)
  have again: "spends asks (Suc n) (if is_rate_limit exc then seq (sleep delay) (create_attempts n (delay * 2) llm tools ms) else raise exc)" for exc
    by (rule spends_if) (use spends_seq [OF pause Suc.IH] spends_mono [OF spends_raise] in auto)
  show ?case using spends_try_except [OF ainvoke_asks again] by simp
qed

lemma create_asks: "spends asks 3 (create llm cache system ms tools)"
proof -
  have parse: "spends asks 0 (from_lc_response m)" for m
    unfolding from_lc_response_def by (rule spends_none) (intro keeps_intro keeps_let call_block_keeps)
  have "spends asks (Suc RETRY_MAX) (create llm cache system ms tools)"
    unfolding create_def by (intro spends_then [OF create_attempts_asks] spends_then [OF parse] spends_return)
  then show ?thesis by (simp add: RETRY_MAX_def numeral_3_eq_3)
qed

lemma call_model_asks: "spends asks 3 (call_model ext system ms tools st)"
  unfolding call_model_def by (intro spends_then [OF create_asks] spends_prod spends_return)

lemma run_tools_free: "spends asks 0 (run_tools ext uses st)"
proof (induction ext uses st rule: run_tools.induct)
  case (2 ext i name args uses st)
  show ?case
    unfolding run_tools.simps
    by (rule spends_then [OF dispatch_free], rule spends_then [OF "2.IH"]) (auto intro: spends_return)
qed (simp add: spends_return)

lemma tool_loop_asks: "spends asks (3 * Suc left) (tool_loop ext system tools left ms st)"
proof (induction ext system tools left ms st rule: tool_loop.induct)
  case (1 ext system tools left ms st)
  have free: "spends asks 0 settings_of" by (rule spends_none) (rule keeps_inputs)
  have wrap: "spends asks (3 * Suc left) (bind (call_model ext system ms' [] st) (\<lambda>(r, st). return (text_of r, st)))" for ms'
    by (rule spends_mono, rule spends_then [OF call_model_asks]) (auto intro: spends_return)
  have step: "spends asks (3 + 3 * left) (bind (call_model ext system ms tools st) (\<lambda>(r, st).
      if tool_uses r = [] then return (text_of r, st)
      else bind (run_tools ext (tool_uses r) st) (\<lambda>(results, st). tool_loop ext system tools (left - length (tool_uses r))
        (ms @ [Assistant (content r), Tool_results results]) st)))"
    if more: "\<not> (left = 0 \<or> over_budget cfg st)" for cfg
  proof (rule spends_bind [OF call_model_asks], rule spends_prod, rule spends_if)
    fix r st' assume uses: "tool_uses r \<noteq> []"
    then have less: "3 * Suc (left - length (tool_uses r)) \<le> 3 * left" using more by (cases "tool_uses r") auto
    show "spends asks (3 * left) (bind (run_tools ext (tool_uses r) st') (\<lambda>(results, st). tool_loop ext system tools
        (left - length (tool_uses r)) (ms @ [Assistant (content r), Tool_results results]) st))"
      by (rule spends_after [OF run_tools_free], rule spends_prod, rule spends_mono [OF 1 less])
        (use more uses in auto)
  qed (rule spends_mono [OF spends_return], simp)
  show ?case
    unfolding tool_loop.simps [of ext system tools left]
    by (rule spends_after [OF free], rule spends_if [OF wrap], rule spends_mono [OF step], assumption) simp
qed

section \<open>The whole run\<close>

lemma run_graph_asks: "spends asks 39 (run_graph ext st)"
proof -
  have triage: "spends asks 3 (triage_node ext st)" "spends asks 3 (hypothesize_node ext st)" for st
    unfolding triage_node_def hypothesize_node_def
    by (rule spends_then [OF call_model_asks], rule spends_prod, rule spends_return)+
  have investigate: "spends asks 21 (investigate_node ext st)" and verify: "spends asks 9 (verify_node ext st)" for st
    unfolding investigate_node_def verify_node_def MAX_INVESTIGATE_TOOL_CALLS_def MAX_VERIFY_TOOL_CALLS_def
    by (rule spends_then, rule spends_mono [OF tool_loop_asks], simp, rule spends_prod, rule spends_return)+
  have report: "spends asks 3 (report_node ext st)" for st
    unfolding report_node_def downgraded_def Let_def
    by (rule spends_then [OF call_model_asks], intro spends_prod spends_option spends_then spends_if spends_return)
      (auto split: json.split intro: spends_return spends_raise)
  have "spends asks (3 + (21 + (3 + (9 + 3)))) (run_graph ext st)"
    unfolding run_graph_def by (intro spends_bind triage investigate verify report)
  then show ?thesis by simp
qed

lemma run_diagnosis_asks: "spends asks 39 (run_diagnosis ext p triggered_by)"
proof -
  have persist: "spends asks 0 (persist_result st)" for st
    unfolding persist_result_def by (rule spends_none) (intro keeps_intro; simp)
  have quiet: "spends asks 0 (in_session commit)" "spends asks 0 uuid4" "spends asks 0 db_now" "spends asks 0 (add_pending ws)" for ws
    by (rule spends_none; intro keeps_intro; simp)+
  have llm: "spends asks 0 (get_llm b)" for b
    unfolding get_llm_def by (rule spends_none) (intro keeps_intro)
  have rest: "spends asks 39 (bind (run_graph ext st) (\<lambda>st. seq (persist_result st) (return st)))" for st
    unfolding seq_def by (intro spends_then [OF run_graph_asks] spends_then [OF persist] spends_return)
  show ?thesis
    unfolding run_diagnosis_def seq_def
    by (intro spends_after [OF quiet(2)] spends_after [OF quiet(3)] spends_after [OF quiet(4)] spends_after [OF quiet(1)] spends_after [OF llm])
      (use rest in \<open>simp add: seq_def\<close>)
qed

lemma diagnose_asks: "spends asks 39 (diagnose_and_record ext p triggered_by)"
proof -
  have count: "spends asks 0 (count_metric m)" "spends asks 0 settings_of" for m
    by (rule spends_none; rule keeps_inputs)+
  have "spends asks (39 + 0) (diagnose_and_record ext p triggered_by)"
    unfolding diagnose_and_record_def seq_def Let_def
    by (intro spends_try_except spends_then [OF spends_with_session [OF run_diagnosis_asks]] spends_then [OF count(2)]
        spends_then [OF count(1)] spends_then spends_if spends_return spends_raise count)
  then show ?thesis by simp
qed

end
