(* ===== verification/Agent_Properties.thy ===== *)
theory Agent_Properties
  imports Agent_Bounds Worker_Runs
begin

text \<open>
  The properties of the diagnosis agent: what it may do whatever the model answers, how much it
  asks, what it leaves behind when it fails, and how it reacts to the events of the breaker.
\<close>

section \<open>The process\<close>

lemma run_diagnosis_up: "agent.up (run_diagnosis ext p triggered_by)"
  by (rule agent.upI, rule safe_mono [OF run_diagnosis_safe]) auto

lemma diagnose_up: "agent.up (diagnose_and_record ext p triggered_by)"
  unfolding diagnose_and_record_def Let_def
  by (intro agent.up_control agent.up_with_session run_diagnosis_up)

lemma claim_budget_up: "agent.up (claim_budget p)"
  unfolding claim_budget_def claim_endpoint_def count_day_def Let_def
  by (intro agent.up_control agent.up_redis agent.up_redis_unit) simp_all

lemma handle_breaker_event_up: "agent.up (handle_breaker_event ext payload)"
proof -
  have "agent.up (endpoint_id_of event)" for event
    unfolding endpoint_id_of_def by (auto split: option.split json.split intro: agent.up_raise agent.up_return)
  then show ?thesis
    unfolding handle_breaker_event_def
    by (auto split: option.split json.split sum.split load_error.split intro!: agent.up_raise agent.up_control claim_budget_up diagnose_up)
qed

lemma run_trigger_up: "agent.up (run_trigger polls ext inbox)"
proof -
  have poll: "agent.up (poll_channel ext inbox)"
    unfolding poll_channel_def by (intro agent.up_control agent.up_redis handle_breaker_event_up) simp
  have polls: "agent.up (poll_times n ext inbox)" for n
    by (induction n) (auto intro: agent.up_control poll)
  have delay: "agent.up (modify_local (\<lambda>l. l\<lparr>delay_var := v l\<rparr>))" for v
    by (rule agent.up_modify) simp
  have pause: "agent.up (backoff m)" for m
    unfolding backoff_def sleep_def
    by (intro agent.up_control agent.up_effect delay) (auto simp: log_action_def intro: agent.fine_logged)
  have subscribe: "agent.up (subscription n ext inbox)" for n
    unfolding subscription_def suppress_def
    by (intro agent.up_try_finally agent.up_except_in agent.up_control agent.up_redis_unit polls delay pause) simp_all
  have "agent.up (subscriptions ns ext inbox)" for ns
    by (induction ns) (auto intro!: agent.up_control subscribe)
  then show ?thesis
    unfolding run_trigger_def by (intro agent.up_seq delay)
qed

section \<open>Properties\<close>

text \<open>C8: Whatever the model answers, and whatever fails or interferes, the agent process only
  proposes: every row it writes is a diagnosis that starts as an open, low-confidence
  \<open>agent_error\<close>, the findings of a diagnosis it inserted itself (whose endpoint and status it
  leaves alone), or an action on that diagnosis's endpoint that is pending and undecided; every
  request it sends is a marked probe; and it touches no stream, queue, lock, breaker or limit.\<close>

theorem agent_only_proposes:
  assumes "trace (w_loc w) = []" and "pending (w_loc w) = []"
  shows "confined_agent (trace (w_loc (snd (run_trigger polls ext inbox w))))"
proof -
  have "agent.fine (w_loc w)" using assms by (simp add: agent.fine_def agent.allowed_def)
  then have "safe (run_trigger polls ext inbox) (\<lambda>_. agent.fine) (\<lambda>_. agent.fine) (w_loc w)"
    by (rule agent.upD [OF run_trigger_up])
  then have "agent.fine (w_loc (snd (run_trigger polls ext inbox w)))"
    by (rule snd_run)
  then show ?thesis by (simp add: agent.fine_def agent.allowed_def)
qed

text \<open>C9: The model does not grade its own rigour: a finished run is verified exactly when it called
  the probe or the DNS/TLS check, and the last thing it committed is its own diagnosis, with
  low confidence unless it is verified.\<close>

theorem unverified_is_low:
  assumes "trace (w_loc w) = []" and "pending (w_loc w) = []"
    and "run_diagnosis ext endpoint_id triggered_by w = (Inr st, w')"
  shows "(verified st \<longleftrightarrow> (\<exists>name \<in> set (tool_calls_made st). named name VERIFICATION_TOOLS)) \<and>
    (\<exists>ws f d tr. trace (w_loc w') = Committed ws d # tr \<and> Upd_diagnosis (s_diagnosis st) f \<in> set ws \<and>
       (verified st \<or> (\<forall>x. dg_confidence (f x) = Low)))"
proof -
  have "agent.fine (w_loc w)" using assms by (simp add: agent.fine_def agent.allowed_def)
  then have filed: "filed st (w_loc w')" and "\<exists>g. of_run g endpoint_id st"
    using safe_run(1) [OF run_diagnosis_safe refl assms(3)] by auto
  then show ?thesis unfolding filed_def of_run_def by blast
qed

text \<open>C17: One event costs at most 39 requests to the model: 13 turns (one each for triage, hypothesis
  and report, at most seven to investigate and three to verify), each tried at most three times;
  whatever the model answers.\<close>

theorem model_calls_bounded:
  "count_of asks (trace (w_loc (snd (handle_breaker_event ext payload w)))) \<le> count_of asks (trace (w_loc w)) + 39"
proof -
  have free: "spends asks 0 (claim_budget p)" "spends asks 0 (endpoint_id_of event)" "spends asks 0 (count_metric m)" for p event m
    unfolding claim_budget_def claim_endpoint_def count_day_def endpoint_id_of_def Let_def
    by (rule spends_none; auto split: option.split json.split intro!: keeps_intro)+
  have "spends asks 39 (handle_breaker_event ext payload)"
    unfolding handle_breaker_event_def
    by (auto split: option.split json.split sum.split load_error.split
        intro!: spends_after [OF free(2)] spends_after [OF free(1)] spends_then [OF diagnose_asks] spends_mono [OF free(3)]
          spends_mono [OF spends_return] spends_mono [OF spends_raise] spends_return)
  then show ?thesis by (metis prod.collapse spendsD)
qed

section \<open>A result fits its row\<close>

lemma utf8_no_nul: "storable s \<Longrightarrow> text_ok (utf8 s)"
proof -
  assume s: "storable s"
  have point: "list_all (\<lambda>b. 0 < b \<and> b < 256) (utf8_point c)" if "0 < c" "c < 1114112" for c
    using that by (auto simp: utf8_point_def div_less_iff_less_mult)
  have "list_all (\<lambda>b. 0 < b \<and> b < 256) (concat (map utf8_point s))"
    using s by (induction s) (simp_all add: storable_def point)
  then show ?thesis by (simp add: text_ok_def utf8_def list_all_iff of_char_of)
qed

lemma text_column_ok: "text_column j = Inr s \<Longrightarrow> text_ok s"
  by (auto simp: text_column_def utf8_no_nul split: json.splits if_splits)

lemma diagnosis_update_fits:
  assumes "diagnosis_update cfg st = Inr f" and "diagnosis_storable g"
  shows "diagnosis_storable (f g)"
  using assms
  by (auto simp: diagnosis_update_def diagnosis_storable_def Let_def dest!: text_column_ok split: sum.splits if_splits)

lemma diagnosis_update_id: "diagnosis_update cfg st = Inr f \<Longrightarrow> dg_id (f g) = dg_id g"
  by (auto simp: diagnosis_update_def Let_def split: sum.splits if_splits)

section \<open>A run that fails\<close>

lemma attempts_fail:
  assumes "\<forall>n tools ms. \<exists>x. llm n tools ms = Inl x" and "w_oracle w = []"
  shows "\<exists>name msg w'. create_attempts k delay llm tools ms w = (Inl (Provider_error name msg), w') \<and> sh_db (w_sh w') = sh_db (w_sh w)"
  using assms(2)
proof (induction k arbitrary: w delay)
  case (0 w)
  obtain name msg where "llm (draws (w_loc w)) tools ms = Inl (name, msg)" using assms(1) by (metis surj_pair)
  then show ?case using 0 by (simp add: ainvoke_def run_simps)
next
  case (Suc k)
  obtain name msg where fails: "llm (draws (w_loc w)) tools ms = Inl (name, msg)" using assms(1) by (metis surj_pair)
  obtain w1 where first: "ainvoke llm tools ms w = (Inl (Provider_error name msg), w1)" and w1: "w_oracle w1 = []" "sh_db (w_sh w1) = sh_db (w_sh w)"
    using fails Suc.prems by (simp add: ainvoke_def run_simps)
  obtain w2 where slept: "sleep delay w1 = (Inr (), w2)" and w2: "w_oracle w2 = []" "sh_db (w_sh w2) = sh_db (w_sh w)"
    using w1 by (simp add: sleep_def run_simps)
  show ?case
    using first slept Suc.IH [OF w2(1), of "delay * 2"] w1 w2
    by (auto simp: try_except_def is_exception_def seq_def bind_def raise_def)
qed

lemma graph_fails:
  assumes "\<forall>n tools ms. \<exists>x. chat_model ext n tools ms = Inl x" and "w_oracle w = []"
  shows "\<exists>name msg w'. run_graph ext st w = (Inl (Provider_error name msg), w') \<and> sh_db (w_sh w') = sh_db (w_sh w)"
proof -
  have "\<exists>name msg w'. call_model ext system ms tools st w = (Inl (Provider_error name msg), w') \<and> sh_db (w_sh w') = sh_db (w_sh w)"
    for system ms tools
    using attempts_fail [OF assms, of RETRY_MAX RETRY_BASE_DELAY_S "to_lc_tools tools" "to_lc_messages (ai_seen st) system ms"]
    by (auto simp: call_model_def create_def bind_def)
  from this [of TRIAGE_SYSTEM "[User [Lit ''Endpoint '', Id (s_endpoint st), Lit '' triggered a diagnosis ('',
      Txt (decode (s_triggered_by st)), Lit ''). What will you check?'']]" "[]"]
  show ?thesis by (auto simp: run_graph_def triage_node_def bind_def)
qed

text \<open>A provider of which no client can be built: its constructor fails, or the setting names none.\<close>

definition unbuildable :: "outside \<Rightarrow> settings \<Rightarrow> bool" where
  "unbuildable ext cfg \<longleftrightarrow> construct_model ext (llm_provider cfg) \<noteq> None \<or> llm_provider cfg \<notin> {''gemini'', ''anthropic''}"

lemma get_llm_run:
  "get_llm build w = (Inr (), w) \<or> (\<exists>e. get_llm build w = (Inl e, w) \<and> is_exception e)"
  "unbuildable ext (in_cfg (w_in w)) \<Longrightarrow> \<exists>e. get_llm (construct_model ext) w = (Inl e, w) \<and> is_exception e"
  by (auto simp: get_llm_def bind_def settings_of_def return_def raise_def is_exception_def unbuildable_def split: option.split)

text \<open>C28: A run that fails leaves an honest record.  When the provider cannot be built or fails every
  call, and the database and Redis do not fail during the run, for an endpoint that exists, a
  cause PostgreSQL can hold and an identifier that no diagnosis has yet, the diagnosis returns
  nothing, raises nothing, and the database has exactly one more row: an open \<open>agent_error\<close>
  diagnosis of the endpoint with low confidence.\<close>

theorem failed_run_leaves_stub:
  assumes "w_oracle w = []"
    and "unbuildable ext (in_cfg (w_in w)) \<or> (\<forall>n tools ms. \<exists>x. chat_model ext n tools ms = Inl x)"
    and "the_endpoint p (sh_db (w_sh w)) \<noteq> None" and "text_ok triggered_by"
    and "find_by dg_id (in_uuids (w_in w) (draws (w_loc w))) (diagnoses (sh_db (w_sh w))) = None"
  shows "\<exists>w' g. diagnose_and_record ext p triggered_by w = (Inr None, w') \<and>
    sh_db (w_sh w') = (sh_db (w_sh w))\<lparr>diagnoses := diagnoses (sh_db (w_sh w)) @ [g]\<rparr> \<and>
    dg_id g = in_uuids (w_in w) (draws (w_loc w)) \<and> dg_endpoint_id g = p \<and> dg_triggered_by g = triggered_by \<and>
    dg_root_cause g = ''agent_error'' \<and> dg_confidence g = Low \<and> dg_status g = DOpen"
proof -
  let ?g = "in_uuids (w_in w) (draws (w_loc w))"
  let ?stub = "diagnosis_stub p ?g triggered_by (sh_now (w_sh w))"
  let ?db = "(sh_db (w_sh w))\<lparr>diagnoses := diagnoses (sh_db (w_sh w)) @ [?stub]\<rparr>"
  have "diagnosis_storable ?stub"
    using assms(4) by (simp add: diagnosis_stub_def diagnosis_storable_def text_ok_def)
  then have "apply_writes [Ins_diagnosis ?stub] (sh_db (w_sh w)) = Inr ?db"
    using assms(3,5) by (auto simp: diagnosis_stub_def)
  then obtain w1 where stub: "\<And>K. run_diagnosis ext p triggered_by (w\<lparr>w_loc := clear_session (w_loc w)\<rparr>) =
      seq (get_llm (construct_model ext)) (bind (run_graph ext (new_run p ?g triggered_by)) (\<lambda>st. seq (persist_result st) (return st))) w1"
    and w1: "w_oracle w1 = []" "sh_db (w_sh w1) = ?db" "w_in w1 = w_in w"
    using assms(1) by (simp add: run_diagnosis_def run_simps in_session_def)
  have "\<exists>e w2. run_diagnosis ext p triggered_by (w\<lparr>w_loc := clear_session (w_loc w)\<rparr>) = (Inl e, w2) \<and>
      sh_db (w_sh w2) = ?db \<and> is_exception e"
  proof (cases "unbuildable ext (in_cfg (w_in w))")
    case True
    then show ?thesis using get_llm_run(2) [of ext w1] w1 by (auto simp: stub seq_def bind_def)
  next
    case False
    then show ?thesis
      using graph_fails [OF _ w1(1), of ext "new_run p ?g triggered_by"] assms(2) get_llm_run(1) [of "construct_model ext" w1] w1
      by (auto simp: stub seq_def bind_def is_exception_def)
  qed
  then obtain w' where "diagnose_and_record ext p triggered_by w = (Inr None, w')" "sh_db (w_sh w') = ?db"
    by (auto simp: diagnose_and_record_def with_session_def try_except_def bind_def seq_def return_def count_metric_def modify_local_def)
  then show ?thesis by (intro exI [of _ w'] exI [of _ ?stub]) (simp add: diagnosis_stub_def)
qed

section \<open>Tools\<close>

lemma run_tools_answers:
  assumes "run_tools ext uses st w = (Inr (results, st'), w')"
  shows "map fst results = map fst uses \<and> tool_calls_made st' = tool_calls_made st @ map (fst \<circ> snd) uses"
  using assms
proof (induction ext uses st arbitrary: results w rule: run_tools.induct)
  case (2 ext i name args uses st)
  then show ?case
    by (auto simp: bind_def return_def noted_def split: prod.splits sum.splits)
qed (simp add: return_def)

section \<open>Events\<close>

text \<open>What a breaker event starts, if anything.\<close>

definition starts_run :: "breaker_event \<Rightarrow> string option" where
  "starts_run ev = (case ev of
     Transition p fr to t n \<Rightarrow> if to = Open then Some ''breaker_open'' else None
   | Consecutive_failures p n t \<Rightarrow> Some ''consecutive_failures'')"

lemma uuid_ascii: "is_ascii (uuid_str u)"
proof -
  have "(of_char (digit_char d) :: nat) < 128" if "d < 16" for d
    using that by (simp add: digit_char_def)
  then have hex: "\<forall>c \<in> set (uuid_hex u). (of_char c :: nat) < 128" using uuid_hex_digit by blast
  have "(of_char (CHR ''-'') :: nat) < 128" by simp
  with hex show ?thesis
    by (auto simp: is_ascii_def uuid_str_def Let_def list_all_iff dest!: in_set_takeD in_set_dropD)
qed

lemma message_words:
  "js (breaker_word s) = js ''open'' \<longleftrightarrow> s = Open" "utf8 (decode (uuid_str u)) = uuid_str u"
proof -
  have "is_ascii (breaker_word s)" for s by (cases s) (simp_all add: breaker_word_def is_ascii_def)
  then have "js (breaker_word s) = JStr (ascii (breaker_word s))" for s by (simp add: js_def ascii_text)
  moreover have "js ''open'' = JStr (ascii ''open'')" by (simp add: js_def ascii_text is_ascii_def)
  ultimately have "js (breaker_word s) = js ''open'' \<longleftrightarrow> ascii (breaker_word s) = ascii ''open''" by (simp only: json.inject)
  then show "js (breaker_word s) = js ''open'' \<longleftrightarrow> s = Open"
    by (cases s) (simp_all add: breaker_word_def ascii_def)
  have "is_ascii (uuid_str u)" by (rule uuid_ascii)
  then show "utf8 (decode (uuid_str u)) = uuid_str u" by (simp add: ascii_text)
qed

lemma handle_understood:
  assumes "loads (float_canon ext) payload = Inr (JObj e)" and "triggered_by_of e = why" and "endpoint_id_of e = return p"
  shows "handle_breaker_event ext payload = (case why of
     None \<Rightarrow> return ()
   | Some triggered_by \<Rightarrow> bind (claim_budget p) (\<lambda>(allowed, reason).
       if \<not> allowed then count_metric (M_agent_run (''skipped_'' @ (case reason of None \<Rightarrow> ''None'' | Some r \<Rightarrow> r)))
       else bind (diagnose_and_record ext p triggered_by) (\<lambda>_. return ())))"
proof -
  have "bind (return p) f = f p" for f :: "uuid \<Rightarrow> unit proc" by (simp add: bind_def return_def fun_eq_iff)
  then show ?thesis using assms by (cases why) (simp_all add: handle_breaker_event_def)
qed

text \<open>What the trigger relies on of the encoder in Redis: an object without infinite floats is written
  as JSON that reads back with the same keys and the same texts; numbers may change their form.\<close>

definition cjson_faithful :: "outside \<Rightarrow> bool" where
  "cjson_faithful ext \<longleftrightarrow> (\<forall>d. writable (JObj d) \<and> (\<forall>r \<in> float_words. JFloat r \<notin> snd ` set d) \<longrightarrow>
     (\<exists>d'. loads (float_canon ext) (cjson_text ext d) = Inr (JObj d') \<and>
        (\<forall>k. (map_of d' k = None \<longleftrightarrow> map_of d k = None) \<and> (\<forall>t. map_of d' k = Some (JStr t) \<longleftrightarrow> map_of d k = Some (JStr t)))))"

lemma same_texts:
  assumes "\<forall>k. (map_of d' k = None \<longleftrightarrow> map_of d k = None) \<and> (\<forall>t. map_of d' k = Some (JStr t) \<longleftrightarrow> map_of d k = Some (JStr t))"
    and "map_of d (ascii ''endpoint_id'') = Some (JStr t)"
  shows "triggered_by_of d' = triggered_by_of d" and "endpoint_id_of d' = endpoint_id_of d"
proof -
  have "map_of d' (ascii ''endpoint_id'') = Some (JStr t)" using assms by blast
  then show "endpoint_id_of d' = endpoint_id_of d" by (simp add: endpoint_id_of_def assms(2))
  show "triggered_by_of d' = triggered_by_of d" by (simp add: triggered_by_of_def js_def assms(1))
qed

lemma dict_texts:
  assumes "is_ascii s"
  shows "js s = JStr (ascii s)" and "list_all plain_point (ascii s)"
  using assms ascii_text(1) [OF assms] by (auto simp: js_def plain_point_def is_ascii_def ascii_def list_all_iff)

text \<open>The object a message carries.\<close>

definition message_dict :: "outside \<Rightarrow> breaker_event \<Rightarrow> dict" where
  "message_dict ext ev = (case ev of
     Transition p fr to t n \<Rightarrow> jdict
       [(''endpoint_id'', js (uuid_str p)), (''from_state'', js (breaker_word fr)), (''to_state'', js (breaker_word to)),
        (''at'', JFloat (float_repr ext t)), (''consecutive'', JInt n)]
   | Consecutive_failures p n t \<Rightarrow> jdict
       [(''endpoint_id'', js (uuid_str p)), (''trigger'', js ''consecutive_failures''), (''consecutive'', JInt n),
        (''at'', JFloat (float_repr ext t))])"

lemma message_keys:
  "map_of (message_dict ext ev) (ascii ''endpoint_id'') = Some (JStr (ascii (uuid_str (be_endpoint ev))))"
  "triggered_by_of (message_dict ext ev) = starts_run ev"
  "endpoint_id_of (message_dict ext ev) = return (be_endpoint ev)"
proof -
  show id: "map_of (message_dict ext ev) (ascii ''endpoint_id'') = Some (JStr (ascii (uuid_str (be_endpoint ev))))"
    by (cases ev) (simp_all add: message_dict_def jdict_def dict_texts(1) [OF uuid_ascii])
  show "endpoint_id_of (message_dict ext ev) = return (be_endpoint ev)"
    by (simp add: endpoint_id_of_def id ascii_text(2) [OF uuid_ascii])
  have keys: "map_of (message_dict ext ev) (ascii ''to_state'') =
      (case ev of Transition p fr to t n \<Rightarrow> Some (js (breaker_word to)) | Consecutive_failures p n t \<Rightarrow> None)"
    "map_of (message_dict ext ev) (ascii ''trigger'') =
      (case ev of Transition p fr to t n \<Rightarrow> None | Consecutive_failures p n t \<Rightarrow> Some (js ''consecutive_failures''))"
    by (cases ev; simp add: message_dict_def jdict_def ascii_def)+
  show "triggered_by_of (message_dict ext ev) = starts_run ev"
    unfolding triggered_by_of_def keys starts_run_def by (cases ev) (simp_all add: message_words)
qed

lemma message_writable:
  assumes "\<forall>t. float_text (float_repr ext t)" and "writable (JInt (be_consecutive ev))"
  shows "writable (JObj (message_dict ext ev))"
proof -
  have words: "is_ascii (breaker_word s)" for s by (cases s) (simp_all add: breaker_word_def is_ascii_def)
  have other: "is_ascii ''consecutive_failures''" by (simp add: is_ascii_def)
  show ?thesis
    using assms dict_texts(2) [OF uuid_ascii] dict_texts(2) [OF words] dict_texts(2) [OF other]
    by (cases ev) (simp_all add: message_dict_def jdict_def dict_texts(1) [OF uuid_ascii] dict_texts(1) [OF words] dict_texts(1) [OF other]
        ascii_def plain_point_def)
qed

lemma reread_texts:
  "\<forall>k. (map_of (map (\<lambda>(k, v). (k, reread canon srt v)) d) k = None \<longleftrightarrow> map_of d k = None) \<and>
     (\<forall>t. map_of (map (\<lambda>(k, v). (k, reread canon srt v)) d) k = Some (JStr t) \<longleftrightarrow> map_of d k = Some (JStr t))"
proof -
  have "reread canon srt v = JStr t \<longleftrightarrow> v = JStr t" for v t by (cases v) simp_all
  then show ?thesis by (simp add: map_of_map)
qed

lemma message_reads:
  assumes "cjson_faithful ext" and "\<forall>t. float_text (float_repr ext t) \<and> float_repr ext t \<notin> float_words"
    and "writable (JInt (be_consecutive ev))"
  shows "\<exists>e. loads (float_canon ext) (breaker_message ext ev) = Inr (JObj e) \<and>
    triggered_by_of e = starts_run ev \<and> endpoint_id_of e = return (be_endpoint ev)"
proof -
  let ?d = "message_dict ext ev"
  have w: "writable (JObj ?d)" using message_writable assms(2,3) by simp
  have "\<exists>e. loads (float_canon ext) (breaker_message ext ev) = Inr (JObj e) \<and>
      (\<forall>k. (map_of e k = None \<longleftrightarrow> map_of ?d k = None) \<and> (\<forall>t. map_of e k = Some (JStr t) \<longleftrightarrow> map_of ?d k = Some (JStr t)))"
  proof (cases ev)
    case (Transition p fr to t n)
    have "breaker_message ext ev = cjson_text ext ?d" by (simp add: Transition breaker_message_def message_dict_def)
    moreover have "\<forall>r \<in> float_words. JFloat r \<notin> snd ` set ?d"
      using assms(2) by (auto simp: Transition message_dict_def jdict_def js_def)
    ultimately show ?thesis using assms(1) w by (simp add: cjson_faithful_def)
  next
    case (Consecutive_failures p n t)
    have "breaker_message ext ev = ascii (dumps_as '', '' '': '' False (JObj ?d))"
      by (simp only: Consecutive_failures breaker_message_def message_dict_def breaker_event.case)
    then have "loads (float_canon ext) (breaker_message ext ev) = Inr (JObj (map (\<lambda>(k, v). (k, reread (float_canon ext) False v)) ?d))"
      using loads_dumps [OF w, of "'', ''" "'': ''" "float_canon ext" False]
      by (simp only: item_seps_def key_seps_def insert_iff simp_thms reread.simps if_False)
    then show ?thesis
      using reread_texts [of "float_canon ext" False ?d]
      by (intro exI [of _ "map (\<lambda>(k, v). (k, reread (float_canon ext) False v)) ?d"] conjI)
  qed
  then obtain e where e: "loads (float_canon ext) (breaker_message ext ev) = Inr (JObj e)"
    and same: "\<forall>k. (map_of e k = None \<longleftrightarrow> map_of ?d k = None) \<and> (\<forall>t. map_of e k = Some (JStr t) \<longleftrightarrow> map_of ?d k = Some (JStr t))"
    by blast
  show ?thesis
    using e same_texts [OF same message_keys(1)] message_keys(2,3) by (intro exI [of _ e]) simp
qed

text \<open>C18: the trigger understands everything the breaker publishes: from the text on the channel, an
  event that says the breaker opened, or that the fifth failure in a row was counted, becomes a
  claim on the budget of exactly that endpoint and, if granted, its diagnosis; every other
  event is ignored.\<close>

theorem published_events_understood:
  assumes "cjson_faithful ext" and "\<forall>t. float_text (float_repr ext t) \<and> float_repr ext t \<notin> float_words"
    and "writable (JInt (be_consecutive ev))"
  shows "handle_breaker_event ext (breaker_message ext ev) = (case starts_run ev of
     None \<Rightarrow> return ()
   | Some triggered_by \<Rightarrow> bind (claim_budget (be_endpoint ev)) (\<lambda>(allowed, reason).
       if \<not> allowed then count_metric (M_agent_run (''skipped_'' @ (case reason of None \<Rightarrow> ''None'' | Some r \<Rightarrow> r)))
       else bind (diagnose_and_record ext (be_endpoint ev) triggered_by) (\<lambda>_. return ())))"
  using message_reads [OF assms] handle_understood by blast

text \<open>C38: one malformed message ends the trigger process: when Redis answers, JSON that is no object,
  an integer beyond the digit limit, or an object that reports an open breaker or five failures
  without an endpoint, raises past every handler of the loop; text that is no JSON is dropped:
  its handler returns and has done nothing.\<close>

theorem malformed_event_stops_trigger:
  assumes "w_oracle w = []" and "inbox (draws (w_loc w)) = Some payload"
    and "case loads (float_canon ext) payload of
        Inl e \<Rightarrow> e = Digits_error
      | Inr (JObj event) \<Rightarrow> triggered_by_of event \<noteq> None \<and> map_of event (ascii ''endpoint_id'') = None
      | Inr _ \<Rightarrow> True"
    and "loads (float_canon ext) garbage = Inl Decode_error"
  shows "(\<exists>e \<in> {Value_error, Key_error, Attribute_error}. fst (run_trigger (Suc n # polls) ext inbox w) = Inl e) \<and>
    handle_breaker_event ext garbage w' = (Inr (), w')"
proof -
  obtain e where e: "e \<in> {Value_error, Key_error, Attribute_error}" "handle_breaker_event ext payload w1 = (Inl e, w1)" for w1
    using assms(3) by (auto simp: handle_breaker_event_def raise_def endpoint_id_of_def bind_def split: sum.splits json.splits load_error.splits)
  then have "fst (run_trigger (Suc n # polls) ext inbox w) = Inl e"
    using assms(1,2)
    by (auto simp: run_trigger_def subscription_def poll_channel_def suppress_def except_in_def run_simps is_exception_def)
  then show ?thesis using e(1) assms(4) by (auto simp: handle_breaker_event_def return_def)
qed

section \<open>Budgets\<close>

text \<open>A Redis failure between the two claims loses the diagnosis: the endpoint's claim is kept,
  the event is gone, and every event of the endpoint is refused for the hour although no run was
  started.\<close>

theorem lost_claim_blocks_endpoint:
  assumes "w_oracle w = [calm_event, failing]" and "failing = \<lparr>io_dt = 0, io_env = id, io_fault = Fail_before Redis_error\<rparr>"
    and "live (sh_now (w_sh w)) (sh_claims (w_sh w) p) = None"
    and "t < sh_now (w_sh w) + of_int (per_hour_seconds (in_cfg (w_in w)))"
  shows "\<exists>w'. claim_budget p w = (Inl Redis_error, w') \<and> \<not> fst (claim_key (in_cfg (w_in w)) t (sh_claims (w_sh w') p))"
  using assms
  by (simp add: claim_budget_def claim_endpoint_def count_day_def claim_key_def set_nx_def run_simps redis_exn_def redis_exns_def Let_def)

section \<open>Concrete runs\<close>

text \<open>A provider that answers nothing, and one that fails.\<close>

definition mute :: outside where
  "mute = \<lparr>chat_model = (\<lambda>n tools ms. Inr \<lparr>ai_content = Whole [], ai_tool_calls = [], ai_usage = None\<rparr>),
     construct_model = (\<lambda>_. None), exn_text = (\<lambda>_. []), float_repr = (\<lambda>_. ''0.0''),
     float_canon = id, cjson_text = (\<lambda>d. ascii (dumps_as '','' '':'' False (JObj d))),
     resolve_host = (\<lambda>n h p. Addresses []), tls_handshake = (\<lambda>n h p. Handshake_failed [])\<rparr>"

definition down :: outside where
  "down = mute\<lparr>chat_model := (\<lambda>n tools ms. Inl (ascii ''ServiceUnavailable'', []))\<rparr>"

definition no_reply :: llm_response where
  "no_reply = \<lparr>content = [], input_tokens = 0, output_tokens = 0\<rparr>"

text \<open>What a calm call leaves alone.\<close>

definition same_session :: "world \<Rightarrow> world \<Rightarrow> bool" where
  "same_session w w' \<longleftrightarrow> w_oracle w' = [] \<and> w_in w' = w_in w \<and> sh_db (w_sh w') = sh_db (w_sh w) \<and>
     pending (w_loc w') = pending (w_loc w) \<and> session_broken (w_loc w') = session_broken (w_loc w)"

lemma mute_call:
  assumes "w_oracle w = []"
  shows "\<exists>w'. call_model mute system ms tools st w = (Inr (no_reply, st), w') \<and> same_session w w'"
proof -
  have reply: "from_lc_response \<lparr>ai_content = Whole [], ai_tool_calls = [], ai_usage = None\<rparr> = return no_reply"
    by (simp add: from_lc_response_def content_text_def no_reply_def bind_def return_def fun_eq_iff)
  show ?thesis
    using assms
    by (simp add: call_model_def create_def RETRY_MAX_def numeral_2_eq_2 ainvoke_def mute_def reply cache_calls_def run_simps same_session_def)
      (simp add: no_reply_def)
qed

lemma same_session_trans: "same_session w w1 \<Longrightarrow> same_session w1 w2 \<Longrightarrow> same_session w w2"
  by (auto simp: same_session_def)

lemma mute_texts: "text_of no_reply = []" "tool_uses no_reply = []" "submission no_reply = None"
  by (simp_all add: text_of_def tool_uses_def submission_def no_reply_def strip_text_def)

lemma mute_loop:
  assumes "w_oracle w = []" and "0 < left" and "\<not> over_budget (in_cfg (w_in w)) st"
  shows "\<exists>w'. tool_loop mute system tools left ms st w = (Inr ([], st), w') \<and> same_session w w'"
  using mute_call [OF assms(1), of system ms tools st] assms(2,3)
  by (subst tool_loop.simps) (auto simp: bind_def settings_of_def mute_texts return_def)

lemma mute_graph:
  assumes "w_oracle w = []" and "in_cfg (w_in w) = default_settings"
  shows "\<exists>w'. run_graph mute (new_run p g why) w = (Inr ((new_run p g why)\<lparr>run_result := Some no_diagnosis\<rparr>), w') \<and> same_session w w'"
proof -
  let ?st = "new_run p g why"
  have cheap: "\<not> over_budget default_settings ?st"
    by (simp add: over_budget_def cost_usd_def new_run_def estimate_cost_def MAX_COST_USD_PER_RUN_def default_settings_def PRICING_def)
  have keep: "?st\<lparr>triage_notes := []\<rparr> = ?st" "?st\<lparr>hypothesis := []\<rparr> = ?st" "?st\<lparr>verification_notes := []\<rparr> = ?st"
    by (simp_all add: new_run_def)
  have "\<forall>system ms tools w1. \<exists>w2. same_session w w1 \<longrightarrow> call_model mute system ms tools ?st w1 = (Inr (no_reply, ?st), w2) \<and> same_session w w2"
  proof (intro allI)
    fix system ms tools w1
    show "\<exists>w2. same_session w w1 \<longrightarrow> call_model mute system ms tools ?st w1 = (Inr (no_reply, ?st), w2) \<and> same_session w w2"
    proof (cases "same_session w w1")
      case True
      then have "w_oracle w1 = []" by (simp add: same_session_def)
      then show ?thesis using mute_call [of w1 system ms tools ?st] True same_session_trans by blast
    qed simp
  qed
  then obtain cw where call: "\<And>system ms tools w1. same_session w w1 \<Longrightarrow>
      call_model mute system ms tools ?st w1 = (Inr (no_reply, ?st), cw system ms tools w1) \<and> same_session w (cw system ms tools w1)"
    by metis
  have "\<forall>system tools left ms w1. \<exists>w2. same_session w w1 \<and> 0 < left \<longrightarrow>
      tool_loop mute system tools left ms ?st w1 = (Inr ([], ?st), w2) \<and> same_session w w2"
  proof (intro allI)
    fix system tools left ms w1
    show "\<exists>w2. same_session w w1 \<and> 0 < left \<longrightarrow> tool_loop mute system tools left ms ?st w1 = (Inr ([], ?st), w2) \<and> same_session w w2"
    proof (cases "same_session w w1 \<and> 0 < left")
      case True
      then have "w_oracle w1 = []" "in_cfg (w_in w1) = default_settings" using assms(2) by (simp_all add: same_session_def)
      then show ?thesis using mute_loop [of w1 left ?st system tools ms] cheap True same_session_trans
        by (metis (no_types, lifting))
    next
      case False
      then show ?thesis by blast
    qed
  qed
  then obtain lw where loop: "\<And>system tools left ms w1. same_session w w1 \<Longrightarrow> 0 < left \<Longrightarrow>
      tool_loop mute system tools left ms ?st w1 = (Inr ([], ?st), lw system tools left ms w1) \<and>
      same_session w (lw system tools left ms w1)"
    by metis
  have start: "same_session w w" using assms(1) by (simp add: same_session_def)
  show ?thesis
    unfolding run_graph_def triage_node_def investigate_node_def hypothesize_node_def verify_node_def report_node_def bind_def
    by (simp add: call loop start return_def mute_texts keep MAX_INVESTIGATE_TOOL_CALLS_def MAX_VERIFY_TOOL_CALLS_def)
qed

lemma plain_text:
  assumes "is_ascii s" and "list_all (\<lambda>c. (of_char c :: nat) \<noteq> 0) s"
  shows "text_column (js s) = Inr s" and "json_storable (js s)"
proof -
  have "storable (ascii s)"
    using assms by (auto simp: storable_def ascii_def is_ascii_def list_all_iff)
  then show "text_column (js s) = Inr s" "json_storable (js s)"
    using ascii_text [OF assms(1)] by (simp_all add: js_def text_column_def)
qed

lemma mute_result:
  "\<exists>f. diagnosis_update default_settings ((new_run p g why)\<lparr>run_result := Some no_diagnosis\<rparr>) = Inr f"
proof -
  have words: "text_column (js ''agent_error'') = Inr ''agent_error''" "text_column (js '''') = Inr ''''"
    "text_column (js ''Re-run the diagnosis; no conclusion was reached.'') = Inr ''Re-run the diagnosis; no conclusion was reached.''"
    "json_storable (js ''The agent did not produce a structured diagnosis.'')"
    by (rule plain_text; simp add: is_ascii_def)+
  have fields: "map_of no_diagnosis (ascii ''root_cause'') = Some (js ''agent_error'')" "map_of no_diagnosis (ascii ''confidence'') = Some (js ''low'')"
    "map_of no_diagnosis (ascii ''recommendation'') = Some (js ''Re-run the diagnosis; no conclusion was reached.'')"
    "map_of no_diagnosis (ascii ''draft_email'') = Some (js '''')"
    "map_of no_diagnosis (ascii ''summary'') = Some (js ''The agent did not produce a structured diagnosis.'')"
    by (simp_all add: no_diagnosis_def jdict_def ascii_def)
  have "json_storable (evidence_json ((new_run p g why)\<lparr>run_result := Some no_diagnosis\<rparr>) no_diagnosis)"
    using words(4) by (simp add: evidence_json_def jdict_def new_run_def dict_get_def fields) (simp add: storable_def ascii_def)
  moreover have "\<bar>round_to 6 (cost_usd default_settings ((new_run p g why)\<lparr>run_result := Some no_diagnosis\<rparr>))\<bar> < 10 ^ 4"
    by (simp add: cost_usd_def new_run_def estimate_cost_def default_settings_def PRICING_def round_to_def)
  ultimately show ?thesis
    by (simp add: diagnosis_update_def dict_get_def fields words low_column Let_def)
qed

lemma mute_run:
  defines "w \<equiv> quiet_world (demo_db Ordered Pending) ok_reply"
  shows "\<exists>w'. run_diagnosis mute 2 ''manual'' w = (Inr ((new_run 2 0 ''manual'')\<lparr>run_result := Some no_diagnosis\<rparr>), w')"
proof -
  obtain w1 where stub: "run_diagnosis mute 2 ''manual'' w =
      seq (get_llm (construct_model mute)) (bind (run_graph mute (new_run 2 0 ''manual'')) (\<lambda>st. seq (persist_result st) (return st))) w1"
    and w1: "w_oracle w1 = []" "in_cfg (w_in w1) = default_settings" "pending (w_loc w1) = []" "session_broken (w_loc w1) = False"
      "find_by dg_id 0 (diagnoses (sh_db (w_sh w1))) = Some (diagnosis_stub 2 0 ''manual'' 0)"
    by (simp add: w_def run_diagnosis_def run_simps in_session_def quiet_simps demo_db_def empty_db_def find_by_def diagnosis_stub_def
        diagnosis_storable_def text_ok_def)
  obtain f where f: "diagnosis_update default_settings ((new_run 2 0 ''manual'')\<lparr>run_result := Some no_diagnosis\<rparr>) = Inr f"
    using mute_result by blast
  have fits: "diagnosis_storable (f (diagnosis_stub 2 0 ''manual'' 0))"
    by (rule diagnosis_update_fits [OF f]) (simp add: diagnosis_stub_def diagnosis_storable_def text_ok_def)
  obtain w2 where graph: "run_graph mute (new_run 2 0 ''manual'') w1 =
      (Inr ((new_run 2 0 ''manual'')\<lparr>run_result := Some no_diagnosis\<rparr>), w2)" and w2: "same_session w1 w2"
    using mute_graph [OF w1(1,2)] by blast
  have built: "get_llm (construct_model mute) w1 = (Inr (), w1)"
    by (simp add: get_llm_def mute_def bind_def settings_of_def return_def w1 default_settings_def)
  obtain w3 where "persist_result ((new_run 2 0 ''manual'')\<lparr>run_result := Some no_diagnosis\<rparr>) w2 = (Inr (), w3)"
    using w1 w2 f fits by (auto simp: persist_result_def run_simps in_session_def same_session_def new_run_def)
  then show ?thesis by (simp add: stub seq_def bind_def built graph return_def)
qed

section \<open>Witnesses\<close>

lemma agent_only_proposes_witness:
  "confined_agent (trace (w_loc (snd (run_trigger [2] down (\<lambda>n. Some (breaker_message down (Transition 2 Closed Open 7 10))) (quiet_world (demo_db Ordered Pending) ok_reply)))))"
  by (rule agent_only_proposes) (simp_all add: quiet_simps)

lemma unverified_is_low_witness:
  "\<exists>w' st. run_diagnosis mute 2 ''manual'' (quiet_world (demo_db Ordered Pending) ok_reply) = (Inr st, w') \<and> \<not> verified st \<and>
     (\<exists>ws f d tr. trace (w_loc w') = Committed ws d # tr \<and> Upd_diagnosis 0 f \<in> set ws \<and> (\<forall>x. dg_confidence (f x) = Low))"
proof -
  let ?w = "quiet_world (demo_db Ordered Pending) ok_reply"
  let ?st = "(new_run 2 0 ''manual'')\<lparr>run_result := Some no_diagnosis\<rparr>"
  obtain w' where run: "run_diagnosis mute 2 ''manual'' ?w = (Inr ?st, w')"
    using mute_run by blast
  have "\<not> verified ?st" "s_diagnosis ?st = 0" by (simp_all add: new_run_def)
  with unverified_is_low [OF _ _ run] run show ?thesis
    by (intro exI [of _ w'] exI [of _ ?st]) (simp add: quiet_simps)
qed

lemma failed_run_leaves_stub_witness:
  "\<exists>w' g. diagnose_and_record down 2 ''breaker_open'' (quiet_world (demo_db Ordered Pending) ok_reply) = (Inr None, w') \<and>
    sh_db (w_sh w') = (demo_db Ordered Pending)\<lparr>diagnoses := [g]\<rparr> \<and> dg_endpoint_id g = 2 \<and> dg_root_cause g = ''agent_error''"
proof -
  let ?w = "quiet_world (demo_db Ordered Pending) ok_reply"
  have "w_oracle ?w = []" "sh_db (w_sh ?w) = demo_db Ordered Pending" "diagnoses (demo_db Ordered Pending) = []"
    "the_endpoint 2 (demo_db Ordered Pending) \<noteq> None"
    by (simp_all add: quiet_simps demo_db_def empty_db_def find_by_def)
  moreover have "\<forall>n tools ms. \<exists>x. chat_model down n tools ms = Inl x" "text_ok ''breaker_open''"
    by (simp_all add: down_def text_ok_def)
  ultimately show ?thesis
    using failed_run_leaves_stub [of ?w down 2 "''breaker_open''"] by (simp add: find_by_def) blast
qed

lemma malformed_event_stops_trigger_witness:
  "(\<exists>e \<in> {Value_error, Key_error, Attribute_error}.
     fst (run_trigger [1] down (\<lambda>n. Some (ascii ''[]'')) (quiet_world empty_db ok_reply)) = Inl e) \<and>
   handle_breaker_event down (ascii ''{'') (quiet_world empty_db ok_reply) = (Inr (), quiet_world empty_db ok_reply)"
proof -
  have "loads (float_canon down) (ascii ''{'') = Inl Decode_error"
    by (simp add: loads_def ascii_def skip_ws_def scan_value.simps scan_pairs.simps)
  moreover
  have "loads (float_canon down) (ascii ''[]'') = Inr (JArr [])"
    using loads_dumps [of "JArr []" "'',''" "'':''" "float_canon down" False] by (simp add: item_seps_def key_seps_def)
  ultimately show ?thesis
    using malformed_event_stops_trigger [of "quiet_world empty_db ok_reply" "\<lambda>n. Some (ascii ''[]'')" "ascii ''[]''" down "ascii ''{''" 0 "[]"
      "quiet_world empty_db ok_reply"]
    by (simp add: quiet_simps)
qed

lemma mute_faithful: "cjson_faithful mute"
  unfolding cjson_faithful_def
proof (intro allI impI)
  fix d :: dict
  assume d: "writable (JObj d) \<and> (\<forall>r \<in> float_words. JFloat r \<notin> snd ` set d)"
  have "loads id (cjson_text mute d) = Inr (JObj (map (\<lambda>(k, v). (k, reread id False v)) d))"
    using loads_dumps [of "JObj d" "'',''" "'':''" id False] d by (simp add: item_seps_def key_seps_def mute_def)
  moreover have "float_canon mute = id" by (simp add: mute_def)
  ultimately show "\<exists>d'. loads (float_canon mute) (cjson_text mute d) = Inr (JObj d') \<and>
      (\<forall>k. (map_of d' k = None \<longleftrightarrow> map_of d k = None) \<and> (\<forall>t. map_of d' k = Some (JStr t) \<longleftrightarrow> map_of d k = Some (JStr t)))"
    using reread_texts [of id False d] by (intro exI conjI) simp_all
qed

lemma published_events_understood_witness:
  "handle_breaker_event mute (breaker_message mute (Transition 2 Half_open Closed 7 0)) = return ()"
proof -
  have "float_text ''0.0''"
    by (simp add: float_text_def scan_number_def scan_sign_def scan_fraction_def scan_exponent_def span_dec_def is_dec_def ascii_def)
  then have "\<forall>t. float_text (float_repr mute t) \<and> float_repr mute t \<notin> float_words"
    by (simp add: mute_def float_words_def)
  then show ?thesis
    using published_events_understood [OF mute_faithful, of "Transition 2 Half_open Closed 7 0"]
    by (simp add: starts_run_def dec_nat.simps [of 0] MAX_STR_DIGITS_def)
qed

lemma lost_claim_blocks_endpoint_witness:
  "\<exists>w'. claim_budget 2 ((quiet_world empty_db ok_reply)\<lparr>w_oracle := [calm_event, \<lparr>io_dt = 0, io_env = id, io_fault = Fail_before Redis_error\<rparr>]\<rparr>)
      = (Inl Redis_error, w') \<and> \<not> fst (claim_key default_settings 60 (sh_claims (w_sh w') 2))"
  using lost_claim_blocks_endpoint [of "(quiet_world empty_db ok_reply)\<lparr>w_oracle := [calm_event, \<lparr>io_dt = 0, io_env = id, io_fault = Fail_before Redis_error\<rparr>]\<rparr>"
      "\<lparr>io_dt = 0, io_env = id, io_fault = Fail_before Redis_error\<rparr>" 2 60]
  by (simp add: quiet_simps live_def per_hour_seconds_def)

end
