(* ===== verification/Agent_Contract.thy ===== *)
theory Agent_Contract
  imports Agent_Properties
begin

text \<open>
  The contract between the agent and the model: what the schemas the agent sends
  (\<open>TOOL_SCHEMAS\<close> in \<open>relay/agent/tools.py\<close>, \<open>REPORT_TOOL\<close> in \<open>relay/agent/prompts.py\<close>) allow, and that
  a report within it is stored.  \<open>conforms\<close> is JSON Schema for the keywords these schemas use.
\<close>

section \<open>Schemas\<close>

definition leaf_ok :: "json \<Rightarrow> json \<Rightarrow> bool" where
  "leaf_ok schema v \<longleftrightarrow>
     (if member ''type'' schema = JStr (ascii ''string'') then (case v of JStr s \<Rightarrow> True | _ \<Rightarrow> False)
      else if member ''type'' schema = JStr (ascii ''integer'') then (case v of JInt i \<Rightarrow> True | _ \<Rightarrow> False)
      else True) \<and>
     (case member ''enum'' schema of JArr vs \<Rightarrow> v \<in> set vs | _ \<Rightarrow> True)"

definition conforms :: "json \<Rightarrow> dict \<Rightarrow> bool" where
  "conforms schema d \<longleftrightarrow>
     (case member ''required'' schema of
        JArr ks \<Rightarrow> list_all (\<lambda>k. case k of JStr s \<Rightarrow> map_of d s \<noteq> None | _ \<Rightarrow> True) ks
      | _ \<Rightarrow> True) \<and>
     (case member ''properties'' schema of
        JObj ps \<Rightarrow> list_all (\<lambda>(k, p). case map_of d k of None \<Rightarrow> True | Some v \<Rightarrow> leaf_ok p v) ps
      | _ \<Rightarrow> True)"

lemma tool_names:
  "map tool_name TOOL_SCHEMAS = map ascii [''query_attempts'', ''get_endpoint_config'', ''probe_endpoint'', ''check_dns_tls'',
     ''pause_endpoint'', ''replay_dlq'']"
  "map tool_name (filter (\<lambda>t. named (tool_name t) VERIFICATION_TOOLS) TOOL_SCHEMAS) = map ascii VERIFICATION_TOOLS"
  by (simp_all add: TOOL_SCHEMAS_def tool_name_def member_def jdict_def ascii_def named_def VERIFICATION_TOOLS_def)

section \<open>Reports\<close>

lemma conforming_leaf:
  assumes "conforms schema d" and "member ''required'' schema = JArr (map (\<lambda>k. JStr (ascii k)) ks)" and "k \<in> set ks"
    and "member ''properties'' schema = JObj ps" and "map_of ps (ascii k) = Some p"
  obtains v where "map_of d (ascii k) = Some v" and "leaf_ok p v"
proof -
  obtain v where v: "map_of d (ascii k) = Some v"
    using assms(1-3) by (fastforce simp: conforms_def list_all_iff)
  have "leaf_ok p v"
    using assms(1,4) v map_of_SomeD [OF assms(5)] by (fastforce simp: conforms_def list_all_iff)
  with v that show ?thesis by blast
qed

definition report_fields :: "string list" where
  "report_fields = [''root_cause'', ''confidence'', ''summary'', ''recommendation'', ''draft_email'']"

lemma report_schema:
  "member ''required'' (member ''input_schema'' REPORT_TOOL) = JArr (map (\<lambda>k. JStr (ascii k)) report_fields)"
  "k \<in> set report_fields \<Longrightarrow> \<exists>ps p. member ''properties'' (member ''input_schema'' REPORT_TOOL) = JObj ps \<and> map_of ps (ascii k) = Some p \<and>
     member ''type'' p = JStr (ascii ''string'') \<and>
     (k = ''root_cause'' \<longrightarrow> member ''enum'' p = JArr (map (\<lambda>l. JStr (ascii l)) ROOT_CAUSE_LABELS)) \<and>
     (k = ''confidence'' \<longrightarrow> member ''enum'' p = JArr (map (\<lambda>l. JStr (ascii l)) [''low'', ''medium'', ''high'']))"
  by (auto simp: REPORT_TOOL_def member_def jdict_def ascii_def report_fields_def)

lemma report_field:
  assumes "conforms (member ''input_schema'' REPORT_TOOL) d" and "k \<in> set report_fields"
  shows "\<exists>s. map_of d (ascii k) = Some (JStr s) \<and> (k = ''root_cause'' \<longrightarrow> s \<in> ascii ` set ROOT_CAUSE_LABELS) \<and>
    (k = ''confidence'' \<longrightarrow> s \<in> ascii ` {''low'', ''medium'', ''high''})"
proof -
  obtain ps p where ps: "member ''properties'' (member ''input_schema'' REPORT_TOOL) = JObj ps" "map_of ps (ascii k) = Some p"
    and p: "member ''type'' p = JStr (ascii ''string'')"
      "k = ''root_cause'' \<longrightarrow> member ''enum'' p = JArr (map (\<lambda>l. JStr (ascii l)) ROOT_CAUSE_LABELS)"
      "k = ''confidence'' \<longrightarrow> member ''enum'' p = JArr (map (\<lambda>l. JStr (ascii l)) [''low'', ''medium'', ''high''])"
    using report_schema(2) [OF assms(2)] by blast
  obtain v where v: "map_of d (ascii k) = Some v" and ok: "leaf_ok p v"
    using conforming_leaf [OF assms(1) report_schema(1) assms(2) ps] .
  from ok p(1) obtain s where s: "v = JStr s" by (auto simp: leaf_ok_def split: json.splits)
  have "k = ''root_cause'' \<longrightarrow> s \<in> ascii ` set ROOT_CAUSE_LABELS" "k = ''confidence'' \<longrightarrow> s \<in> ascii ` {''low'', ''medium'', ''high''}"
    using ok p(2,3) by (auto simp: leaf_ok_def s)
  with v s show ?thesis by blast
qed

section \<open>Storing a report\<close>

text \<open>Every text of a submission fits its column.\<close>

definition texts_storable :: "dict \<Rightarrow> bool" where
  "texts_storable d \<longleftrightarrow> list_all (\<lambda>(k, v). case v of JStr s \<Rightarrow> storable s | _ \<Rightarrow> True) d"

lemma storable_text: "texts_storable d \<Longrightarrow> map_of d k = Some (JStr s) \<Longrightarrow> storable s"
  by (fastforce simp: texts_storable_def list_all_iff dest: map_of_SomeD)

lemma storable_strip: "storable s \<Longrightarrow> storable (strip_text s)"
  by (auto simp: storable_def strip_text_def list_all_iff dest!: set_dropWhileD)

lemma label_words: "\<forall>l \<in> set ROOT_CAUSE_LABELS. is_ascii l" "\<forall>l \<in> {''low'', ''medium'', ''high''}. is_ascii l"
  by (simp_all add: ROOT_CAUSE_LABELS_def is_ascii_def)

text \<open>A report: the five texts it must have, with a label and a confidence of the taxonomy.\<close>

definition reportable :: "dict \<Rightarrow> bool" where
  "reportable d \<longleftrightarrow>
     (\<exists>l \<in> set ROOT_CAUSE_LABELS. map_of d (ascii ''root_cause'') = Some (JStr (ascii l)) \<and> storable (ascii l)) \<and>
     (\<exists>c \<in> {''low'', ''medium'', ''high''}. map_of d (ascii ''confidence'') = Some (JStr (ascii c)) \<and> storable (ascii c)) \<and>
     (\<exists>s. map_of d (ascii ''summary'') = Some (JStr s) \<and> storable s) \<and>
     (\<exists>s. map_of d (ascii ''recommendation'') = Some (JStr s) \<and> storable s) \<and>
     (\<exists>s. map_of d (ascii ''draft_email'') = Some (JStr s) \<and> storable s)"

lemma conforming_reportable:
  assumes "conforms (member ''input_schema'' REPORT_TOOL) d" and "texts_storable d"
  shows "reportable d"
proof -
  have listed: "k \<in> set report_fields" if "k \<in> {''root_cause'', ''confidence'', ''summary'', ''recommendation'', ''draft_email''}" for k
    using that by (simp add: report_fields_def)
  have stored: "\<exists>s. map_of d (ascii k) = Some (JStr s) \<and> storable s" if "k \<in> set report_fields" for k
    using report_field [OF assms(1) that] storable_text [OF assms(2)] by blast
  obtain r where r: "map_of d (ascii ''root_cause'') = Some (JStr r)" "r \<in> ascii ` set ROOT_CAUSE_LABELS"
    using report_field [OF assms(1) listed, of "''root_cause''"] by auto
  obtain c where c: "map_of d (ascii ''confidence'') = Some (JStr c)" "c \<in> ascii ` {''low'', ''medium'', ''high''}"
    using report_field [OF assms(1) listed, of "''confidence''"] by auto
  have fits: "storable r" "storable c" using storable_text [OF assms(2)] r(1) c(1) by blast+
  show ?thesis
    unfolding reportable_def
  proof (intro conjI)
    show "\<exists>l \<in> set ROOT_CAUSE_LABELS. map_of d (ascii ''root_cause'') = Some (JStr (ascii l)) \<and> storable (ascii l)"
      using r fits(1) by (elim imageE) (metis (full_types))
    show "\<exists>c \<in> {''low'', ''medium'', ''high''}. map_of d (ascii ''confidence'') = Some (JStr (ascii c)) \<and> storable (ascii c)"
      using c fits(2) by (elim imageE) (metis (full_types))
  qed (rule stored [OF listed], simp)+
qed

text \<open>What a row takes over from a report: the label, the recommendation and the draft.\<close>

definition reported :: "dict \<Rightarrow> diagnosis \<Rightarrow> bool" where
  "reported d g \<longleftrightarrow> dg_root_cause g \<in> set ROOT_CAUSE_LABELS \<and>
     map_of d (ascii ''root_cause'') = Some (JStr (ascii (dg_root_cause g))) \<and>
     (\<exists>s. map_of d (ascii ''recommendation'') = Some (JStr s) \<and> dg_recommendation g = utf8 s) \<and>
     (\<exists>s. map_of d (ascii ''draft_email'') = Some (JStr s) \<and> dg_draft_email g = utf8 s)"

lemma downgraded_reportable:
  assumes "reportable d"
  shows "\<exists>d'. downgraded d w = (Inr d', w) \<and> reportable d' \<and> map_of d' (ascii ''confidence'') = Some (JStr (ascii ''low'')) \<and>
    reported d' = reported d"
proof -
  have "is_ascii ''low''" "is_ascii '' [Not verified against a live probe.]''" by (simp_all add: is_ascii_def)
  then have low: "js ''low'' = JStr (ascii ''low'')" by (simp add: js_def ascii_text)
  have suffix: "storable (ascii ''low'')" "storable (ascii '' [Not verified against a live probe.]'')" by (simp_all add: storable_def ascii_def)
  obtain s where s: "map_of d (ascii ''summary'') = Some (JStr s)" "storable s" using assms by (auto simp: reportable_def)
  let ?d = "dict_set (ascii ''summary'') (JStr (strip_text (s @ ascii '' [Not verified against a live probe.]''))) (dict_set (ascii ''confidence'') (js ''low'') d)"
  have keys: "ascii ''summary'' \<noteq> ascii ''confidence''" "ascii ''root_cause'' \<noteq> ascii ''confidence''" "ascii ''root_cause'' \<noteq> ascii ''summary''"
    "ascii ''recommendation'' \<noteq> ascii ''confidence''" "ascii ''recommendation'' \<noteq> ascii ''summary''"
    "ascii ''draft_email'' \<noteq> ascii ''confidence''" "ascii ''draft_email'' \<noteq> ascii ''summary''"
    by (simp_all add: ascii_def)
  have "storable (strip_text (s @ ascii '' [Not verified against a live probe.]''))"
    using s(2) suffix(2) by (intro storable_strip) (simp add: storable_def)
  then have "reportable ?d" "map_of ?d (ascii ''confidence'') = Some (JStr (ascii ''low''))"
    using assms suffix(1) keys by (auto simp: reportable_def map_of_dict_set low)
  moreover have "reported ?d = reported d"
    using keys by (simp add: reported_def map_of_dict_set fun_eq_iff)
  moreover have "downgraded d w = (Inr ?d, w)"
    using s(1) keys(1) by (simp add: downgraded_def dict_get_def map_of_dict_set return_def Let_def)
  ultimately show ?thesis by blast
qed

lemma reportable_update:
  assumes "reportable d" and "json_storable (evidence_json st [])" and "\<bar>round_to 6 (cost_usd cfg st)\<bar> < 10 ^ 4"
    and "run_result st' = Some d" and "st' = st\<lparr>run_result := Some d\<rparr>"
  shows "\<exists>f. diagnosis_update cfg st' = Inr f \<and> (\<forall>x. reported d (f x) \<and>
    (map_of d (ascii ''confidence'') = Some (JStr (ascii ''low'')) \<longrightarrow> dg_confidence (f x) = Low))"
proof -
  obtain l c s rec em where l: "l \<in> set ROOT_CAUSE_LABELS" "map_of d (ascii ''root_cause'') = Some (JStr (ascii l))" "storable (ascii l)"
    and c: "c \<in> {''low'', ''medium'', ''high''}" "map_of d (ascii ''confidence'') = Some (JStr (ascii c))" "storable (ascii c)"
    and s: "map_of d (ascii ''summary'') = Some (JStr s)" "storable s"
    and rec: "map_of d (ascii ''recommendation'') = Some (JStr rec)" "storable rec"
    and em: "map_of d (ascii ''draft_email'') = Some (JStr em)" "storable em"
    using assms(1) unfolding reportable_def by blast
  have words: "utf8 (ascii l) = l" "utf8 (ascii c) = c" using label_words l(1) c(1) ascii_text(2) by blast+
  have conf: "confidence_column (JStr (ascii c)) = Inr (if c = ''low'' then Low else if c = ''medium'' then Medium else High)"
    using c by (auto simp: confidence_column_def text_column_def words)
  have "json_storable (evidence_json st' d)"
    using assms(2,5) s by (simp add: evidence_json_def jdict_def dict_get_def)
  moreover have "cost_usd cfg st' = cost_usd cfg st" using assms(5) by (simp add: cost_usd_def)
  moreover have "ascii c = ascii ''low'' \<longleftrightarrow> c = ''low''"
    using words(2) ascii_text(2) [of "''low''"] by (metis is_ascii_def label_words(2) insertI1)
  ultimately show ?thesis
    using assms(3,4) l c s rec em conf
    by (simp add: diagnosis_update_def dict_get_def text_column_def words Let_def reported_def)
qed

text \<open>The commit of a result: the row of the run's diagnosis, updated.\<close>

lemma result_persists:
  assumes "diagnosis_update (in_cfg (w_in w)) st = Inr f" and "w_oracle w = []"
    and "pending (w_loc w) = []" and "\<not> session_broken (w_loc w)"
    and "find_by dg_id (s_diagnosis st) (diagnoses (sh_db (w_sh w))) = Some g" and "diagnosis_storable g"
  shows "\<exists>w'. persist_result st w = (Inr (), w') \<and>
    find_by dg_id (s_diagnosis st) (diagnoses (sh_db (w_sh w'))) = Some (f g)"
  using assms diagnosis_update_fits [OF assms(1,6)] diagnosis_update_id [OF assms(1)]
  by (simp add: persist_result_def run_simps in_session_def find_by_update_same)

text \<open>C10: The schema the model is given suffices: a submission that conforms to it, whose texts
  PostgreSQL can hold, ends the report node, and the result is committed: the diagnosis of the
  run then has the submission's label, which is one of the taxonomy, its recommendation and its
  draft, downgraded or not, and low confidence if the run was not verified.  What the run
  collected before must fit as well: the notes and findings so far hold nothing that JSONB
  refuses (a NUL in a probed body would), and the cost is below 10000 dollars.  The database does
  not fail, the session has nothing pending and is not broken, and the stub of the run is still
  there.\<close>

theorem conforming_report_is_stored:
  assumes "call_model ext REPORT_SYSTEM (report_request st) [REPORT_TOOL] st w = (Inr (r, st1), w1)"
    and "submission r = Some submitted"
    and "conforms (member ''input_schema'' REPORT_TOOL) submitted" and "texts_storable submitted"
    and "json_storable (evidence_json st1 [])" and "\<bar>round_to 6 (cost_usd (in_cfg (w_in w1)) st1)\<bar> < 10 ^ 4"
    and "w_oracle w1 = []" and "pending (w_loc w1) = []" and "\<not> session_broken (w_loc w1)"
    and "find_by dg_id (s_diagnosis st1) (diagnoses (sh_db (w_sh w1))) = Some g" and "diagnosis_storable g"
  shows "\<exists>st2 w2 g'. report_node ext st w = (Inr st2, w1) \<and> persist_result st2 w1 = (Inr (), w2) \<and>
    find_by dg_id (s_diagnosis st1) (diagnoses (sh_db (w_sh w2))) = Some g' \<and>
    reported submitted g' \<and> (verified st1 \<or> dg_confidence g' = Low)"
proof -
  have "\<exists>st2 f. report_node ext st w = (Inr st2, w1) \<and> diagnosis_update (in_cfg (w_in w1)) st2 = Inr f \<and>
      s_diagnosis st2 = s_diagnosis st1 \<and> (\<forall>x. reported submitted (f x) \<and> (verified st1 \<or> dg_confidence (f x) = Low))"
  proof (cases "verified st1")
    case True
    then show ?thesis
      using reportable_update [OF conforming_reportable [OF assms(3,4)] assms(5,6) _ refl] assms(1,2)
      by (auto simp: report_node_def bind_def return_def)
  next
    case False
    obtain d' where d': "downgraded submitted w1 = (Inr d', w1)" "reportable d'" "map_of d' (ascii ''confidence'') = Some (JStr (ascii ''low''))"
        "reported d' = reported submitted"
      using downgraded_reportable [OF conforming_reportable [OF assms(3,4)]] by blast
    then show ?thesis
      using reportable_update [OF d'(2) assms(5,6) _ refl] False assms(1,2) by (auto simp: report_node_def bind_def return_def)
  qed
  then obtain st2 f where node: "report_node ext st w = (Inr st2, w1)" and f: "diagnosis_update (in_cfg (w_in w1)) st2 = Inr f"
    and same: "s_diagnosis st2 = s_diagnosis st1"
    and row: "\<And>x. reported submitted (f x) \<and> (verified st1 \<or> dg_confidence (f x) = Low)" by blast
  obtain w2 where "persist_result st2 w1 = (Inr (), w2)" "find_by dg_id (s_diagnosis st1) (diagnoses (sh_db (w_sh w2))) = Some (f g)"
    using result_persists [OF f assms(7-9), of g] assms(10,11) same by auto
  then show ?thesis using node row by blast
qed

text \<open>Nothing checks the submission against the schema: a confidence outside the three words makes
  the commit of the result fail, and the stub stays.\<close>

lemma unlisted_confidence_loses_report:
  assumes "run_result st = Some d" and "map_of d (ascii ''root_cause'') = Some (JStr r)" and "storable r"
    and "map_of d (ascii ''confidence'') = Some (JStr c)" and "storable c" and "utf8 c \<notin> {''low'', ''medium'', ''high''}"
  shows "diagnosis_update cfg st = Inl Integrity_error"
  using assms by (simp add: diagnosis_update_def dict_get_def text_column_def confidence_column_def Let_def)

section \<open>A witness\<close>

definition sample_report :: dict where
  "sample_report = jdict
     [(''root_cause'', JStr (ascii ''receiver_too_slow'')), (''confidence'', JStr (ascii ''high'')), (''summary'', JStr (ascii ''slow'')),
      (''recommendation'', JStr (ascii ''wait'')), (''draft_email'', JStr (ascii ''hello''))]"

definition sample_answer :: ai_message where
  "sample_answer = \<lparr>ai_content = Whole [], ai_tool_calls =
     [\<lparr>call_id = Some (ascii ''c''), call_name = ascii ''submit_diagnosis'', call_args = sample_report\<rparr>], ai_usage = None\<rparr>"

lemma conforming_report_is_stored_witness:
  "\<exists>st2 w1 w2 g'. report_node (mute\<lparr>chat_model := (\<lambda>n tools ms. Inr sample_answer)\<rparr>) (new_run 2 0 ''manual'')
      (quiet_world (empty_db\<lparr>diagnoses := [diagnosis_stub 2 0 ''manual'' 0]\<rparr>) ok_reply) = (Inr st2, w1) \<and>
    persist_result st2 w1 = (Inr (), w2) \<and> find_by dg_id 0 (diagnoses (sh_db (w_sh w2))) = Some g' \<and>
    reported sample_report g' \<and> dg_confidence g' = Low"
proof -
  let ?db = "empty_db\<lparr>diagnoses := [diagnosis_stub 2 0 ''manual'' 0]\<rparr>"
  let ?w = "quiet_world ?db ok_reply" and ?ext = "mute\<lparr>chat_model := (\<lambda>n tools ms. Inr sample_answer)\<rparr>"
  let ?st = "new_run 2 0 ''manual''"
  have seen: "tokens_in ?st = 0" "tokens_out ?st = 0" "ai_seen ?st = (\<lambda>_. None)" by (simp_all add: new_run_def)
  obtain st1 w1 where run: "call_model ?ext REPORT_SYSTEM (report_request ?st) [REPORT_TOOL] ?st ?w =
      (Inr (\<lparr>content = [Tool_use (ascii ''c'') (ascii ''submit_diagnosis'') sample_report], input_tokens = 0, output_tokens = 0\<rparr>, st1), w1)"
    and st1: "st1 = ?st\<lparr>ai_seen := (\<lambda>_. None)(ascii ''c'' \<mapsto> sample_answer)\<rparr>"
    and w1: "w_oracle w1 = []" "pending (w_loc w1) = []" "\<not> session_broken (w_loc w1)" "sh_db (w_sh w1) = ?db"
      "in_cfg (w_in w1) = default_settings"
    by (simp add: call_model_def create_def RETRY_MAX_def numeral_2_eq_2 ainvoke_def sample_answer_def cache_calls_def run_simps
        from_lc_response_def content_text_def call_block_def quiet_simps seen ascii_def)
  have "submission \<lparr>content = [Tool_use (ascii ''c'') (ascii ''submit_diagnosis'') sample_report], input_tokens = 0, output_tokens = 0\<rparr> =
      Some sample_report"
    by (simp add: submission_def tool_uses_def)
  moreover have "conforms (member ''input_schema'' REPORT_TOOL) sample_report"
    by (simp add: conforms_def leaf_ok_def REPORT_TOOL_def ROOT_CAUSE_LABELS_def sample_report_def member_def jdict_def ascii_def)
  moreover have "texts_storable sample_report"
    by (simp add: texts_storable_def sample_report_def jdict_def storable_def ascii_def)
  moreover have "json_storable (evidence_json st1 [])"
    by (simp add: st1 evidence_json_def jdict_def new_run_def dict_get_def) (simp add: storable_def ascii_def)
  moreover have "\<bar>round_to 6 (cost_usd (in_cfg (w_in w1)) st1)\<bar> < 10 ^ 4"
    by (simp add: st1 w1 cost_usd_def new_run_def estimate_cost_def default_settings_def PRICING_def round_to_def)
  moreover have "\<not> verified st1" "s_diagnosis st1 = 0" by (simp_all add: st1 new_run_def)
  moreover have "find_by dg_id 0 (diagnoses (sh_db (w_sh w1))) = Some (diagnosis_stub 2 0 ''manual'' 0)"
    "diagnosis_storable (diagnosis_stub 2 0 ''manual'' 0)"
    by (simp_all add: w1 diagnosis_stub_def diagnosis_storable_def text_ok_def)
  ultimately show ?thesis
    using conforming_report_is_stored [OF run, of sample_report "diagnosis_stub 2 0 ''manual'' 0"] w1(1-3) by metis
qed

end
