(* ===== verification/Agent_Budget.thy ===== *)
theory Agent_Budget
  imports Agent_Properties
begin

text \<open>
  The daily budget of \<open>relay/agent/trigger.py\<close>: over any number of claims, for any endpoints and
  by processes whose clocks differ, \<open>claim_budget\<close> allows at most \<open>agent_max_runs_per_day\<close> runs of
  each day.
\<close>

section \<open>One claim\<close>

text \<open>The claims counted for a day so far: the number in the day's key.\<close>

definition counted :: "int \<Rightarrow> shared \<Rightarrow> int" where
  "counted day s = (case key_get (sh_now s) (sh_daily s (day_text day)) of None \<Rightarrow> 0 | Some n \<Rightarrow> n)"

definition today :: "world \<Rightarrow> int" where
  "today w = day_number (sh_now (w_sh w) + in_skew (w_in w))"

text \<open>What a calm claim answers, and what it leaves in the day's key.\<close>

lemma claim_run_once:
  assumes "w_oracle w = []"
  shows "\<exists>r w'. claim_budget p w = (Inr r, w') \<and> w_oracle w' = [] \<and> w_in w' = w_in w \<and> sh_now (w_sh w') = sh_now (w_sh w) \<and>
    (r = (True, None) \<longleftrightarrow> live (sh_now (w_sh w)) (sh_claims (w_sh w) p) = None \<and>
       counted (today w) (w_sh w) < agent_max_runs_per_day (in_cfg (w_in w))) \<and>
    (if live (sh_now (w_sh w)) (sh_claims (w_sh w) p) = None
     then sh_daily (w_sh w') = (sh_daily (w_sh w))(day_text (today w) :=
       (case incr_key (sh_now (w_sh w)) (sh_daily (w_sh w) (day_text (today w))) of (used, key) \<Rightarrow>
          if used = 1 then expire (sh_now (w_sh w)) DAILY_TTL_S key else key))
     else sh_daily (w_sh w') = sh_daily (w_sh w))"
proof (cases "live (sh_now (w_sh w)) (sh_claims (w_sh w) p)")
  case None
  obtain used key where day: "incr_key (sh_now (w_sh w)) (sh_daily (w_sh w) (day_text (today w))) = (used, key)" by fastforce
  have used: "used = counted (today w) (w_sh w) + 1"
    using day by (auto simp: incr_key_def counted_def key_get_def split: option.splits prod.splits)
  have w: "day_number (sh_now (w_sh w) + in_skew (w_in w)) = today w" by (simp add: today_def)
  show ?thesis
    using assms None day
    by (cases "used = 1"; cases "used > agent_max_runs_per_day (in_cfg (w_in w))")
      (auto simp: claim_budget_def claim_endpoint_def claim_key_def set_nx_def count_day_def run_simps Let_def w used)
next
  case (Some x)
  then show ?thesis
    using assms by (simp add: claim_budget_def claim_endpoint_def claim_key_def set_nx_def run_simps)
qed

section \<open>Many claims\<close>

text \<open>Claims one after the other: each a while after the one before, by a process whose clock is off
  by \<open>skew\<close>, for an endpoint.  The answer is the day each was made on, by its own clock, and whether
  it was allowed.\<close>

fun claim_run :: "(rat \<times> rat \<times> uuid) list \<Rightarrow> world \<Rightarrow> (int \<times> bool) list" where
  "claim_run [] w = []"
| "claim_run ((dt, skew, p) # cs) w =
     (let w1 = w\<lparr>w_sh := (w_sh w)\<lparr>sh_now := sh_now (w_sh w) + \<bar>dt\<bar>\<rparr>, w_in := (w_in w)\<lparr>in_skew := skew\<rparr>\<rparr>
      in case claim_budget p w1 of (r, w2) \<Rightarrow> (today w1, r = Inr (True, None)) # claim_run cs w2)"

text \<open>No clock is before 1970, or more than half a day off.\<close>

fun clocks_ok :: "rat \<Rightarrow> (rat \<times> rat \<times> uuid) list \<Rightarrow> bool" where
  "clocks_ok t [] = True"
| "clocks_ok t ((dt, skew, p) # cs) \<longleftrightarrow> \<bar>skew\<bar> \<le> 43200 \<and> 0 \<le> t + \<bar>dt\<bar> + skew \<and> clocks_ok (t + \<bar>dt\<bar>) cs"

lemma civil_year: "0 \<le> days \<Longrightarrow> 0 \<le> fst (civil_of_days days)"
proof -
  assume days: "0 \<le> days"
  obtain yoe doy where yd: "year_day ((days + 719468) mod 146097) = (yoe, doy)" by fastforce
  have "0 \<le> yoe" by (rule year_day_spec(1) [OF _ _ yd]) simp_all
  moreover have "0 \<le> (days + 719468) div 146097" using days by (simp add: pos_imp_zdiv_nonneg_iff)
  moreover obtain m d where "month_day doy = (m, d)" by fastforce
  ultimately show ?thesis by (simp add: civil_of_days_def yd)
qed

lemma day_start: "0 \<le> t \<Longrightarrow> 0 \<le> day_number t" "86400 * of_int (day_number t) \<le> t" "t < 86400 * of_int (day_number t) + 86400"
proof -
  have "of_int (day_number t) \<le> t / 86400" "t / 86400 < of_int (day_number t) + 1"
    unfolding day_number_def by linarith+
  then show "86400 * of_int (day_number t) \<le> t" "t < 86400 * of_int (day_number t) + 86400" by linarith+
  show "0 \<le> t \<Longrightarrow> 0 \<le> day_number t" by (simp add: day_number_def)
qed

text \<open>The day's key: not there, or counting until the day is over on every clock.\<close>

definition counting :: "int \<Rightarrow> shared \<Rightarrow> bool" where
  "counting day s \<longleftrightarrow> live (sh_now s) (sh_daily s (day_text day)) = None \<or>
     (\<exists>n e. sh_daily s (day_text day) = Some (n, Some e) \<and> 1 \<le> n \<and> 86400 * of_int day + 129600 \<le> e)"

lemma counting_later:
  assumes "counting day s" and "s' = s\<lparr>sh_now := t\<rparr>" and "sh_now s \<le> t"
  shows "counting day s' \<and> (counted day s' = counted day s \<or> 86400 * of_int day + 129600 \<le> t)"
  using assms by (auto simp: counting_def counted_def key_get_def live_def split: option.splits if_splits)

lemma counting_step:
  assumes "counting day s" and "today w = day" and "w_sh w = s" and "\<bar>in_skew (w_in w)\<bar> \<le> 43200"
    and "incr_key (sh_now s) (sh_daily s (day_text day)) = (used, key)"
    and "sh_daily s' = (sh_daily s)(day_text day := if used = 1 then expire (sh_now s) DAILY_TTL_S key else key)" and "sh_now s' = sh_now s"
  shows "counting day s' \<and> counted day s' = counted day s + 1"
proof -
  have t: "86400 * of_int day \<le> sh_now s + 43200" "sh_now s < 86400 * of_int day + 129600"
    using day_start(2,3) [of "sh_now s + in_skew (w_in w)"] assms(2,3,4) by (auto simp: today_def)
  show ?thesis
    using assms(1,5-7) t
    by (auto simp: counting_def counted_def key_get_def incr_key_def live_def expire_def DAILY_TTL_S_def split: option.splits if_splits)
qed

text \<open>What one claim does to the count of a day: an allowed claim of that day was within the limit and
  is counted; no claim lowers the count.\<close>

lemma claim_counted:
  assumes "w_oracle w = []" and "0 \<le> day" and "counting day (w_sh w)"
    and "\<bar>in_skew (w_in w)\<bar> \<le> 43200" and "0 \<le> sh_now (w_sh w) + in_skew (w_in w)"
  obtains r w' where "claim_budget p w = (r, w')" and "w_oracle w' = []" and "w_in w' = w_in w"
    and "sh_now (w_sh w') = sh_now (w_sh w)" and "counting day (w_sh w')" and "counted day (w_sh w) \<le> counted day (w_sh w')"
    and "today w = day \<and> r = Inr (True, None) \<longrightarrow>
      counted day (w_sh w) < agent_max_runs_per_day (in_cfg (w_in w)) \<and> counted day (w_sh w') = counted day (w_sh w) + 1"
proof -
  obtain r w' where run: "claim_budget p w = (Inr r, w')" and w': "w_oracle w' = []" "w_in w' = w_in w" "sh_now (w_sh w') = sh_now (w_sh w)"
    and allowed: "r = (True, None) \<longleftrightarrow> live (sh_now (w_sh w)) (sh_claims (w_sh w) p) = None \<and>
        counted (today w) (w_sh w) < agent_max_runs_per_day (in_cfg (w_in w))"
    and daily: "if live (sh_now (w_sh w)) (sh_claims (w_sh w) p) = None
       then sh_daily (w_sh w') = (sh_daily (w_sh w))(day_text (today w) :=
         (case incr_key (sh_now (w_sh w)) (sh_daily (w_sh w) (day_text (today w))) of (used, key) \<Rightarrow>
            if used = 1 then expire (sh_now (w_sh w)) DAILY_TTL_S key else key))
       else sh_daily (w_sh w') = sh_daily (w_sh w)"
    using claim_run_once [OF assms(1), of p] by blast
  obtain used key where incr: "incr_key (sh_now (w_sh w)) (sh_daily (w_sh w) (day_text (today w))) = (used, key)" by fastforce
  show thesis
  proof (cases "live (sh_now (w_sh w)) (sh_claims (w_sh w) p) = None \<and> today w = day")
    case True
    then have "sh_daily (w_sh w') = (sh_daily (w_sh w))(day_text day := if used = 1 then expire (sh_now (w_sh w)) DAILY_TTL_S key else key)"
      using daily incr by simp
    then have "counting day (w_sh w') \<and> counted day (w_sh w') = counted day (w_sh w) + 1"
      using counting_step [OF assms(3) _ refl assms(4)] True incr w'(3) by blast
    then show thesis using that [OF run] w' allowed True by auto
  next
    case False
    have "sh_daily (w_sh w') (day_text day) = sh_daily (w_sh w) (day_text day)"
    proof (cases "live (sh_now (w_sh w)) (sh_claims (w_sh w) p) = None")
      case True
      have "0 \<le> today w" using day_start(1) assms(5) by (simp add: today_def)
      then have "day_text (today w) \<noteq> day_text day"
        using day_text_inject civil_year assms(2) True False by blast
      then show ?thesis using daily True by simp
    qed (use daily in simp)
    then have "counting day (w_sh w') \<and> counted day (w_sh w') = counted day (w_sh w)"
      using assms(3) w'(3) by (simp add: counting_def counted_def)
    then show thesis using that [OF run] w' allowed False by auto
  qed
qed

text \<open>Once a day is over on every clock, no claim is made on it.\<close>

lemma day_over:
  assumes "w_oracle w = []" and "clocks_ok (sh_now (w_sh w)) cs" and "86400 * of_int day + 129600 \<le> sh_now (w_sh w)"
  shows "filter (\<lambda>c. c = (day, True)) (claim_run cs w) = []"
  using assms
proof (induction cs arbitrary: w)
  case (Cons c cs)
  obtain dt skew p where c: "c = (dt, skew, p)" by (cases c)
  let ?w1 = "w\<lparr>w_sh := (w_sh w)\<lparr>sh_now := sh_now (w_sh w) + \<bar>dt\<bar>\<rparr>, w_in := (w_in w)\<lparr>in_skew := skew\<rparr>\<rparr>"
  have "w_oracle ?w1 = []" using Cons.prems(1) by simp
  from claim_run_once [OF this, of p] obtain r w2 where run: "claim_budget p ?w1 = (Inr r, w2)"
    and w2: "w_oracle w2 = []" "sh_now (w_sh w2) = sh_now (w_sh ?w1)" by blast
  have "today ?w1 \<noteq> day"
    using Cons.prems(2,3) day_start(3) [of "sh_now (w_sh w) + \<bar>dt\<bar> + skew"] by (auto simp: c today_def)
  moreover have "filter (\<lambda>c. c = (day, True)) (claim_run cs w2) = []"
    by (rule Cons.IH) (use Cons.prems w2 in \<open>auto simp: c\<close>)
  ultimately show ?case by (simp add: c Let_def run)
qed simp

lemma claims_left:
  assumes "w_oracle w = []" and "0 \<le> day" and "counting day (w_sh w)" and "clocks_ok (sh_now (w_sh w)) cs"
  shows "int (length (filter (\<lambda>c. c = (day, True)) (claim_run cs w))) \<le>
    max 0 (agent_max_runs_per_day (in_cfg (w_in w)) - counted day (w_sh w))"
  using assms
proof (induction cs arbitrary: w)
  case (Cons c cs)
  obtain dt skew p where c: "c = (dt, skew, p)" by (cases c)
  let ?t = "sh_now (w_sh w) + \<bar>dt\<bar>"
  let ?w1 = "w\<lparr>w_sh := (w_sh w)\<lparr>sh_now := ?t\<rparr>, w_in := (w_in w)\<lparr>in_skew := skew\<rparr>\<rparr>"
  have clocks: "\<bar>skew\<bar> \<le> 43200" "0 \<le> ?t + skew" "clocks_ok ?t cs" using Cons.prems(4) by (simp_all add: c)
  have later: "counting day (w_sh ?w1)" "counted day (w_sh ?w1) = counted day (w_sh w) \<or> 86400 * of_int day + 129600 \<le> ?t"
    using counting_later [OF Cons.prems(3), of "w_sh ?w1" ?t] by auto
  have w1: "w_oracle ?w1 = []" "\<bar>in_skew (w_in ?w1)\<bar> \<le> 43200" "0 \<le> sh_now (w_sh ?w1) + in_skew (w_in ?w1)"
    using Cons.prems(1) clocks by simp_all
  obtain r w2 where run: "claim_budget p ?w1 = (r, w2)" and w2: "w_oracle w2 = []" "w_in w2 = w_in ?w1" "sh_now (w_sh w2) = sh_now (w_sh ?w1)"
    and counts: "counting day (w_sh w2)" "counted day (w_sh ?w1) \<le> counted day (w_sh w2)"
    and allowed: "today ?w1 = day \<and> r = Inr (True, None) \<longrightarrow>
      counted day (w_sh ?w1) < agent_max_runs_per_day (in_cfg (w_in ?w1)) \<and> counted day (w_sh w2) = counted day (w_sh ?w1) + 1"
    by (rule claim_counted [where p = p, OF w1(1) Cons.prems(2) later(1) w1(2,3)])
  have step: "claim_run (c # cs) w = (today ?w1, r = Inr (True, None)) # claim_run cs w2" by (simp add: c Let_def run)
  have t2: "clocks_ok (sh_now (w_sh w2)) cs" using clocks(3) w2(3) by simp
  have same: "agent_max_runs_per_day (in_cfg (w_in w2)) = agent_max_runs_per_day (in_cfg (w_in w))" using w2(2) by simp
  show ?case
  proof (cases "86400 * of_int day + 129600 \<le> ?t")
    case True
    have "today ?w1 \<noteq> day" using True clocks(1) day_start(3) [of "?t + skew"] by (auto simp: today_def)
    moreover have "filter (\<lambda>c. c = (day, True)) (claim_run cs w2) = []"
      by (rule day_over [OF w2(1) t2]) (use True w2(3) in simp)
    ultimately show ?thesis by (simp add: step)
  next
    case False
    then have "counted day (w_sh ?w1) = counted day (w_sh w)" using later(2) by blast
    then show ?thesis
      using Cons.IH [OF w2(1) Cons.prems(2) counts(1) t2] counts(2) allowed same by (auto simp: step)
  qed
qed simp

section \<open>The limit\<close>

text \<open>C29: At most \<open>agent_max_runs_per_day\<close> diagnoses start per day, over all endpoints: when Redis
  answers every call, however many claims are made, at whatever times, by processes whose
  clocks are up to half a day off (none before 1970), the claims that \<open>claim_budget\<close> allows with
  a clock on a given day are no more than that, if none was counted for the day before them.
  Each claim is allowed exactly when its endpoint has no claim yet and the day's count is below
  the limit.\<close>

theorem daily_runs_bounded:
  assumes "w_oracle w = []" and "0 \<le> day" and "live (sh_now (w_sh w)) (sh_daily (w_sh w) (day_text day)) = None"
    and "clocks_ok (sh_now (w_sh w)) cs"
  shows "length (filter (\<lambda>c. c = (day, True)) (claim_run cs w)) \<le> nat (agent_max_runs_per_day (in_cfg (w_in w))) \<and>
    (fst (claim_budget p w) = Inr (True, None) \<longleftrightarrow>
       live (sh_now (w_sh w)) (sh_claims (w_sh w) p) = None \<and> counted (today w) (w_sh w) < agent_max_runs_per_day (in_cfg (w_in w)))"
proof -
  have "counted day (w_sh w) = 0" using assms(3) by (simp add: counted_def key_get_def)
  then have "length (filter (\<lambda>c. c = (day, True)) (claim_run cs w)) \<le> nat (agent_max_runs_per_day (in_cfg (w_in w)))"
    using claims_left [OF assms(1,2) _ assms(4)] assms(3) by (auto simp: counting_def)
  moreover obtain r w' where "claim_budget p w = (Inr r, w')"
    "r = (True, None) \<longleftrightarrow> live (sh_now (w_sh w)) (sh_claims (w_sh w) p) = None \<and>
      counted (today w) (w_sh w) < agent_max_runs_per_day (in_cfg (w_in w))"
    using claim_run_once [OF assms(1), of p] by blast
  ultimately show ?thesis by simp
qed

text \<open>Three claims in a row for three endpoints, with a limit of two.\<close>

lemma daily_runs_bounded_witness:
  "length (filter (\<lambda>c. c = (0, True))
     (claim_run [(5, 0, 1), (5, 0, 2), (5, 0, 3)] ((quiet_world empty_db ok_reply)\<lparr>w_in := (w_in (quiet_world empty_db ok_reply))
        \<lparr>in_cfg := default_settings\<lparr>agent_max_runs_per_day := 2\<rparr>\<rparr>\<rparr>))) \<le> 2 \<and>
   fst (claim_budget 1 ((quiet_world empty_db ok_reply)\<lparr>w_in := (w_in (quiet_world empty_db ok_reply))
        \<lparr>in_cfg := default_settings\<lparr>agent_max_runs_per_day := 2\<rparr>\<rparr>\<rparr>)) = Inr (True, None)"
  using daily_runs_bounded [of "(quiet_world empty_db ok_reply)\<lparr>w_in := (w_in (quiet_world empty_db ok_reply))
        \<lparr>in_cfg := default_settings\<lparr>agent_max_runs_per_day := 2\<rparr>\<rparr>\<rparr>" 0 "[(5, 0, 1), (5, 0, 2), (5, 0, 3)]" 1]
  by (simp add: quiet_simps live_def counted_def key_get_def del: claim_run.simps)

end
