(* ===== verification/Flaky_Endpoint.thy ===== *)
theory Flaky_Endpoint
  imports Agent_Tools Json_Reader
begin

text \<open>
  The simulated receiver (\<open>flaky_endpoint/main.py\<close>), which is also the reference for checking a
  delivery: its process-local state, the routes that configure it, and the hook.  A float
  parameter is a Python float or absent; header values are Latin-1 text, as the server decodes
  them; the current time and the random draw are arguments.  \<open>st0\<close> is the state when a request
  arrives, \<open>st\<close> when its body has been read: other requests may be served between.
\<close>

section \<open>State\<close>

datatype mode = Healthy | Http_500 | Http_429 | Timeout | Conn_reset | Slow | Auth_401 | Flaky

definition MODES :: "string list" where
  "MODES = [''healthy'', ''http_500'', ''http_429'', ''timeout'', ''conn_reset'', ''slow'', ''auth_401'', ''flaky'']"

definition mode_of :: "string \<Rightarrow> mode option" where
  "mode_of s = map_of (zip MODES [Healthy, Http_500, Http_429, Timeout, Conn_reset, Slow, Auth_401, Flaky]) s"

record received_item =
  ri_delivery_id :: "string option"
  ri_event_id :: "string option"
  ri_signature_valid :: bool
  ri_body :: utext

record fixture =
  f_mode :: mode
  f_param :: "pyfloat option"
  f_secret :: string
  f_received :: "received_item list"

definition fresh_fixture :: "string \<Rightarrow> fixture" where
  "fresh_fixture FLAKY_SIGNING_SECRET = \<lparr>f_mode = Healthy, f_param = None, f_secret = FLAKY_SIGNING_SECRET, f_received = []\<rparr>"

section \<open>Configuration\<close>

text \<open>\<open>None\<close>: the body is refused with 422.\<close>

definition configure :: "string \<Rightarrow> pyfloat option \<Rightarrow> fixture \<Rightarrow> ((mode \<times> pyfloat option) \<times> fixture) option" where
  "configure m param st = (case mode_of m of
     None \<Rightarrow> None
   | Some md \<Rightarrow> (let st = st\<lparr>f_mode := md, f_param := param\<rparr> in Some ((f_mode st, f_param st), st)))"

definition set_secret :: "string \<Rightarrow> fixture \<Rightarrow> fixture" where
  "set_secret secret st = st\<lparr>f_secret := secret\<rparr>"

definition received :: "fixture \<Rightarrow> nat \<times> received_item list" where
  "received st = (length (f_received st), drop (length (f_received st) - 50) (f_received st))"

definition reset :: "fixture \<Rightarrow> fixture" where
  "reset st = st\<lparr>f_received := [], f_mode := Healthy, f_param := None\<rparr>"

definition healthz :: "fixture \<Rightarrow> string \<times> mode" where
  "healthz st = (''ok'', f_mode st)"

section \<open>Reading a request\<close>

definition header :: "string \<Rightarrow> http_request \<Rightarrow> string option" where
  "header name rq = map_of (map (\<lambda>(k, v). (map to_lower k, v)) (rq_headers rq)) (map to_lower name)"

text \<open>\<open>int(..)\<close> on Latin-1 text, whose white space has two more characters.\<close>

definition latin1_space :: "char \<Rightarrow> bool" where
  "latin1_space c \<longleftrightarrow> is_space c \<or> (of_char c :: nat) = 133 \<or> (of_char c :: nat) = 160"

definition int_of_header :: "string \<Rightarrow> int option" where
  "int_of_header s = read_int (rev (dropWhile latin1_space (rev (dropWhile latin1_space s))))"

text \<open>\<open>verify_signature\<close> as it runs: \<open>compare_digest\<close> raises \<open>TypeError\<close> (\<open>None\<close>) on a signature that
  is not ASCII, and is not reached outside the tolerance.\<close>

definition verify_raising :: "string \<Rightarrow> int \<Rightarrow> byte list \<Rightarrow> string \<Rightarrow> int \<Rightarrow> bool option" where
  "verify_raising secret timestamp body signature now =
     (if \<bar>now - timestamp\<bar> > DEFAULT_TOLERANCE_SECONDS then Some False
      else if \<not> is_ascii signature then None
      else Some (verify_signature secret timestamp body signature DEFAULT_TOLERANCE_SECONDS now))"

definition signature_valid :: "fixture \<Rightarrow> http_request \<Rightarrow> int \<Rightarrow> bool option" where
  "signature_valid st rq now =
     (let timestamp_header = (case header ''Relay-Timestamp'' rq of None \<Rightarrow> ''0'' | Some v \<Rightarrow> v);
          signature = (case header ''Relay-Signature'' rq of None \<Rightarrow> [] | Some v \<Rightarrow> v)
      in if f_secret st = [] then Some False
         else case int_of_header timestamp_header of
           None \<Rightarrow> Some False
         | Some timestamp \<Rightarrow> verify_raising (f_secret st) timestamp (rq_body rq) signature now)"

subsection \<open>\<open>bytes.decode(errors="replace")\<close>\<close>

text \<open>The second byte a lead byte allows, and how many bytes follow it.\<close>

definition second_ok :: "nat \<Rightarrow> nat \<Rightarrow> bool" where
  "second_ok lead b \<longleftrightarrow>
     (if lead = 224 then 160 \<le> b \<and> b \<le> 191 else if lead = 237 then 128 \<le> b \<and> b \<le> 159
      else if lead = 240 then 144 \<le> b \<and> b \<le> 191 else if lead = 244 then 128 \<le> b \<and> b \<le> 143
      else 128 \<le> b \<and> b \<le> 191)"

definition followers :: "nat \<Rightarrow> nat" where
  "followers lead = (if 194 \<le> lead \<and> lead \<le> 223 then 1 else if 224 \<le> lead \<and> lead \<le> 239 then 2
     else if 240 \<le> lead \<and> lead \<le> 244 then 3 else 0)"

definition continuation :: "nat \<Rightarrow> bool" where
  "continuation b \<longleftrightarrow> 128 \<le> b \<and> b \<le> 191"

text \<open>How many of the bytes after a lead byte continue its character.\<close>

definition valid_tail :: "nat \<Rightarrow> nat list \<Rightarrow> nat" where
  "valid_tail lead bs = (case take (followers lead) bs of
     [] \<Rightarrow> 0
   | b # rest \<Rightarrow> if second_ok lead b then Suc (length (takeWhile continuation rest)) else 0)"

definition lead_value :: "nat \<Rightarrow> nat" where
  "lead_value lead = (if lead < 224 then lead - 192 else if lead < 240 then lead - 224 else lead - 240)"

function decode_replace :: "nat list \<Rightarrow> utext" where
  "decode_replace [] = []"
| "decode_replace (b # bs) =
     (if b < 128 then b # decode_replace bs
      else if followers b > 0 \<and> valid_tail b bs = followers b
      then foldl (\<lambda>a c. a * 64 + (c - 128)) (lead_value b) (take (followers b) bs) # decode_replace (drop (followers b) bs)
      else 65533 # decode_replace (drop (valid_tail b bs) bs))"
  by pat_completeness auto
termination by (relation "measure length") auto

section \<open>The hook\<close>

text \<open>What the server does with the connection: an answer after a wait, a body that is promised and
  not sent, or the answer 500 to an exception.\<close>

datatype hook_reply =
    Answer (hr_wait: pyfloat) (hr_status: int) (hr_content: string) (hr_retry_after: "string option")
  | Truncated
  | Crashed

text \<open>\<open>state["param"] or d\<close>.\<close>

definition param_or :: "rat \<Rightarrow> fixture \<Rightarrow> pyfloat" where
  "param_or d st = (case f_param st of None \<Rightarrow> Fin d | Some x \<Rightarrow> if x = Fin 0 then Fin d else x)"

definition OK_JSON :: string where "OK_JSON = [CHR ''{'', CHR 0x22, CHR ''o'', CHR ''k'', CHR 0x22] @ '':true}''"

definition behave :: "mode \<Rightarrow> fixture \<Rightarrow> rat \<Rightarrow> hook_reply" where
  "behave m st draw = (case m of
     Healthy \<Rightarrow> Answer (Fin 0) 200 OK_JSON None
   | Http_500 \<Rightarrow> Answer (Fin 0) 500 ''internal error'' None
   | Http_429 \<Rightarrow> (case param_or 1 st of
        Fin x \<Rightarrow> Answer (Fin 0) 429 ''slow down'' (Some (str_int (int_of_float x)))
      | _ \<Rightarrow> Crashed)
   | Auth_401 \<Rightarrow> Answer (Fin 0) 401 ''unauthorized'' None
   | Timeout \<Rightarrow> Answer (param_or 30 st) 200 ''late'' None
   | Slow \<Rightarrow> Answer (param_or 8 st) 200 OK_JSON None
   | Conn_reset \<Rightarrow> Truncated
   | Flaky \<Rightarrow>
       if float_lt (Fin draw) (param_or (3 / 10) st) then Answer (Fin 0) 500 ''flaky failure'' None
       else Answer (Fin 0) 200 OK_JSON None)"

definition handle :: "mode \<Rightarrow> http_request \<Rightarrow> int \<Rightarrow> rat \<Rightarrow> fixture \<Rightarrow> hook_reply \<times> fixture" where
  "handle m rq now draw st = (case signature_valid st rq now of
     None \<Rightarrow> (Crashed, st)
   | Some valid \<Rightarrow>
       (let item = \<lparr>ri_delivery_id = header ''Relay-Id'' rq, ri_event_id = header ''Relay-Event-Id'' rq, ri_signature_valid = valid,
              ri_body = take 512 (decode_replace (map unat (rq_body rq)))\<rparr>;
            st = st\<lparr>f_received := f_received st @ [item]\<rparr>
        in (behave m st draw, st)))"

definition hook :: "http_request \<Rightarrow> int \<Rightarrow> rat \<Rightarrow> fixture \<Rightarrow> fixture \<Rightarrow> hook_reply \<times> fixture" where
  "hook rq now draw st0 st = handle (f_mode st0) rq now draw st"

text \<open>\<open>None\<close>: the path names no mode and is refused with 422.\<close>

definition hook_with_mode :: "string \<Rightarrow> http_request \<Rightarrow> int \<Rightarrow> rat \<Rightarrow> fixture \<Rightarrow> (hook_reply \<times> fixture) option" where
  "hook_with_mode mode_override rq now draw st = map_option (\<lambda>m. handle m rq now draw st) (mode_of mode_override)"

section \<open>What the receiver sees of a delivery\<close>

lemma scan_number_chars: "scan_number s = Some (whole, dots, expo, rest) \<Longrightarrow> \<forall>c \<in> set (whole @ dots @ expo). c < 128"
proof -
  assume n: "scan_number s = Some (whole, dots, expo, rest)"
  have dec: "\<forall>c \<in> set ds. c < 128" if "span_dec s = (ds, r)" for s ds r
    using that by (auto simp: span_dec_def is_dec_def dest!: set_takeWhileD)
  have sign: "\<forall>c \<in> set sg. c < 128" if "scan_sign signs s = (sg, r)" "\<forall>c \<in> signs. c < 128" for signs s sg r
    using that by (auto simp: scan_sign_def split: list.splits if_splits)
  have fraction: "\<forall>c \<in> set f. c < 128" if "scan_fraction s = (f, r)" for s f r
    using that dec by (fastforce simp: scan_fraction_def split: list.splits if_splits prod.splits)
  have exponent: "\<forall>c \<in> set e. c < 128" if "scan_exponent s = (e, r)" for s e r
    using that dec sign [of "{43, 45}"] by (fastforce simp: scan_exponent_def split: list.splits if_splits prod.splits)
  have digit: "is_dec d \<Longrightarrow> d < 128" for d by (simp add: is_dec_def)
  from n obtain sg d ds w s2 s3 where "scan_sign {45} s = (sg, d # ds)" "is_dec d"
    "(if d = 48 then ([d], ds) else span_dec (d # ds)) = (w, s2)" "whole = sg @ w"
    "scan_fraction s2 = (dots, s3)" "scan_exponent s3 = (expo, rest)"
    by (auto simp: scan_number_def split: prod.splits list.splits if_splits)
  moreover from this have "\<forall>c \<in> set w. c < 128" using dec [of "d # ds" w s2] digit by (auto split: if_splits)
  ultimately show ?thesis using sign [of "{45}" s sg] fraction [of s2] exponent [of s3] by auto
qed

lemma escape_ascii: "\<forall>c \<in> set (escape_point p). (of_char c :: nat) < 128"
proof -
  have "(of_char (digit_char d) :: nat) < 128" if "d < 16" for d using that by (simp add: digit_char_def)
  then have "\<forall>c \<in> set (hex4 n). (of_char c :: nat) < 128" for n
    using digits_base_less [of 16] by (auto simp: hex4_def)
  then show ?thesis by (auto simp: escape_point_def)
qed

lemma join_set: "set (join sep xs) \<subseteq> set sep \<union> \<Union> (set ` set xs)"
  by (induction sep xs rule: join.induct) auto

lemma ascii_parts:
  "is_ascii (s @ t) \<longleftrightarrow> is_ascii s \<and> is_ascii t"
  "is_ascii isep \<Longrightarrow> \<forall>x \<in> set xs. is_ascii x \<Longrightarrow> is_ascii (join isep xs)"
  using join_set [of isep xs] by (auto simp: is_ascii_def list_all_iff)

lemma dumps_ascii:
  assumes "writable j" and "is_ascii isep" and "is_ascii ksep"
  shows "is_ascii (dumps_as isep ksep srt j)"
  using assms(1)
proof (induction j)
  case (JInt i)
  have "is_ascii (dec_nat n)" for n
    using dec_nat_digits [of _ n] by (fastforce simp: is_ascii_def list_all_iff digit_char_def)
  then show ?case by (simp add: str_int_def is_ascii_def)
next
  case (JFloat r)
  show ?case
  proof (cases "r \<in> float_words")
    case True
    then show ?thesis by (auto simp: float_words_def is_ascii_def)
  next
    case False
    then obtain w f e where n: "scan_number (ascii r) = Some (w, f, e, [])"
      using JFloat by (auto simp: float_text_def split: option.splits)
    have "ascii r = w @ f @ e" using scan_number_extend [OF n, of "[]"] by (simp add: delimited_def)
    then have "\<forall>c \<in> set (ascii r). c < 128" using scan_number_chars [OF n] by simp
    then show ?thesis by (simp add: is_ascii_def ascii_def list_all_iff)
  qed
next
  case (JStr s)
  show ?case using escape_ascii by (auto simp: is_ascii_def dump_str_def list_all_iff)
next
  case (JArr xs)
  then have "\<forall>x \<in> set (map (dumps_as isep ksep srt) xs). is_ascii x" by (auto simp: list_all_iff)
  from ascii_parts(2) [OF assms(2) this] show ?case by (simp add: ascii_parts(1)) (simp add: is_ascii_def)
next
  case (JObj kvs)
  have str: "is_ascii (dump_str k)" for k using escape_ascii by (auto simp: is_ascii_def dump_str_def list_all_iff)
  let ?rows = "map (\<lambda>(k, v). (k, dump_str k @ ksep @ dumps_as isep ksep srt v)) kvs"
  let ?texts = "map snd (if srt then sort_key fst ?rows else ?rows)"
  have "set ?texts = (\<lambda>(k, v). dump_str k @ ksep @ dumps_as isep ksep srt v) ` set kvs"
    by (cases srt) (force simp: image_image)+
  moreover have "is_ascii (dumps_as isep ksep srt v)" if "(k, v) \<in> set kvs" for k v
    using JObj that by (fastforce simp: list_all_iff)
  ultimately have "\<forall>x \<in> set ?texts. is_ascii x"
    using str assms(3) by (auto simp: ascii_parts(1))
  then have "is_ascii (join isep ?texts)" by (rule ascii_parts(2) [OF assms(2)])
  moreover have "dumps_as isep ksep srt (JObj kvs) = ''{'' @ join isep ?texts @ ''}''" by (simp only: dumps_as.simps)
  moreover have "is_ascii ''{''" "is_ascii ''}''" by (simp_all add: is_ascii_def)
  ultimately show ?case by (simp only: ascii_parts(1))
qed (simp_all add: is_ascii_def)

lemma decode_ascii: "is_ascii s \<Longrightarrow> decode_replace (map unat (encode s)) = ascii s"
proof (induction s)
  case (Cons c s)
  have "unat (of_char c :: byte) = of_char c"
    unfolding of_nat_of_char [symmetric, where 'a = byte] unat_of_nat by simp
  then show ?case using Cons by (simp add: is_ascii_def encode_def ascii_def)
qed (simp add: encode_def)

lemma body_text:
  assumes "writable payload"
  shows "decode_replace (map unat (rq_body (delivery_request url secret d e payload now))) = ascii (dumps payload)"
  using dumps_ascii [OF assms, of "'',''" "'':''" True] decode_ascii
  by (simp add: delivery_request_def serialize_payload_def dumps_def Let_def is_ascii_def)

text \<open>C35: what the tenant posted is what the receiver reads: decoding the body of a delivery and parsing
  it as JSON gives back the payload, its keys in order.\<close>

theorem payload_roundtrip:
  assumes "writable payload"
  shows "loads canon (decode_replace (map unat (rq_body (delivery_request url secret d e payload now)))) =
    Inr (reread canon True payload)"
  using loads_dumps [OF assms, of "'',''" "'':''" canon True]
  unfolding body_text [OF assms] dumps_def by (simp add: item_seps_def key_seps_def)

lemma payload_roundtrip_witness:
  "loads id (decode_replace (map unat (rq_body (delivery_request ''http://x'' ''s'' 1 2
      (JObj [(ascii ''b'', JInt 1), (ascii ''a'', JArr [JNull, JStr [233]])]) 0)))) =
    Inr (JObj [(ascii ''a'', JArr [JNull, JStr [233]]), (ascii ''b'', JInt 1)])"
proof -
  have "length (dec_nat (nat \<bar>1\<bar>)) \<le> MAX_STR_DIGITS" by (simp add: dec_nat.simps [of "Suc 0"] MAX_STR_DIGITS_def)
  then have "writable (JObj [(ascii ''b'', JInt 1), (ascii ''a'', JArr [JNull, JStr [233]])])"
    by (simp add: plain_point_def ascii_def)
  from payload_roundtrip [OF this, of id "''http://x''" "''s''" 1 2 0] show ?thesis
    by (simp add: ascii_def)
qed

lemma headers_read:
  "header ''Relay-Id'' (delivery_request url secret d e payload now) = Some (uuid_str d)"
  "header ''Relay-Event-Id'' (delivery_request url secret d e payload now) = Some (uuid_str e)"
  "header ''Relay-Timestamp'' (delivery_request url secret d e payload now) = Some (str_int (int_of_float now))"
  "header ''Relay-Signature'' (delivery_request url secret d e payload now) =
     Some (compute_signature secret (int_of_float now) (rq_body (delivery_request url secret d e payload now)))"
  by (simp_all add: header_def delivery_request_def build_headers_def Let_def to_lower_def)

text \<open>\<open>int\<close> and \<open>float\<close> read the decimal text of a number.\<close>

lemma plain_digits:
  obtains ds where "dec_nat n = map digit_char ds" and "\<forall>d \<in> set ds. d < 10" and "horner 10 ds = n" and "ds \<noteq> []"
proof -
  obtain ds where ds: "ascii (dec_nat n) = map (\<lambda>d. 48 + d) ds" "\<forall>d \<in> set ds. d < 10" "horner 10 ds = n" "ds \<noteq> []"
    using dec_nat_parts by metis
  have "map (char_of :: nat \<Rightarrow> char) (ascii (dec_nat n)) = dec_nat n" by (simp add: ascii_def comp_def)
  moreover have "map (char_of :: nat \<Rightarrow> char) (ascii (dec_nat n)) = map digit_char ds"
    using ds(1,2) by (simp add: digit_char_def)
  ultimately show ?thesis using ds that by metis
qed

lemma digit_char_class: "d < 10 \<Longrightarrow> is_digit (digit_char d) \<and> \<not> is_space (digit_char d) \<and> \<not> latin1_space (digit_char d)
    \<and> of_char (digit_char d) - 48 = d \<and> digit_char d \<notin> {CHR ''-'', CHR ''+'', CHR ''_''}"
proof -
  assume d: "d < 10"
  then have v: "(of_char (digit_char d) :: nat) = 48 + d" by (simp add: digit_char_def)
  then have "digit_char d \<noteq> c" if "(of_char c :: nat) < 48 \<or> 57 < (of_char c :: nat)" for c
    using that d by auto
  then show ?thesis using v d by (simp add: is_digit_def is_space_def latin1_space_def Let_def)
qed

lemma digit_run_step:
  "is_digit c \<Longrightarrow> cs = [] \<or> hd cs \<noteq> CHR ''_'' \<Longrightarrow>
    digit_run (c # cs) = (case digit_run cs of (ds, rest) \<Rightarrow> ((of_char c - 48) # ds, rest))"
  by (cases cs; cases "tl cs") auto

lemma digit_run_digits: "\<forall>d \<in> set ds. d < 10 \<Longrightarrow> digit_run (map digit_char ds) = (ds, [])"
proof (induction ds)
  case (Cons d ds)
  have "map digit_char ds = [] \<or> hd (map digit_char ds) \<noteq> CHR ''_''"
    using Cons.prems digit_char_class [of "hd ds"] by (cases ds) auto
  then show ?case
    using Cons digit_char_class [of d] digit_run_step [of "digit_char d" "map digit_char ds"] by simp
qed simp

lemma strip_digits: "\<forall>c \<in> set s. \<not> sp c \<Longrightarrow> rev (dropWhile sp (rev (dropWhile sp s))) = s"
proof -
  have same: "dropWhile sp t = t" if "\<forall>c \<in> set t. \<not> sp c" for t using that by (cases t) simp_all
  assume "\<forall>c \<in> set s. \<not> sp c"
  then show ?thesis using same [of s] same [of "rev s"] by simp
qed

lemma read_int_dec: "read_int (dec_nat n) = Some (int n)" and int_of_header_dec: "int_of_header (dec_nat n) = Some (int n)"
proof -
  obtain ds where ds: "dec_nat n = map digit_char ds" "\<forall>d \<in> set ds. d < 10" "horner 10 ds = n" "ds \<noteq> []" by (rule plain_digits)
  have chars: "\<forall>c \<in> set (dec_nat n). \<not> is_space c \<and> \<not> latin1_space c" using ds(1,2) digit_char_class by auto
  obtain d ds' where cons: "ds = d # ds'" using ds(4) by (cases ds) auto
  have head: "digit_char d \<noteq> CHR ''-''" "digit_char d \<noteq> CHR ''+''" using digit_char_class [of d] ds(2) cons by auto
  have "strip (dec_nat n) = dec_nat n" using strip_digits [of "dec_nat n" is_space] chars by (simp add: strip_def)
  then show "read_int (dec_nat n) = Some (int n)"
    using digit_run_digits [OF ds(2)] ds(1,3,4) head cons by (simp add: read_int_def)
  then show "int_of_header (dec_nat n) = Some (int n)"
    using strip_digits [of "dec_nat n" latin1_space] chars by (simp add: int_of_header_def)
qed

lemma read_float_dec: "read_float (dec_nat n) = Some (Fin (of_nat n))"
proof -
  obtain ds where ds: "dec_nat n = map digit_char ds" "\<forall>d \<in> set ds. d < 10" "horner 10 ds = n" "ds \<noteq> []" by (rule plain_digits)
  have chars: "\<forall>c \<in> set (dec_nat n). \<not> is_space c" using ds(1,2) digit_char_class by auto
  obtain d ds' where cons: "ds = d # ds'" using ds(4) by (cases ds) auto
  have head: "is_digit (digit_char d)" "digit_char d \<noteq> CHR ''-''" "digit_char d \<noteq> CHR ''+''" using digit_char_class [of d] ds(2) cons by auto
  have "to_lower (digit_char d) = digit_char d" using head(1) by (auto simp: to_lower_def is_digit_def Let_def)
  moreover have "digit_char d \<notin> {CHR ''i'', CHR ''n''}" using head(1) by (auto simp: is_digit_def Let_def)
  ultimately have "read_unsigned (dec_nat n) = Some (Fin (of_nat n))"
    using digit_run_digits [OF ds(2)] ds(1,3) cons by (auto simp: read_unsigned_def read_exponent_def scale10_def)
  moreover have "strip (dec_nat n) = dec_nat n" using strip_digits [of "dec_nat n" is_space] chars by (simp add: strip_def)
  ultimately show ?thesis
    using head ds(1) cons by (simp add: read_float_def)
qed

section \<open>Properties\<close>

lemma compute_signature_ascii: "is_ascii (compute_signature secret t body)"
proof -
  have "(of_char (digit_char d) :: nat) < 128" if "d < 16" for d using that by (simp add: digit_char_def)
  then have "is_ascii (hexdigest bs)" for bs
    using digits_base_less [of 16] by (fastforce simp: is_ascii_def hexdigest_def list_all_iff)
  then show ?thesis by (simp add: compute_signature_def SIGNATURE_VERSION_def ascii_parts(1) Let_def) (simp add: is_ascii_def)
qed

lemma behave_received: "behave m (st\<lparr>f_received := items\<rparr>) draw = behave m st draw"
  by (cases m) (simp_all add: behave_def param_or_def)

text \<open>C34: the reference receiver accepts what the sender signs: a delivery posted to the hook under the
  endpoint's secret is recorded with the delivery's and the event's identifiers and the text of its
  payload, its signature valid exactly while the receiver's clock is within 300 seconds of the
  sending second; and the hook then answers as its mode says.\<close>

theorem hook_verifies_delivery:
  assumes "f_secret st = secret" and "secret \<noteq> []" and "0 \<le> now" and "writable payload"
  shows "hook (delivery_request url secret d e payload now) clock draw st0 st =
    (behave (f_mode st0) st draw, st\<lparr>f_received := f_received st @
      [\<lparr>ri_delivery_id = Some (uuid_str d), ri_event_id = Some (uuid_str e),
        ri_signature_valid = (\<bar>clock - \<lfloor>now\<rfloor>\<bar> \<le> 300), ri_body = take 512 (ascii (dumps payload))\<rparr>]\<rparr>)"
proof -
  let ?rq = "delivery_request url secret d e payload now"
  have t: "int_of_float now = \<lfloor>now\<rfloor>" "str_int \<lfloor>now\<rfloor> = dec_nat (nat \<lfloor>now\<rfloor>)"
    using assms(3) by (simp_all add: int_of_float_def str_int_def)
  then have "int_of_header (str_int \<lfloor>now\<rfloor>) = Some \<lfloor>now\<rfloor>" using int_of_header_dec [of "nat \<lfloor>now\<rfloor>"] assms(3) by simp
  then have "signature_valid st ?rq clock = Some (\<bar>clock - \<lfloor>now\<rfloor>\<bar> \<le> 300)"
    using assms(1,2)
    by (auto simp: signature_valid_def headers_read t(1) verify_raising_def compute_signature_ascii verify_signature_def
        DEFAULT_TOLERANCE_SECONDS_def Let_def)
  then show ?thesis
    by (simp add: hook_def handle_def headers_read body_text [OF assms(4)] behave_received Let_def)
qed

lemma hook_verifies_delivery_witness:
  "hook (delivery_request ''http://x'' ''whsec'' 1 2 (JObj []) 1000) 1300 0 (fresh_fixture ''whsec'') (fresh_fixture ''whsec'') =
    (behave (f_mode (fresh_fixture ''whsec'')) (fresh_fixture ''whsec'') 0, (fresh_fixture ''whsec'')\<lparr>f_received := f_received (fresh_fixture ''whsec'') @
      [\<lparr>ri_delivery_id = Some (uuid_str 1), ri_event_id = Some (uuid_str 2),
        ri_signature_valid = (\<bar>1300 - \<lfloor>1000 :: rat\<rfloor>\<bar> \<le> (300 :: int)), ri_body = take 512 (ascii (dumps (JObj [])))\<rparr>]\<rparr>)"
  by (rule hook_verifies_delivery) (simp_all add: fresh_fixture_def)

text \<open>A signature that is not ASCII crashes the check: the hook answers 500 and records nothing.\<close>

lemma foreign_signature_crashes:
  assumes "f_secret st \<noteq> []" and "header ''Relay-Timestamp'' rq = Some ts" and "int_of_header ts = Some t"
    and "\<bar>now - t\<bar> \<le> 300" and "header ''Relay-Signature'' rq = Some sig" and "\<not> is_ascii sig"
  shows "hook rq now draw st0 st = (Crashed, st)"
  using assms by (simp add: hook_def handle_def signature_valid_def verify_raising_def DEFAULT_TOLERANCE_SECONDS_def)

text \<open>The network and the HTTP client between the hook and the sender, as far as the sender relies on
  them: an answer within the time limit arrives as it is, a later one is a timeout, a body that is
  not sent is a protocol error, an exception in the handler is a 500.\<close>

definition carries :: "rat \<Rightarrow> (hook_reply \<Rightarrow> http_reply) \<Rightarrow> bool" where
  "carries limit carry \<longleftrightarrow>
     (\<forall>x st txt ra. x < limit \<longrightarrow> carry (Answer (Fin x) st txt ra) = Inr \<lparr>rs_status = st, rs_text = ascii txt, rs_retry_after = ra\<rparr>) \<and>
     (\<forall>x st txt ra. limit < x \<longrightarrow> (\<exists>e. carry (Answer (Fin x) st txt ra) = Inl e \<and> x_class e = TimeoutException)) \<and>
     (\<exists>e. carry Truncated = Inl e \<and> x_class e = Other_exception) \<and>
     (\<exists>rs. carry Crashed = Inr rs \<and> rs_status rs = 500)"

text \<open>C36: every mode of the simulator is classified as what it simulates: with the default parameters and
  a time limit between 8 and 30 seconds, an attempt at an endpoint in that mode succeeds or ends in
  the error class the mode is named for.\<close>

theorem modes_classified:
  assumes "carries limit carry" and "8 < limit" and "limit < 30" and "f_param st = None"
  shows "r_error_class (attempt_result_of el (carry (behave m st draw))) = (case m of
      Healthy \<Rightarrow> None | Slow \<Rightarrow> None
    | Http_500 \<Rightarrow> Some E_http_5xx
    | Http_429 \<Rightarrow> Some E_http_4xx
    | Auth_401 \<Rightarrow> Some E_http_4xx
    | Timeout \<Rightarrow> Some E_timeout
    | Conn_reset \<Rightarrow> Some E_conn_refused
    | Flaky \<Rightarrow> if draw < 3 / 10 then Some E_http_5xx else None)"
proof -
  have quick: "carry (Answer (Fin x) s msg ra) = Inr \<lparr>rs_status = s, rs_text = ascii msg, rs_retry_after = ra\<rparr>" if "x \<le> 8" for x s msg ra
    using assms(1,2) that by (simp add: carries_def)
  have "\<exists>e. carry (Answer (Fin 30) 200 ''late'' None) = Inl e \<and> x_class e = TimeoutException"
    and "\<exists>e. carry Truncated = Inl e \<and> x_class e = Other_exception"
    using assms(1,3) unfolding carries_def by blast+
  then obtain e e' where late: "carry (Answer (Fin 30) 200 ''late'' None) = Inl e" "x_class e = TimeoutException"
    and cut: "carry Truncated = Inl e'" "x_class e' = Other_exception"
    by blast
  show ?thesis
    by (cases m) (simp_all add: behave_def param_or_def assms(4) quick late cut attempt_result_of_def classify_status_def
        classify_exception_def float_lt_def)
qed

definition plain_network :: "rat \<Rightarrow> hook_reply \<Rightarrow> http_reply" where
  "plain_network limit r = (case r of
     Answer w st txt ra \<Rightarrow> if float_lt w (Fin limit) then Inr \<lparr>rs_status = st, rs_text = ascii txt, rs_retry_after = ra\<rparr>
       else Inl \<lparr>x_class = TimeoutException, x_cause_ssl = False, x_message = []\<rparr>
   | Truncated \<Rightarrow> Inl \<lparr>x_class = Other_exception, x_cause_ssl = False, x_message = []\<rparr>
   | Crashed \<Rightarrow> Inr \<lparr>rs_status = 500, rs_text = ascii ''Internal Server Error'', rs_retry_after = None\<rparr>)"

lemma plain_network_carries: "carries limit (plain_network limit)"
  by (simp add: carries_def plain_network_def float_lt_def)

lemma modes_classified_witness:
  "r_error_class (attempt_result_of 10 (plain_network 10 (behave Timeout (fresh_fixture []) 0))) = Some E_timeout"
  using modes_classified [OF plain_network_carries, of 10 "fresh_fixture []" 10 Timeout 0]
  by (simp add: fresh_fixture_def)

text \<open>Backpressure is honoured end to end: when the hook sheds load for \<open>s\<close> seconds, the worker
  waits exactly that long (whole seconds, an hour at most) before the next attempt.\<close>

theorem backpressure_honoured:
  assumes "carries limit carry" and "0 < limit" and "f_param st = Some (Fin s)" and "1 \<le> s" and "n < cfg"
    and r: "r = attempt_result_of el (carry (behave Http_429 st draw))"
  shows "next_delay_seconds n (r_http_status r) (r_retry_after r) cfg u = Some (Fin (of_int (min \<lfloor>s\<rfloor> 3600)))"
proof -
  have "s \<noteq> 0" "0 \<le> \<lfloor>s\<rfloor>" using assms(4) by simp_all
  then have "behave Http_429 st draw = Answer (Fin 0) 429 ''slow down'' (Some (dec_nat (nat \<lfloor>s\<rfloor>)))"
    using assms(3,4) by (simp add: behave_def param_or_def int_of_float_def str_int_def)
  then have "r_http_status r = Some 429" "r_retry_after r = Some (dec_nat (nat \<lfloor>s\<rfloor>))"
    using assms(1,2) r by (simp_all add: carries_def attempt_result_of_def)
  moreover have "parse_retry_after (Some (dec_nat (nat \<lfloor>s\<rfloor>))) = Some (Fin (of_int (min \<lfloor>s\<rfloor> 3600)))"
    using \<open>0 \<le> \<lfloor>s\<rfloor>\<close> by (simp add: parse_retry_after_def read_float_dec float_lt_def float_min_def RETRY_AFTER_CAP_SECONDS_def min_def)
  moreover have "n < max_attempts_for (Some 429) cfg"
    using assms(5) by (simp add: max_attempts_for_def is_terminal_status_def RETRYABLE_4XX_def)
  ultimately show ?thesis by (simp add: next_delay_seconds_def)
qed

lemma backpressure_honoured_witness:
  "next_delay_seconds 1
     (r_http_status (attempt_result_of 1 (plain_network 10 (behave Http_429 ((fresh_fixture [])\<lparr>f_param := Some (Fin 120)\<rparr>) 0))))
     (r_retry_after (attempt_result_of 1 (plain_network 10 (behave Http_429 ((fresh_fixture [])\<lparr>f_param := Some (Fin 120)\<rparr>) 0)))) 7 0 =
   Some (Fin (of_int (min \<lfloor>120 :: rat\<rfloor> 3600)))"
  by (rule backpressure_honoured [OF plain_network_carries _ _ _ _ refl]) simp_all

end
