(* ===== verification/Migrations.thy ===== *)
theory Migrations
  imports Config
begin

text \<open>
  The schema of the database: what the four Alembic revisions (\<open>alembic/versions/\<close>) create and
  drop, and what the ORM models (\<open>relay/db/models.py\<close>) declare.  A revision is the list of its
  operations; an operation is what PostgreSQL does with it, or fails.
\<close>

section \<open>Tables\<close>

datatype column_type = Uuid_t | Text_t | Text_array_t | Jsonb_t | Integer_t | Bigint_t | Numeric_t nat nat | Timestamptz_t

text \<open>\<open>sa.Column\<close> with its options; the only \<open>ondelete\<close> is \<open>CASCADE\<close>.\<close>

record column =
  c_type :: column_type
  c_nullable :: bool
  c_default :: "string option"
  c_primary :: bool
  c_unique :: bool
  c_identity :: bool
  c_references :: "(string \<times> string) option"

text \<open>\<open>CheckConstraint("c IN (w, ..)", name)\<close> and \<open>UniqueConstraint(c, .., name)\<close>.\<close>

datatype table_constraint = Check_in string string "string list" | Unique string "string list"

record table =
  t_columns :: "(string \<times> column) list"
  t_constraints :: "table_constraint list"

record index =
  ix_table :: string
  ix_columns :: "string list"

record schema =
  s_tables :: "(string \<times> table) list"
  s_indexes :: "(string \<times> index) list"

definition no_schema :: schema where
  "no_schema = \<lparr>s_tables = [], s_indexes = []\<rparr>"

definition required :: "column_type \<Rightarrow> column" where
  "required ty = \<lparr>c_type = ty, c_nullable = False, c_default = None, c_primary = False, c_unique = False,
     c_identity = False, c_references = None\<rparr>"

definition nullable :: "column \<Rightarrow> column" where "nullable c = c\<lparr>c_nullable := True\<rparr>"
definition server_default :: "string \<Rightarrow> column \<Rightarrow> column" where "server_default d c = c\<lparr>c_default := Some d\<rparr>"
definition primary_key :: "column \<Rightarrow> column" where "primary_key c = c\<lparr>c_primary := True\<rparr>"
definition unique :: "column \<Rightarrow> column" where "unique c = c\<lparr>c_unique := True\<rparr>"
definition identity :: "column \<Rightarrow> column" where "identity c = c\<lparr>c_identity := True\<rparr>"

definition foreign_key :: "string \<Rightarrow> column" where
  "foreign_key tbl = (required Uuid_t)\<lparr>c_references := Some (tbl, ''id'')\<rparr>"

definition quoted :: "string \<Rightarrow> string" where "quoted s = [CHR 0x27] @ s @ [CHR 0x27]"

definition now_column :: column where "now_column = server_default ''now()'' (required Timestamptz_t)"

lemmas column_simps = required_def nullable_def server_default_def primary_key_def unique_def identity_def foreign_key_def
  quoted_def now_column_def

section \<open>Operations\<close>

datatype ddl =
    Create_table string "(string \<times> column) list" "table_constraint list"
  | Drop_table string
  | Add_column string string column
  | Drop_column string string
  | Create_index string string "string list"

definition has_columns :: "string list \<Rightarrow> table \<Rightarrow> bool" where
  "has_columns cs t \<longleftrightarrow> list_all (\<lambda>c. map_of (t_columns t) c \<noteq> None) cs"

definition constraint_columns :: "table_constraint \<Rightarrow> string list" where
  "constraint_columns k = (case k of Check_in n c ws \<Rightarrow> [c] | Unique n cs \<Rightarrow> cs)"

definition relation_names :: "schema \<Rightarrow> string list" where
  "relation_names s = map fst (s_tables s) @ map fst (s_indexes s)"

text \<open>A reference needs a table with that column, unique there.\<close>

definition reference_ok :: "schema \<Rightarrow> column \<Rightarrow> bool" where
  "reference_ok s c = (case c_references c of None \<Rightarrow> True | Some (tbl, col) \<Rightarrow>
     (case map_of (s_tables s) tbl of None \<Rightarrow> False | Some t \<Rightarrow>
       (case map_of (t_columns t) col of None \<Rightarrow> False | Some k \<Rightarrow> c_primary k \<or> c_unique k)))"

definition refers_to :: "string \<Rightarrow> table \<Rightarrow> bool" where
  "refers_to tbl t = list_ex (\<lambda>(n, c). case c_references c of None \<Rightarrow> False | Some (tbl', col) \<Rightarrow> tbl' = tbl) (t_columns t)"

definition refers_to_column :: "string \<Rightarrow> string \<Rightarrow> table \<Rightarrow> bool" where
  "refers_to_column tbl col t = list_ex (\<lambda>(n, c). c_references c = Some (tbl, col)) (t_columns t)"

text \<open>Relations share one name space.  A table others refer to is not dropped; its indexes go with
  it, as the constraints and indexes of a column go with the column.\<close>

fun apply_ddl :: "ddl \<Rightarrow> schema \<Rightarrow> schema option" where
  "apply_ddl (Create_table n cols ks) s =
     (let t = \<lparr>t_columns = cols, t_constraints = ks\<rparr> in
      if n \<notin> set (relation_names s) \<and> distinct (map fst cols) \<and> list_all (reference_ok s) (map snd cols) \<and>
         list_all (\<lambda>k. has_columns (constraint_columns k) t) ks
      then Some (s\<lparr>s_tables := s_tables s @ [(n, t)]\<rparr>) else None)"
| "apply_ddl (Drop_table n) s =
     (if map_of (s_tables s) n \<noteq> None \<and> \<not> list_ex (\<lambda>(m, t). m \<noteq> n \<and> refers_to n t) (s_tables s)
      then Some (s\<lparr>s_tables := filter (\<lambda>(m, t). m \<noteq> n) (s_tables s), s_indexes := filter (\<lambda>(m, i). ix_table i \<noteq> n) (s_indexes s)\<rparr>)
      else None)"
| "apply_ddl (Add_column n c col) s =
     (case map_of (s_tables s) n of None \<Rightarrow> None | Some t \<Rightarrow>
        if map_of (t_columns t) c = None \<and> reference_ok s col
        then Some (s\<lparr>s_tables := map (\<lambda>(m, t). if m = n then (m, t\<lparr>t_columns := t_columns t @ [(c, col)]\<rparr>) else (m, t)) (s_tables s)\<rparr>)
        else None)"
| "apply_ddl (Drop_column n c) s =
     (case map_of (s_tables s) n of None \<Rightarrow> None | Some t \<Rightarrow>
        if map_of (t_columns t) c \<noteq> None \<and> \<not> list_ex (\<lambda>(m, t). refers_to_column n c t) (s_tables s)
        then Some (s\<lparr>s_tables := map (\<lambda>(m, t). if m = n then (m, t\<lparr>t_columns := filter (\<lambda>(d, col). d \<noteq> c) (t_columns t),
                   t_constraints := filter (\<lambda>k. c \<notin> set (constraint_columns k)) (t_constraints t)\<rparr>) else (m, t)) (s_tables s),
                 s_indexes := filter (\<lambda>(m, i). \<not> (ix_table i = n \<and> c \<in> set (ix_columns i))) (s_indexes s)\<rparr>)
        else None)"
| "apply_ddl (Create_index i n cs) s =
     (case map_of (s_tables s) n of None \<Rightarrow> None | Some t \<Rightarrow>
        if i \<notin> set (relation_names s) \<and> has_columns cs t
        then Some (s\<lparr>s_indexes := s_indexes s @ [(i, \<lparr>ix_table = n, ix_columns = cs\<rparr>)]\<rparr>) else None)"

text \<open>The run of a revision is one transaction: all of its operations or none.\<close>

fun run_ddl :: "ddl list \<Rightarrow> schema \<Rightarrow> schema option" where
  "run_ddl [] s = Some s"
| "run_ddl (d # ds) s = (case apply_ddl d s of None \<Rightarrow> None | Some s' \<Rightarrow> run_ddl ds s')"

section \<open>The revisions\<close>

definition upgrade_0001 :: "ddl list" where
  "upgrade_0001 =
    [Create_table ''tenants''
       [(''id'', primary_key (required Uuid_t)),
        (''name'', required Text_t),
        (''api_key_hash'', unique (required Text_t)),
        (''created_at'', now_column)]
       [],
     Create_table ''endpoints''
       [(''id'', primary_key (required Uuid_t)),
        (''tenant_id'', foreign_key ''tenants''),
        (''url'', required Text_t),
        (''signing_secret'', required Text_t),
        (''ordering'', server_default (quoted ''unordered'') (required Text_t)),
        (''status'', server_default (quoted ''active'') (required Text_t)),
        (''event_types'', server_default (quoted ''{}'') (required Text_array_t)),
        (''created_at'', now_column)]
       [Check_in ''ck_endpoints_ordering'' ''ordering'' [''ordered'', ''unordered''],
        Check_in ''ck_endpoints_status'' ''status'' [''active'', ''paused'', ''disabled'']],
     Create_table ''events''
       [(''id'', primary_key (required Uuid_t)),
        (''tenant_id'', foreign_key ''tenants''),
        (''event_type'', required Text_t),
        (''payload'', required Jsonb_t),
        (''idempotency_key'', nullable (required Text_t)),
        (''created_at'', now_column)]
       [Unique ''uq_events_tenant_idempotency'' [''tenant_id'', ''idempotency_key'']],
     Create_index ''ix_events_tenant_created'' ''events'' [''tenant_id'', ''created_at''],
     Create_table ''deliveries''
       [(''id'', primary_key (required Uuid_t)),
        (''event_id'', foreign_key ''events''),
        (''endpoint_id'', foreign_key ''endpoints''),
        (''status'', server_default (quoted ''pending'') (required Text_t)),
        (''attempt_count'', server_default ''0'' (required Integer_t)),
        (''next_attempt_at'', nullable (required Timestamptz_t)),
        (''created_at'', now_column),
        (''updated_at'', now_column)]
       [Check_in ''ck_deliveries_status'' ''status'' [''pending'', ''delivering'', ''delivered'', ''failed'', ''dead'']],
     Create_index ''ix_deliveries_endpoint_status'' ''deliveries'' [''endpoint_id'', ''status'']]"

definition downgrade_0001 :: "ddl list" where
  "downgrade_0001 = [Drop_table ''deliveries'', Drop_table ''events'', Drop_table ''endpoints'', Drop_table ''tenants'']"

definition upgrade_0002 :: "ddl list" where
  "upgrade_0002 =
    [Create_table ''delivery_attempts''
       [(''id'', primary_key (identity (required Bigint_t))),
        (''delivery_id'', foreign_key ''deliveries''),
        (''attempt_number'', required Integer_t),
        (''started_at'', now_column),
        (''latency_ms'', required Integer_t),
        (''http_status'', nullable (required Integer_t)),
        (''error_class'', nullable (required Text_t)),
        (''response_snippet'', nullable (required Text_t))]
       [],
     Create_index ''ix_delivery_attempts_delivery_number'' ''delivery_attempts'' [''delivery_id'', ''attempt_number'']]"

definition downgrade_0002 :: "ddl list" where
  "downgrade_0002 = [Drop_table ''delivery_attempts'']"

definition upgrade_0003 :: "ddl list" where
  "upgrade_0003 =
    [Add_column ''tenants'' ''rate_per_sec'' (nullable (required Integer_t)),
     Add_column ''tenants'' ''max_inflight'' (nullable (required Integer_t))]"

definition downgrade_0003 :: "ddl list" where
  "downgrade_0003 = [Drop_column ''tenants'' ''max_inflight'', Drop_column ''tenants'' ''rate_per_sec'']"

definition upgrade_0004 :: "ddl list" where
  "upgrade_0004 =
    [Create_table ''diagnoses''
       [(''id'', primary_key (required Uuid_t)),
        (''endpoint_id'', foreign_key ''endpoints''),
        (''triggered_by'', required Text_t),
        (''root_cause'', required Text_t),
        (''confidence'', required Text_t),
        (''evidence'', required Jsonb_t),
        (''recommendation'', required Text_t),
        (''draft_email'', required Text_t),
        (''status'', server_default (quoted ''open'') (required Text_t)),
        (''cost_usd'', server_default ''0'' (required (Numeric_t 10 6))),
        (''created_at'', now_column)]
       [Check_in ''ck_diagnoses_confidence'' ''confidence'' [''low'', ''medium'', ''high''],
        Check_in ''ck_diagnoses_status'' ''status'' [''open'', ''acknowledged'', ''resolved'']],
     Create_index ''ix_diagnoses_endpoint_created'' ''diagnoses'' [''endpoint_id'', ''created_at''],
     Create_table ''agent_actions''
       [(''id'', primary_key (required Uuid_t)),
        (''diagnosis_id'', foreign_key ''diagnoses''),
        (''endpoint_id'', foreign_key ''endpoints''),
        (''action'', required Text_t),
        (''reason'', required Text_t),
        (''status'', server_default (quoted ''pending'') (required Text_t)),
        (''decided_at'', nullable (required Timestamptz_t)),
        (''created_at'', now_column)]
       [Check_in ''ck_agent_actions_action'' ''action'' [''pause_endpoint'', ''replay_dlq''],
        Check_in ''ck_agent_actions_status'' ''status'' [''pending'', ''approved'', ''rejected'']],
     Create_index ''ix_agent_actions_status'' ''agent_actions'' [''status'']]"

definition downgrade_0004 :: "ddl list" where
  "downgrade_0004 = [Drop_table ''agent_actions'', Drop_table ''diagnoses'']"

text \<open>\<open>revision\<close>, \<open>down_revision\<close> and the two functions of each file.\<close>

record revision =
  rev_id :: string
  down_revision :: "string option"
  upgrade :: "ddl list"
  downgrade :: "ddl list"

definition revision_0001 :: revision where
  "revision_0001 = \<lparr>rev_id = ''0001'', down_revision = None, upgrade = upgrade_0001, downgrade = downgrade_0001\<rparr>"
definition revision_0002 :: revision where
  "revision_0002 = \<lparr>rev_id = ''0002'', down_revision = Some ''0001'', upgrade = upgrade_0002, downgrade = downgrade_0002\<rparr>"
definition revision_0003 :: revision where
  "revision_0003 = \<lparr>rev_id = ''0003'', down_revision = Some ''0002'', upgrade = upgrade_0003, downgrade = downgrade_0003\<rparr>"
definition revision_0004 :: revision where
  "revision_0004 = \<lparr>rev_id = ''0004'', down_revision = Some ''0003'', upgrade = upgrade_0004, downgrade = downgrade_0004\<rparr>"

definition versions :: "revision list" where
  "versions = [revision_0001, revision_0002, revision_0003, revision_0004]"

text \<open>Alembic's table holds the current revision.  Upgrading runs the revision whose
  \<open>down_revision\<close> is the current one, downgrading undoes the current one.\<close>

type_synonym migrated = "string option \<times> schema"

definition upgrade_once :: "migrated \<Rightarrow> migrated option" where
  "upgrade_once m = (case find (\<lambda>r. down_revision r = fst m) versions of
     None \<Rightarrow> Some m
   | Some r \<Rightarrow> map_option (\<lambda>s. (Some (rev_id r), s)) (run_ddl (upgrade r) (snd m)))"

definition downgrade_once :: "migrated \<Rightarrow> migrated option" where
  "downgrade_once m = (case find (\<lambda>r. Some (rev_id r) = fst m) versions of
     None \<Rightarrow> Some m
   | Some r \<Rightarrow> map_option (\<lambda>s. (down_revision r, s)) (run_ddl (downgrade r) (snd m)))"

datatype move = Up | Down

fun migrate :: "move list \<Rightarrow> migrated \<Rightarrow> migrated option" where
  "migrate [] m = Some m"
| "migrate (d # ds) m = (case (case d of Up \<Rightarrow> upgrade_once m | Down \<Rightarrow> downgrade_once m) of
     None \<Rightarrow> None | Some m' \<Rightarrow> migrate ds m')"

section \<open>The models\<close>

definition tenant_table :: table where
  "tenant_table = \<lparr>t_columns =
     [(''id'', primary_key (required Uuid_t)),
      (''name'', required Text_t),
      (''api_key_hash'', unique (required Text_t)),
      (''rate_per_sec'', nullable (required Integer_t)),
      (''max_inflight'', nullable (required Integer_t)),
      (''created_at'', now_column)],
     t_constraints = []\<rparr>"

definition endpoint_table :: table where
  "endpoint_table = \<lparr>t_columns =
     [(''id'', primary_key (required Uuid_t)),
      (''tenant_id'', foreign_key ''tenants''),
      (''url'', required Text_t),
      (''signing_secret'', required Text_t),
      (''ordering'', server_default (quoted ''unordered'') (required Text_t)),
      (''status'', server_default (quoted ''active'') (required Text_t)),
      (''event_types'', server_default (quoted ''{}'') (required Text_array_t)),
      (''created_at'', now_column)],
     t_constraints =
     [Check_in ''ck_endpoints_ordering'' ''ordering'' [''ordered'', ''unordered''],
      Check_in ''ck_endpoints_status'' ''status'' [''active'', ''paused'', ''disabled'']]\<rparr>"

definition event_table :: table where
  "event_table = \<lparr>t_columns =
     [(''id'', primary_key (required Uuid_t)),
      (''tenant_id'', foreign_key ''tenants''),
      (''event_type'', required Text_t),
      (''payload'', required Jsonb_t),
      (''idempotency_key'', nullable (required Text_t)),
      (''created_at'', now_column)],
     t_constraints = [Unique ''uq_events_tenant_idempotency'' [''tenant_id'', ''idempotency_key'']]\<rparr>"

definition delivery_table :: table where
  "delivery_table = \<lparr>t_columns =
     [(''id'', primary_key (required Uuid_t)),
      (''event_id'', foreign_key ''events''),
      (''endpoint_id'', foreign_key ''endpoints''),
      (''status'', server_default (quoted ''pending'') (required Text_t)),
      (''attempt_count'', server_default ''0'' (required Integer_t)),
      (''next_attempt_at'', nullable (required Timestamptz_t)),
      (''created_at'', now_column),
      (''updated_at'', now_column)],
     t_constraints =
     [Check_in ''ck_deliveries_status'' ''status'' [''pending'', ''delivering'', ''delivered'', ''failed'', ''dead'']]\<rparr>"

definition diagnosis_table :: table where
  "diagnosis_table = \<lparr>t_columns =
     [(''id'', primary_key (required Uuid_t)),
      (''endpoint_id'', foreign_key ''endpoints''),
      (''triggered_by'', required Text_t),
      (''root_cause'', required Text_t),
      (''confidence'', required Text_t),
      (''evidence'', required Jsonb_t),
      (''recommendation'', required Text_t),
      (''draft_email'', required Text_t),
      (''status'', server_default (quoted ''open'') (required Text_t)),
      (''cost_usd'', server_default ''0'' (required (Numeric_t 10 6))),
      (''created_at'', now_column)],
     t_constraints =
     [Check_in ''ck_diagnoses_confidence'' ''confidence'' [''low'', ''medium'', ''high''],
      Check_in ''ck_diagnoses_status'' ''status'' [''open'', ''acknowledged'', ''resolved'']]\<rparr>"

definition agent_action_table :: table where
  "agent_action_table = \<lparr>t_columns =
     [(''id'', primary_key (required Uuid_t)),
      (''diagnosis_id'', foreign_key ''diagnoses''),
      (''endpoint_id'', foreign_key ''endpoints''),
      (''action'', required Text_t),
      (''reason'', required Text_t),
      (''status'', server_default (quoted ''pending'') (required Text_t)),
      (''decided_at'', nullable (required Timestamptz_t)),
      (''created_at'', now_column)],
     t_constraints =
     [Check_in ''ck_agent_actions_action'' ''action'' [''pause_endpoint'', ''replay_dlq''],
      Check_in ''ck_agent_actions_status'' ''status'' [''pending'', ''approved'', ''rejected'']]\<rparr>"

definition attempt_table :: table where
  "attempt_table = \<lparr>t_columns =
     [(''id'', primary_key (identity (required Bigint_t))),
      (''delivery_id'', foreign_key ''deliveries''),
      (''attempt_number'', required Integer_t),
      (''started_at'', now_column),
      (''latency_ms'', required Integer_t),
      (''http_status'', nullable (required Integer_t)),
      (''error_class'', nullable (required Text_t)),
      (''response_snippet'', nullable (required Text_t))],
     t_constraints = []\<rparr>"

text \<open>\<open>Base.metadata\<close>, with the \<open>Index\<close> entries of the tables.\<close>

definition metadata :: schema where
  "metadata = \<lparr>s_tables =
     [(''tenants'', tenant_table), (''endpoints'', endpoint_table), (''events'', event_table),
      (''deliveries'', delivery_table), (''diagnoses'', diagnosis_table),
      (''agent_actions'', agent_action_table), (''delivery_attempts'', attempt_table)],
     s_indexes =
     [(''ix_events_tenant_created'', \<lparr>ix_table = ''events'', ix_columns = [''tenant_id'', ''created_at'']\<rparr>),
      (''ix_deliveries_endpoint_status'', \<lparr>ix_table = ''deliveries'', ix_columns = [''endpoint_id'', ''status'']\<rparr>),
      (''ix_diagnoses_endpoint_created'', \<lparr>ix_table = ''diagnoses'', ix_columns = [''endpoint_id'', ''created_at'']\<rparr>),
      (''ix_agent_actions_status'', \<lparr>ix_table = ''agent_actions'', ix_columns = [''status'']\<rparr>),
      (''ix_delivery_attempts_delivery_number'',
         \<lparr>ix_table = ''delivery_attempts'', ix_columns = [''delivery_id'', ''attempt_number'']\<rparr>)]\<rparr>"

text \<open>Two schemas agree if they have the same tables and indexes and every table has the same columns
  and constraints, in any order.\<close>

definition same_table :: "table \<Rightarrow> table \<Rightarrow> bool" where
  "same_table t u \<longleftrightarrow> set (t_columns t) = set (t_columns u) \<and> set (t_constraints t) = set (t_constraints u)"

definition same_schema :: "schema \<Rightarrow> schema \<Rightarrow> bool" where
  "same_schema s u \<longleftrightarrow>
     set (map fst (s_tables s)) = set (map fst (s_tables u)) \<and>
     list_all (\<lambda>n. same_table (the (map_of (s_tables s) n)) (the (map_of (s_tables u) n))) (map fst (s_tables s)) \<and>
     set (s_indexes s) = set (s_indexes u)"

section \<open>What the revisions build\<close>

text \<open>The tenants before and after \<open>0003\<close>, which appends its two columns.\<close>

definition tenants_0001 :: table where
  "tenants_0001 = tenant_table\<lparr>t_columns :=
     [(''id'', primary_key (required Uuid_t)), (''name'', required Text_t), (''api_key_hash'', unique (required Text_t)),
      (''created_at'', now_column)]\<rparr>"

definition tenants_0003 :: table where
  "tenants_0003 = tenants_0001\<lparr>t_columns := t_columns tenants_0001 @
     [(''rate_per_sec'', nullable (required Integer_t)), (''max_inflight'', nullable (required Integer_t))]\<rparr>"

definition schema_0001 :: schema where
  "schema_0001 = \<lparr>s_tables = [(''tenants'', tenants_0001), (''endpoints'', endpoint_table), (''events'', event_table), (''deliveries'', delivery_table)],
     s_indexes =
     [(''ix_events_tenant_created'', \<lparr>ix_table = ''events'', ix_columns = [''tenant_id'', ''created_at'']\<rparr>),
      (''ix_deliveries_endpoint_status'', \<lparr>ix_table = ''deliveries'', ix_columns = [''endpoint_id'', ''status'']\<rparr>)]\<rparr>"

definition schema_0002 :: schema where
  "schema_0002 = \<lparr>s_tables = s_tables schema_0001 @ [(''delivery_attempts'', attempt_table)],
     s_indexes = s_indexes schema_0001 @
     [(''ix_delivery_attempts_delivery_number'', \<lparr>ix_table = ''delivery_attempts'', ix_columns = [''delivery_id'', ''attempt_number'']\<rparr>)]\<rparr>"

definition schema_0003 :: schema where
  "schema_0003 = \<lparr>s_tables =
     [(''tenants'', tenants_0003), (''endpoints'', endpoint_table), (''events'', event_table), (''deliveries'', delivery_table),
      (''delivery_attempts'', attempt_table)],
     s_indexes = s_indexes schema_0002\<rparr>"

definition schema_0004 :: schema where
  "schema_0004 = \<lparr>s_tables = s_tables schema_0003 @ [(''diagnoses'', diagnosis_table), (''agent_actions'', agent_action_table)],
     s_indexes = s_indexes schema_0003 @
     [(''ix_diagnoses_endpoint_created'', \<lparr>ix_table = ''diagnoses'', ix_columns = [''endpoint_id'', ''created_at'']\<rparr>),
      (''ix_agent_actions_status'', \<lparr>ix_table = ''agent_actions'', ix_columns = [''status'']\<rparr>)]\<rparr>"

lemmas ddl_simps = relation_names_def reference_ok_def has_columns_def constraint_columns_def refers_to_def refers_to_column_def

lemmas table_simps = tenant_table_def endpoint_table_def event_table_def delivery_table_def diagnosis_table_def agent_action_table_def
  attempt_table_def tenants_0001_def tenants_0003_def

lemmas schema_simps = schema_0001_def schema_0002_def schema_0003_def schema_0004_def table_simps column_simps ddl_simps

lemma run_0001: "run_ddl upgrade_0001 no_schema = Some schema_0001"
  by (simp add: upgrade_0001_def no_schema_def schema_simps)

lemma run_0002: "run_ddl upgrade_0002 schema_0001 = Some schema_0002"
  by (simp add: upgrade_0002_def schema_simps)

lemma run_0003: "run_ddl upgrade_0003 schema_0002 = Some schema_0003"
  by (simp add: upgrade_0003_def schema_simps)

lemma run_0004: "run_ddl upgrade_0004 schema_0003 = Some schema_0004"
  by (simp add: upgrade_0004_def schema_simps)

lemma undo_0001: "run_ddl downgrade_0001 schema_0001 = Some no_schema"
  by (simp add: downgrade_0001_def no_schema_def schema_simps)

lemma undo_0002: "run_ddl downgrade_0002 schema_0002 = Some schema_0001"
  by (simp add: downgrade_0002_def schema_simps)

lemma undo_0003: "run_ddl downgrade_0003 schema_0003 = Some schema_0002"
  by (simp add: downgrade_0003_def schema_simps)

lemma undo_0004: "run_ddl downgrade_0004 schema_0004 = Some schema_0003"
  by (simp add: downgrade_0004_def schema_simps)

text \<open>The schema of each revision, and that any walk stays on them.\<close>

definition schema_of :: "string option \<Rightarrow> schema" where
  "schema_of r = (case r of None \<Rightarrow> no_schema | Some i \<Rightarrow>
     if i = ''0001'' then schema_0001 else if i = ''0002'' then schema_0002 else if i = ''0003'' then schema_0003 else schema_0004)"

definition revision_ids :: "string option list" where
  "revision_ids = None # map (\<lambda>r. Some (rev_id r)) versions"

lemmas revision_simps = versions_def revision_0001_def revision_0002_def revision_0003_def revision_0004_def

lemma revision_cases:
  "r \<in> set revision_ids \<longleftrightarrow> r = None \<or> r = Some ''0001'' \<or> r = Some ''0002'' \<or> r = Some ''0003'' \<or> r = Some ''0004''"
  by (auto simp: revision_ids_def revision_simps)

lemma one_up: "r \<in> set revision_ids \<Longrightarrow> \<exists>r' \<in> set revision_ids. upgrade_once (r, schema_of r) = Some (r', schema_of r')"
  by (auto simp: revision_cases upgrade_once_def revision_simps schema_of_def run_0001 run_0002 run_0003 run_0004)

lemma one_down: "r \<in> set revision_ids \<Longrightarrow> \<exists>r' \<in> set revision_ids. downgrade_once (r, schema_of r) = Some (r', schema_of r')"
  by (auto simp: revision_cases downgrade_once_def revision_simps schema_of_def undo_0001 undo_0002 undo_0003 undo_0004)

lemma up_to: "r \<in> set revision_ids \<Longrightarrow> \<exists>k \<le> length versions. migrate (replicate k Up) (None, no_schema) = Some (r, schema_of r)"
proof -
  have steps: "upgrade_once (None, no_schema) = Some (Some ''0001'', schema_0001)" "upgrade_once (Some ''0001'', schema_0001) = Some (Some ''0002'', schema_0002)"
    "upgrade_once (Some ''0002'', schema_0002) = Some (Some ''0003'', schema_0003)" "upgrade_once (Some ''0003'', schema_0003) = Some (Some ''0004'', schema_0004)"
    by (simp_all add: upgrade_once_def revision_simps run_0001 run_0002 run_0003 run_0004)
  have walk: "migrate (replicate 0 Up) (None, no_schema) = Some (None, schema_of None)"
    "migrate (replicate 1 Up) (None, no_schema) = Some (Some ''0001'', schema_of (Some ''0001''))"
    "migrate (replicate 2 Up) (None, no_schema) = Some (Some ''0002'', schema_of (Some ''0002''))"
    "migrate (replicate 3 Up) (None, no_schema) = Some (Some ''0003'', schema_of (Some ''0003''))"
    "migrate (replicate 4 Up) (None, no_schema) = Some (Some ''0004'', schema_of (Some ''0004''))"
    by (simp_all add: steps numeral_eq_Suc schema_of_def)
  have "length versions = 4" by (simp add: versions_def)
  then have *: "migrate (replicate k Up) (None, no_schema) = Some (r, schema_of r) \<Longrightarrow> k \<le> 4 \<Longrightarrow>
      \<exists>k \<le> length versions. migrate (replicate k Up) (None, no_schema) = Some (r, schema_of r)" for k by auto
  assume "r \<in> set revision_ids"
  then show ?thesis unfolding revision_cases
  proof (elim disjE)
    assume r: "r = None" then show "\<exists>k \<le> length versions. migrate (replicate k Up) (None, no_schema) = Some (r, schema_of r)"
      using * [of 0] walk(1) by simp
  next
    assume r: "r = Some ''0001''" then show "\<exists>k \<le> length versions. migrate (replicate k Up) (None, no_schema) = Some (r, schema_of r)"
      using * [of 1] walk(2) by simp
  next
    assume r: "r = Some ''0002''" then show "\<exists>k \<le> length versions. migrate (replicate k Up) (None, no_schema) = Some (r, schema_of r)"
      using * [of 2] walk(3) by simp
  next
    assume r: "r = Some ''0003''" then show "\<exists>k \<le> length versions. migrate (replicate k Up) (None, no_schema) = Some (r, schema_of r)"
      using * [of 3] walk(4) by simp
  next
    assume r: "r = Some ''0004''" then show "\<exists>k \<le> length versions. migrate (replicate k Up) (None, no_schema) = Some (r, schema_of r)"
      using * [of 4] walk(5) by simp
  qed
qed

text \<open>C32: Every revision undoes what it did: however a database is upgraded and downgraded, no
  operation fails, and it ends with the same revision and schema as if it had only been upgraded
  from nothing.\<close>

theorem migrations_reversible:
  "\<exists>k m. k \<le> length versions \<and> migrate ds (None, no_schema) = Some m \<and> migrate (replicate k Up) (None, no_schema) = Some m"
proof -
  have "\<exists>r' \<in> set revision_ids. migrate ds (r, schema_of r) = Some (r', schema_of r')" if "r \<in> set revision_ids" for r
    using that
  proof (induction ds arbitrary: r)
    case Nil
    then show ?case by simp
  next
    case (Cons d ds)
    obtain r' where "r' \<in> set revision_ids" "(case d of Up \<Rightarrow> upgrade_once (r, schema_of r) | Down \<Rightarrow> downgrade_once (r, schema_of r)) = Some (r', schema_of r')"
      using one_up [OF Cons.prems] one_down [OF Cons.prems] by (cases d) auto
    then show ?case using Cons.IH by simp
  qed
  from this [of None] obtain r where "r \<in> set revision_ids" "migrate ds (None, no_schema) = Some (r, schema_of r)"
    by (auto simp: schema_of_def revision_ids_def)
  with up_to show ?thesis by blast
qed

text \<open>C11: Upgrading an empty database to the last revision succeeds and gives the tables, columns,
  defaults, constraints, references and indexes the models declare.\<close>

theorem migrations_build_the_models:
  "\<exists>s. migrate (replicate (length versions) Up) (None, no_schema) = Some (Some ''0004'', s) \<and> same_schema s metadata"
proof (intro exI conjI)
  show "migrate (replicate (length versions) Up) (None, no_schema) = Some (Some ''0004'', schema_0004)"
    by (simp add: revision_simps upgrade_once_def run_0001 run_0002 run_0003 run_0004)
  have "same_table tenants_0003 tenant_table"
    by (auto simp: same_table_def tenants_0003_def tenants_0001_def tenant_table_def)
  then show "same_schema schema_0004 metadata"
    by (auto simp: same_schema_def schema_0004_def schema_0003_def schema_0002_def schema_0001_def metadata_def same_table_def)
qed

end
