(* ===== verification/Schema_Rows.thy ===== *)
theory Schema_Rows
  imports Migrations Agent_Tools Api_Manage Worker_Runs
begin

text \<open>
  That the rows and writes of \<open>Config\<close> are those of the schema in \<open>relay/db/models.py\<close>: a row is
  read column by column as SQL values, the constraints of any \<open>schema\<close> are checked on such rows,
  and the database's reaction to the writes of the program is derived from them.
\<close>

section \<open>Values and constraints\<close>

datatype sql_value =
    Null | V_uuid uuid | V_text string | V_points utext | V_texts "string list" | V_int int | V_json json | V_numeric rat | V_time rat

fun fits :: "column_type \<Rightarrow> sql_value \<Rightarrow> bool" where
  "fits Uuid_t (V_uuid u) = True"
| "fits Text_t (V_text s) = text_ok s"
| "fits Text_t (V_points s) = storable s"
| "fits Text_array_t (V_texts ss) = list_all text_ok ss"
| "fits Jsonb_t (V_json j) = json_storable j"
| "fits Integer_t (V_int i) = int4 i"
| "fits Bigint_t (V_int i) = (- (2 ^ 63) \<le> i \<and> i < 2 ^ 63)"
| "fits (Numeric_t p d) (V_numeric x) = (\<bar>x\<bar> < 10 ^ (p - d))"
| "fits Timestamptz_t (V_time t) = True"
| "fits _ _ = False"

type_synonym sql_row = "(string \<times> sql_value) list"
type_synonym sql_data = "string \<Rightarrow> sql_row list"

definition cell :: "string \<Rightarrow> sql_row \<Rightarrow> sql_value" where
  "cell c r = (case map_of r c of None \<Rightarrow> Null | Some v \<Rightarrow> v)"

definition column_ok :: "column \<Rightarrow> sql_value \<Rightarrow> bool" where
  "column_ok c v \<longleftrightarrow> (if v = Null then c_nullable c else fits (c_type c) v)"

text \<open>Uniqueness takes \<open>NULL\<close>s for distinct.\<close>

definition distinct_on :: "string list \<Rightarrow> sql_row list \<Rightarrow> bool" where
  "distinct_on cs rows \<longleftrightarrow> distinct (filter (\<lambda>vs. Null \<notin> set vs) (map (\<lambda>r. map (\<lambda>c. cell c r) cs) rows))"

fun constraint_ok :: "table_constraint \<Rightarrow> sql_row list \<Rightarrow> bool" where
  "constraint_ok (Check_in n c ws) rows =
     list_all (\<lambda>r. case cell c r of Null \<Rightarrow> True | V_text s \<Rightarrow> s \<in> set ws | _ \<Rightarrow> False) rows"
| "constraint_ok (Unique n cs) rows = distinct_on cs rows"

definition references_ok :: "sql_data \<Rightarrow> string \<Rightarrow> column \<Rightarrow> sql_row list \<Rightarrow> bool" where
  "references_ok data c col rows = (case c_references col of None \<Rightarrow> True | Some (tbl, k) \<Rightarrow>
     list_all (\<lambda>r. cell c r = Null \<or> cell c r \<in> set (map (cell k) (data tbl))) rows)"

definition table_ok :: "sql_data \<Rightarrow> string \<Rightarrow> table \<Rightarrow> bool" where
  "table_ok data n t \<longleftrightarrow>
     list_all (\<lambda>(c, col).
       list_all (\<lambda>r. column_ok col (cell c r)) (data n) \<and>
       (c_primary col \<or> c_unique col \<longrightarrow> distinct_on [c] (data n)) \<and>
       references_ok data c col (data n)) (t_columns t) \<and>
     list_all (\<lambda>k. constraint_ok k (data n)) (t_constraints t)"

definition satisfies :: "schema \<Rightarrow> sql_data \<Rightarrow> bool" where
  "satisfies s data \<longleftrightarrow> list_all (\<lambda>(n, t). table_ok data n t) (s_tables s)"

section \<open>The rows of the model\<close>

definition or_null :: "('a \<Rightarrow> sql_value) \<Rightarrow> 'a option \<Rightarrow> sql_value" where
  "or_null f x = (case x of None \<Rightarrow> Null | Some y \<Rightarrow> f y)"

definition confidence_word :: "confidence \<Rightarrow> string" where
  "confidence_word c = (case c of Low \<Rightarrow> ''low'' | Medium \<Rightarrow> ''medium'' | High \<Rightarrow> ''high'')"

definition kind_word :: "agent_action_kind \<Rightarrow> string" where
  "kind_word k = (case k of Pause_endpoint \<Rightarrow> ''pause_endpoint'' | Replay_dlq \<Rightarrow> ''replay_dlq'')"

definition tenant_row :: "tenant \<Rightarrow> sql_row" where
  "tenant_row t =
     [(''id'', V_uuid (t_id t)), (''name'', V_text (t_name t)), (''api_key_hash'', V_text (t_api_key_hash t)),
      (''rate_per_sec'', or_null V_int (t_rate_per_sec t)), (''max_inflight'', or_null V_int (t_max_inflight t)),
      (''created_at'', V_time (t_created_at t))]"

definition endpoint_cells :: "endpoint \<Rightarrow> sql_row" where
  "endpoint_cells e =
     [(''id'', V_uuid (ep_id e)), (''tenant_id'', V_uuid (ep_tenant_id e)), (''url'', V_text (ep_url e)),
      (''signing_secret'', V_text (ep_signing_secret e)), (''ordering'', V_text (ordering_word (ep_ordering e))),
      (''status'', V_text (endpoint_word (ep_status e))), (''event_types'', V_texts (ep_event_types e)),
      (''created_at'', V_time (ep_created_at e))]"

definition event_row :: "event \<Rightarrow> sql_row" where
  "event_row e =
     [(''id'', V_uuid (ev_id e)), (''tenant_id'', V_uuid (ev_tenant_id e)), (''event_type'', V_text (ev_event_type e)),
      (''payload'', V_json (ev_payload e)), (''idempotency_key'', or_null V_text (ev_idempotency_key e)),
      (''created_at'', V_time (ev_created_at e))]"

definition delivery_row :: "delivery \<Rightarrow> sql_row" where
  "delivery_row d =
     [(''id'', V_uuid (d_id d)), (''event_id'', V_uuid (d_event_id d)), (''endpoint_id'', V_uuid (d_endpoint_id d)),
      (''status'', V_text (status_word (d_status d))), (''attempt_count'', V_int (d_attempt_count d)),
      (''next_attempt_at'', or_null V_time (d_next_attempt_at d)), (''created_at'', V_time (d_created_at d)),
      (''updated_at'', V_time (d_updated_at d))]"

definition attempt_cells :: "attempt \<Rightarrow> sql_row" where
  "attempt_cells a =
     [(''id'', V_int (int (a_id a))), (''delivery_id'', V_uuid (a_delivery_id a)), (''attempt_number'', V_int (a_attempt_number a)),
      (''started_at'', V_time (a_started_at a)), (''latency_ms'', V_int (a_latency_ms a)),
      (''http_status'', or_null V_int (a_http_status a)), (''error_class'', or_null (V_text \<circ> error_word) (a_error_class a)),
      (''response_snippet'', or_null V_points (a_response_snippet a))]"

definition diagnosis_row :: "diagnosis \<Rightarrow> sql_row" where
  "diagnosis_row g =
     [(''id'', V_uuid (dg_id g)), (''endpoint_id'', V_uuid (dg_endpoint_id g)), (''triggered_by'', V_text (dg_triggered_by g)),
      (''root_cause'', V_text (dg_root_cause g)), (''confidence'', V_text (confidence_word (dg_confidence g))),
      (''evidence'', V_json (dg_evidence g)), (''recommendation'', V_text (dg_recommendation g)),
      (''draft_email'', V_text (dg_draft_email g)), (''status'', V_text (diagnosis_word (dg_status g))),
      (''cost_usd'', V_numeric (dg_cost_usd g)), (''created_at'', V_time (dg_created_at g))]"

definition action_row :: "agent_action \<Rightarrow> sql_row" where
  "action_row c =
     [(''id'', V_uuid (ac_id c)), (''diagnosis_id'', V_uuid (ac_diagnosis_id c)), (''endpoint_id'', V_uuid (ac_endpoint_id c)),
      (''action'', V_text (kind_word (ac_action c))), (''reason'', V_text (ac_reason c)),
      (''status'', V_text (action_word (ac_status c))), (''decided_at'', or_null V_time (ac_decided_at c)),
      (''created_at'', V_time (ac_created_at c))]"

definition rows_of_db :: "db \<Rightarrow> sql_data" where
  "rows_of_db s n =
     (if n = ''tenants'' then map tenant_row (tenants s)
      else if n = ''endpoints'' then map endpoint_cells (endpoints s)
      else if n = ''events'' then map event_row (events s)
      else if n = ''deliveries'' then map delivery_row (deliveries s)
      else if n = ''delivery_attempts'' then map attempt_cells (attempts s)
      else if n = ''diagnoses'' then map diagnosis_row (diagnoses s)
      else if n = ''agent_actions'' then map action_row (actions s)
      else [])"

section \<open>The constraints, on the rows of the model\<close>

text \<open>\<open>identity_free\<close>: the identity column, a \<open>BIGINT\<close>, has a number left for one row more.\<close>

definition attempt_fits :: "attempt \<Rightarrow> bool" where
  "attempt_fits a \<longleftrightarrow> attempt_storable a \<and> int (a_id a) < 2 ^ 63"

definition identity_free :: "db \<Rightarrow> bool" where
  "identity_free s \<longleftrightarrow> int (Suc (foldr max (map a_id (attempts s)) 0)) < 2 ^ 63"

definition values_fit :: "db \<Rightarrow> bool" where
  "values_fit s \<longleftrightarrow> list_all tenant_storable (tenants s) \<and> list_all endpoint_storable (endpoints s) \<and>
     list_all event_storable (events s) \<and> list_all delivery_storable (deliveries s) \<and>
     list_all attempt_fits (attempts s) \<and> list_all diagnosis_storable (diagnoses s) \<and> list_all action_storable (actions s)"

definition keyed_events :: "db \<Rightarrow> (uuid \<times> string) list" where
  "keyed_events s = concat (map (\<lambda>e. case ev_idempotency_key e of None \<Rightarrow> [] | Some k \<Rightarrow> [(ev_tenant_id e, k)]) (events s))"

definition keys_distinct :: "db \<Rightarrow> bool" where
  "keys_distinct s \<longleftrightarrow> distinct (map t_id (tenants s)) \<and> distinct (map t_api_key_hash (tenants s)) \<and>
     distinct (map ep_id (endpoints s)) \<and> distinct (map ev_id (events s)) \<and> distinct (keyed_events s) \<and>
     distinct (map d_id (deliveries s)) \<and> distinct (map a_id (attempts s)) \<and> distinct (map dg_id (diagnoses s)) \<and>
     distinct (map ac_id (actions s))"

definition no_dangling :: "db \<Rightarrow> bool" where
  "no_dangling s \<longleftrightarrow> ep_tenant_id ` set (endpoints s) \<subseteq> t_id ` set (tenants s) \<and>
     ev_tenant_id ` set (events s) \<subseteq> t_id ` set (tenants s) \<and>
     d_event_id ` set (deliveries s) \<subseteq> ev_id ` set (events s) \<and>
     d_endpoint_id ` set (deliveries s) \<subseteq> ep_id ` set (endpoints s) \<and>
     a_delivery_id ` set (attempts s) \<subseteq> d_id ` set (deliveries s) \<and>
     dg_endpoint_id ` set (diagnoses s) \<subseteq> ep_id ` set (endpoints s) \<and>
     ac_diagnosis_id ` set (actions s) \<subseteq> dg_id ` set (diagnoses s) \<and>
     ac_endpoint_id ` set (actions s) \<subseteq> ep_id ` set (endpoints s)"

lemma distinct_column:
  assumes "\<And>x. cell c (row x) = f (key x)" and "\<And>a b. f a = f b \<longleftrightarrow> a = b" and "\<And>a. f a \<noteq> Null"
  shows "distinct_on [c] (map row xs) \<longleftrightarrow> distinct (map key xs)"
proof -
  have "filter (\<lambda>vs. Null \<notin> set vs) (map (\<lambda>x. [f (key x)]) xs) = map (\<lambda>x. [f (key x)]) xs"
    using assms(3) [symmetric] by (intro filter_True) auto
  then show ?thesis using assms(1,2) by (simp add: distinct_on_def o_def distinct_map inj_on_def)
qed

lemma cells [simp]:
  "cell c [] = Null" "cell c ((d, v) # r) = (if d = c then v else cell c r)"
  by (simp_all add: cell_def)

lemma keyed_rows:
  "filter (\<lambda>vs. Null \<notin> set vs) (map (\<lambda>e. map (\<lambda>c. cell c (event_row e)) [''tenant_id'', ''idempotency_key'']) es) =
     map (\<lambda>(t, k). [V_uuid t, V_text k]) (concat (map (\<lambda>e. case ev_idempotency_key e of None \<Rightarrow> [] | Some k \<Rightarrow> [(ev_tenant_id e, k)]) es))"
  by (induction es) (auto simp: event_row_def or_null_def split: option.splits)

lemma distinct_keyed_events:
  "distinct_on [''tenant_id'', ''idempotency_key''] (map event_row (events s)) \<longleftrightarrow> distinct (keyed_events s)"
proof -
  have "inj_on (\<lambda>(t, k). [V_uuid t, V_text k]) A" for A by (auto simp: inj_on_def)
  then show ?thesis
    using keyed_rows [of "events s"] by (simp add: distinct_on_def keyed_events_def o_def distinct_map)
qed

lemmas row_defs = tenant_row_def endpoint_cells_def event_row_def delivery_row_def attempt_cells_def diagnosis_row_def action_row_def

lemma ids_distinct:
  "distinct_on [''id''] (map tenant_row ts) \<longleftrightarrow> distinct (map t_id ts)"
  "distinct_on [''api_key_hash''] (map tenant_row ts) \<longleftrightarrow> distinct (map t_api_key_hash ts)"
  "distinct_on [''id''] (map endpoint_cells es) \<longleftrightarrow> distinct (map ep_id es)"
  "distinct_on [''id''] (map event_row evs) \<longleftrightarrow> distinct (map ev_id evs)"
  "distinct_on [''id''] (map delivery_row ds) \<longleftrightarrow> distinct (map d_id ds)"
  "distinct_on [''id''] (map attempt_cells as) \<longleftrightarrow> distinct (map a_id as)"
  "distinct_on [''id''] (map diagnosis_row gs) \<longleftrightarrow> distinct (map dg_id gs)"
  "distinct_on [''id''] (map action_row cs) \<longleftrightarrow> distinct (map ac_id cs)"
  by (rule distinct_column [where f = V_uuid] distinct_column [where f = V_text] distinct_column [where f = "\<lambda>n. V_int (int n)"];
      simp add: row_defs)+

text \<open>The generic constraints of the models' schema, on the rows of the model, are these three.\<close>

lemma words_ok [simp]:
  "ordering_word m \<in> {''ordered'', ''unordered''}" "endpoint_word x \<in> {''active'', ''paused'', ''disabled''}"
  "status_word y \<in> {''pending'', ''delivering'', ''delivered'', ''failed'', ''dead''}"
  "confidence_word c \<in> {''low'', ''medium'', ''high''}" "diagnosis_word z \<in> {''open'', ''acknowledged'', ''resolved''}"
  "kind_word k \<in> {''pause_endpoint'', ''replay_dlq''}" "action_word q \<in> {''pending'', ''approved'', ''rejected''}"
  "text_ok (ordering_word m)" "text_ok (endpoint_word x)" "text_ok (status_word y)" "text_ok (confidence_word c)"
  "text_ok (diagnosis_word z)" "text_ok (kind_word k)" "text_ok (action_word q)" "text_ok (error_word e)"
  by (auto simp: ordering_word_def endpoint_word_def status_word_def confidence_word_def diagnosis_word_def kind_word_def
      action_word_def error_word_def text_ok_def split: ordering_mode.splits endpoint_status.splits delivery_status.splits
      confidence.splits diagnosis_status.splits agent_action_kind.splits action_status.splits error_class.splits)

lemma table_names [simp]:
  "rows_of_db s ''tenants'' = map tenant_row (tenants s)" "rows_of_db s ''endpoints'' = map endpoint_cells (endpoints s)"
  "rows_of_db s ''events'' = map event_row (events s)" "rows_of_db s ''deliveries'' = map delivery_row (deliveries s)"
  "rows_of_db s ''delivery_attempts'' = map attempt_cells (attempts s)" "rows_of_db s ''diagnoses'' = map diagnosis_row (diagnoses s)"
  "rows_of_db s ''agent_actions'' = map action_row (actions s)"
  by (simp_all add: rows_of_db_def)

lemma pred_option_all: "pred_option P x \<longleftrightarrow> (\<forall>y. x = Some y \<longrightarrow> P y)"
  by (cases x) simp_all

lemmas table_ok_simps = table_ok_def column_simps column_ok_def references_ok_def ids_distinct distinct_keyed_events list_all_iff row_defs
  or_null_def pred_option_all image_image image_subset_iff image_iff

lemma tenants_ok: "table_ok (rows_of_db s) ''tenants'' tenant_table \<longleftrightarrow>
    list_all tenant_storable (tenants s) \<and> distinct (map t_id (tenants s)) \<and> distinct (map t_api_key_hash (tenants s))"
  by (auto simp: tenant_table_def table_ok_simps tenant_storable_def split: option.splits)

lemma endpoints_ok: "table_ok (rows_of_db s) ''endpoints'' endpoint_table \<longleftrightarrow>
    list_all endpoint_storable (endpoints s) \<and> distinct (map ep_id (endpoints s)) \<and> ep_tenant_id ` set (endpoints s) \<subseteq> t_id ` set (tenants s)"
  by (auto simp: words_ok [simplified] endpoint_table_def table_ok_simps endpoint_storable_def split: option.splits)

lemma events_ok: "table_ok (rows_of_db s) ''events'' event_table \<longleftrightarrow>
    list_all event_storable (events s) \<and> distinct (map ev_id (events s)) \<and> distinct (keyed_events s) \<and>
    ev_tenant_id ` set (events s) \<subseteq> t_id ` set (tenants s)"
  by (auto simp: event_table_def table_ok_simps event_storable_def split: option.splits)

lemma deliveries_ok: "table_ok (rows_of_db s) ''deliveries'' delivery_table \<longleftrightarrow>
    list_all delivery_storable (deliveries s) \<and> distinct (map d_id (deliveries s)) \<and>
    d_event_id ` set (deliveries s) \<subseteq> ev_id ` set (events s) \<and> d_endpoint_id ` set (deliveries s) \<subseteq> ep_id ` set (endpoints s)"
  by (auto simp: words_ok [simplified] delivery_table_def table_ok_simps delivery_storable_def split: option.splits)

lemma attempts_ok: "table_ok (rows_of_db s) ''delivery_attempts'' attempt_table \<longleftrightarrow>
    list_all attempt_fits (attempts s) \<and> distinct (map a_id (attempts s)) \<and> a_delivery_id ` set (attempts s) \<subseteq> d_id ` set (deliveries s)"
  by (auto simp: attempt_table_def table_ok_simps attempt_fits_def attempt_storable_def split: option.splits)

lemma diagnoses_ok: "table_ok (rows_of_db s) ''diagnoses'' diagnosis_table \<longleftrightarrow>
    list_all diagnosis_storable (diagnoses s) \<and> distinct (map dg_id (diagnoses s)) \<and> dg_endpoint_id ` set (diagnoses s) \<subseteq> ep_id ` set (endpoints s)"
  by (auto simp: words_ok [simplified] diagnosis_table_def table_ok_simps diagnosis_storable_def split: option.splits)

lemma actions_ok: "table_ok (rows_of_db s) ''agent_actions'' agent_action_table \<longleftrightarrow>
    list_all action_storable (actions s) \<and> distinct (map ac_id (actions s)) \<and>
    ac_diagnosis_id ` set (actions s) \<subseteq> dg_id ` set (diagnoses s) \<and> ac_endpoint_id ` set (actions s) \<subseteq> ep_id ` set (endpoints s)"
  by (auto simp: words_ok [simplified] agent_action_table_def table_ok_simps action_storable_def split: option.splits)

lemma satisfies_metadata:
  "satisfies metadata (rows_of_db s) \<longleftrightarrow> values_fit s \<and> keys_distinct s \<and> no_dangling s"
  unfolding satisfies_def metadata_def
  by (auto simp: tenants_ok endpoints_ok events_ok deliveries_ok attempts_ok diagnoses_ok actions_ok
      values_fit_def keys_distinct_def no_dangling_def)

section \<open>Inserts\<close>

text \<open>The statements that insert, and the database with the row of an insert.\<close>

fun inserts :: "db_write \<Rightarrow> bool" where
  "inserts (Upd_endpoint i f) = False"
| "inserts (Upd_delivery i f) = False"
| "inserts (Upd_diagnosis i f) = False"
| "inserts (Upd_action i f) = False"
| "inserts (Del_endpoint i) = False"
| "inserts _ = True"

fun added :: "db_write \<Rightarrow> db \<Rightarrow> db" where
  "added (Ins_tenant t) s = s\<lparr>tenants := tenants s @ [t]\<rparr>"
| "added (Ins_endpoint e) s = s\<lparr>endpoints := endpoints s @ [e]\<rparr>"
| "added (Ins_event e) s = s\<lparr>events := events s @ [e]\<rparr>"
| "added (Ins_delivery d) s = s\<lparr>deliveries := deliveries s @ [d]\<rparr>"
| "added (Ins_attempt a) s = s\<lparr>attempts := attempts s @ [a\<lparr>a_id := Suc (foldr max (map a_id (attempts s)) 0)\<rparr>]\<rparr>"
| "added (Ins_diagnosis g) s = s\<lparr>diagnoses := diagnoses s @ [g]\<rparr>"
| "added (Ins_action c) s = s\<lparr>actions := actions s @ [c]\<rparr>"
| "added _ s = s"

lemma next_id_fresh: "Suc (foldr max (map f xs) 0) \<notin> f ` set xs" for f :: "'a \<Rightarrow> nat"
proof
  have le: "x \<in> set xs \<Longrightarrow> f x \<le> foldr max (map f xs) 0" for x by (induction xs) auto
  assume "Suc (foldr max (map f xs) 0) \<in> f ` set xs"
  then obtain x where "x \<in> set xs" "f x = Suc (foldr max (map f xs) 0)" by auto
  then show False using le [of x] by simp
qed

lemma find_by_member: "find_by f k xs = None \<longleftrightarrow> k \<notin> f ` set xs" "(\<exists>x. find_by f k xs = Some x) \<longleftrightarrow> k \<in> f ` set xs"
  using find_by_None_iff [of f k xs] by (auto simp del: not_None_eq simp: not_None_eq [symmetric])

lemma free_key: "event_key_free e s \<longleftrightarrow> (case ev_idempotency_key e of None \<Rightarrow> True | Some k \<Rightarrow> (ev_tenant_id e, k) \<notin> set (keyed_events s))"
  by (fastforce simp: event_key_free_def keyed_events_def split: option.splits)

lemmas schema_laws = values_fit_def keys_distinct_def no_dangling_def

text \<open>C12: The database of the model reacts to an insert as the schema says: with the rows satisfying
  the models' constraints, and a number left in the identity column of the attempts, an insert
  into any table succeeds exactly if the rows with the new one satisfy the constraints (the type of
  every column, \<open>NOT NULL\<close>, \<open>CHECK\<close>, unique keys, references), and then adds just that row.\<close>

theorem inserts_follow_schema:
  assumes "satisfies metadata (rows_of_db s)" and "inserts w" and "identity_free s"
  shows "apply_write w s = Inr s' \<longleftrightarrow> s' = added w s \<and> satisfies metadata (rows_of_db (added w s))"
proof -
  have ok: "values_fit s" "keys_distinct s" "no_dangling s" using assms(1) by (simp_all add: satisfies_metadata)
  show ?thesis
    using ok assms(2,3) next_id_fresh [of a_id "attempts s"]
    by (cases w) (auto simp: satisfies_metadata schema_laws attempt_fits_def identity_free_def find_by_member free_key keyed_events_def
        attempt_storable_def split: option.splits)
qed

section \<open>Deletes\<close>

text \<open>The references of a schema: the table and column that refer, the table and column they refer to.\<close>

definition schema_references :: "schema \<Rightarrow> (string \<times> string \<times> string \<times> string) list" where
  "schema_references sch = concat (map (\<lambda>(n, t). concat (map (\<lambda>(c, col). case c_references col of
     None \<Rightarrow> [] | Some (tbl, k) \<Rightarrow> [(n, c, tbl, k)]) (t_columns t))) (s_tables sch))"

text \<open>The rows that go when row \<open>i\<close> of a table is deleted: \<open>ON DELETE CASCADE\<close>, along every reference of
  the schema.\<close>

inductive doomed :: "schema \<Rightarrow> sql_data \<Rightarrow> string \<Rightarrow> uuid \<Rightarrow> string \<Rightarrow> sql_row \<Rightarrow> bool"
  for sch data root i where
  row: "r \<in> set (data root) \<Longrightarrow> cell ''id'' r = V_uuid i \<Longrightarrow> doomed sch data root i root r"
| cascade: "doomed sch data root i tbl r' \<Longrightarrow> (n, c, tbl, k) \<in> set (schema_references sch) \<Longrightarrow>
    r \<in> set (data n) \<Longrightarrow> cell c r = cell k r' \<Longrightarrow> cell c r \<noteq> Null \<Longrightarrow> doomed sch data root i n r"

definition gone_deliveries :: "uuid \<Rightarrow> db \<Rightarrow> delivery set" where
  "gone_deliveries i s = {d \<in> set (deliveries s). d_endpoint_id d = i}"

definition gone_diagnoses :: "uuid \<Rightarrow> db \<Rightarrow> diagnosis set" where
  "gone_diagnoses i s = {g \<in> set (diagnoses s). dg_endpoint_id g = i}"

definition marked :: "uuid \<Rightarrow> db \<Rightarrow> string \<Rightarrow> sql_row set" where
  "marked i s n =
     (if n = ''endpoints'' then endpoint_cells ` {e \<in> set (endpoints s). ep_id e = i}
      else if n = ''deliveries'' then delivery_row ` gone_deliveries i s
      else if n = ''diagnoses'' then diagnosis_row ` gone_diagnoses i s
      else if n = ''delivery_attempts'' then attempt_cells ` {a \<in> set (attempts s). a_delivery_id a \<in> d_id ` gone_deliveries i s}
      else if n = ''agent_actions'' then action_row ` {c \<in> set (actions s). ac_endpoint_id c = i \<or> ac_diagnosis_id c \<in> dg_id ` gone_diagnoses i s}
      else {})"

lemma metadata_references: "schema_references metadata =
    [(''endpoints'', ''tenant_id'', ''tenants'', ''id''), (''events'', ''tenant_id'', ''tenants'', ''id''),
     (''deliveries'', ''event_id'', ''events'', ''id''), (''deliveries'', ''endpoint_id'', ''endpoints'', ''id''),
     (''diagnoses'', ''endpoint_id'', ''endpoints'', ''id''),
     (''agent_actions'', ''diagnosis_id'', ''diagnoses'', ''id''), (''agent_actions'', ''endpoint_id'', ''endpoints'', ''id''),
     (''delivery_attempts'', ''delivery_id'', ''deliveries'', ''id'')]"
  by (simp add: schema_references_def metadata_def table_simps column_simps)

lemma doomed_marked:
  "doomed metadata (rows_of_db s) ''endpoints'' i n r \<Longrightarrow> r \<in> marked i s n"
proof (induction rule: doomed.induct)
  case (row r)
  then show ?case by (auto simp: marked_def row_defs)
next
  case (cascade tbl r' n c k r)
  then show ?case
    unfolding metadata_references
    by (simp, elim disjE; auto simp: marked_def gone_deliveries_def gone_diagnoses_def row_defs)
qed

lemma marked_doomed:
  assumes "no_dangling s" and "r \<in> marked i s n"
  shows "doomed metadata (rows_of_db s) ''endpoints'' i n r"
proof -
  let ?gone = "doomed metadata (rows_of_db s) ''endpoints'' i"
  have endpoints: "?gone ''endpoints'' (endpoint_cells e)" if "e \<in> set (endpoints s)" "ep_id e = i" for e
    using that by (intro doomed.row) (auto simp: row_defs)
  have child: "?gone m r'" if refs: "(m, c, ''endpoints'', ''id'') \<in> set (schema_references metadata)" "r' \<in> set (rows_of_db s m)"
      and here: "cell c r' = V_uuid i" "i \<in> ep_id ` set (endpoints s)" for m c r'
  proof -
    obtain e where e: "e \<in> set (endpoints s)" "ep_id e = i" using here(2) by auto
    then have "cell c r' = cell ''id'' (endpoint_cells e)" using here(1) by (simp add: row_defs)
    moreover have "cell c r' \<noteq> Null" using here(1) by simp
    ultimately show ?thesis using doomed.cascade [OF endpoints [OF e] refs] by blast
  qed
  have known: "d_endpoint_id d \<in> ep_id ` set (endpoints s)" if "d \<in> set (deliveries s)" for d
    using assms(1) that by (auto simp: no_dangling_def)
  have known': "dg_endpoint_id g \<in> ep_id ` set (endpoints s)" if "g \<in> set (diagnoses s)" for g
    using assms(1) that by (auto simp: no_dangling_def)
  have known'': "ac_endpoint_id a \<in> ep_id ` set (endpoints s)" if "a \<in> set (actions s)" for a
    using assms(1) that by (auto simp: no_dangling_def)
  have delivery: "?gone ''deliveries'' (delivery_row d)" if "d \<in> gone_deliveries i s" for d
    using that known [of d] by (intro child [of _ "''endpoint_id''"]) (auto simp: metadata_references gone_deliveries_def row_defs)
  have diagnosis: "?gone ''diagnoses'' (diagnosis_row g)" if "g \<in> gone_diagnoses i s" for g
    using that known' [of g] by (intro child [of _ "''endpoint_id''"]) (auto simp: metadata_references gone_diagnoses_def row_defs)
  have attempt: "?gone ''delivery_attempts'' (attempt_cells a)"
    if "a \<in> set (attempts s)" "d \<in> gone_deliveries i s" "a_delivery_id a = d_id d" for a d
    using that by (intro doomed.cascade [OF delivery [OF that(2)], of _ "''delivery_id''" "''id''"]) (auto simp: metadata_references row_defs)
  have action: "?gone ''agent_actions'' (action_row a)" if "a \<in> set (actions s)" "g \<in> gone_diagnoses i s" "ac_diagnosis_id a = dg_id g" for a g
    using that by (intro doomed.cascade [OF diagnosis [OF that(2)], of _ "''diagnosis_id''" "''id''"]) (auto simp: metadata_references row_defs)
  have own: "?gone ''agent_actions'' (action_row a)" if "a \<in> set (actions s)" "ac_endpoint_id a = i" for a
    using that known'' [of a] by (intro child [of _ "''endpoint_id''"]) (auto simp: metadata_references row_defs)
  show ?thesis
    using assms(2) endpoints delivery diagnosis attempt action own by (auto simp: marked_def split: if_splits)
qed

lemma kept_rows:
  assumes "\<And>x. x \<in> set xs \<Longrightarrow> row x \<in> D \<longleftrightarrow> \<not> P x"
  shows "filter (\<lambda>r. r \<notin> D) (map row xs) = map row (filter P xs)"
  using assms by (simp add: filter_map o_def cong: filter_cong)

lemma same_cells:
  "endpoint_cells e = endpoint_cells e' \<Longrightarrow> ep_id e = ep_id e'"
  "delivery_row d = delivery_row d' \<Longrightarrow> d_endpoint_id d = d_endpoint_id d'"
  "diagnosis_row g = diagnosis_row g' \<Longrightarrow> dg_endpoint_id g = dg_endpoint_id g'"
  "attempt_cells a = attempt_cells a' \<Longrightarrow> a_delivery_id a = a_delivery_id a'"
  "action_row c = action_row c' \<Longrightarrow> ac_endpoint_id c = ac_endpoint_id c' \<and> ac_diagnosis_id c = ac_diagnosis_id c'"
  by (simp_all add: row_defs)

lemma gone_lists:
  "set (map d_id (filter (\<lambda>d. d_endpoint_id d = i) (deliveries s))) = d_id ` gone_deliveries i s"
  "set (map dg_id (filter (\<lambda>g. dg_endpoint_id g = i) (diagnoses s))) = dg_id ` gone_diagnoses i s"
  by (auto simp: gone_deliveries_def gone_diagnoses_def)

lemma delete_tables:
  "rows_of_db (delete_endpoint_rows i s) ''tenants'' = map tenant_row (tenants s)"
  "rows_of_db (delete_endpoint_rows i s) ''events'' = map event_row (events s)"
  "rows_of_db (delete_endpoint_rows i s) ''endpoints'' = filter (\<lambda>r. r \<notin> marked i s ''endpoints'') (map endpoint_cells (endpoints s))"
  "rows_of_db (delete_endpoint_rows i s) ''deliveries'' = filter (\<lambda>r. r \<notin> marked i s ''deliveries'') (map delivery_row (deliveries s))"
  "rows_of_db (delete_endpoint_rows i s) ''diagnoses'' = filter (\<lambda>r. r \<notin> marked i s ''diagnoses'') (map diagnosis_row (diagnoses s))"
  "rows_of_db (delete_endpoint_rows i s) ''delivery_attempts'' = filter (\<lambda>r. r \<notin> marked i s ''delivery_attempts'') (map attempt_cells (attempts s))"
  "rows_of_db (delete_endpoint_rows i s) ''agent_actions'' = filter (\<lambda>r. r \<notin> marked i s ''agent_actions'') (map action_row (actions s))"
  unfolding table_names delete_endpoint_rows_def Let_def gone_lists
  by (simp_all add: marked_def delete_by_def) (rule kept_rows [symmetric]; auto simp: gone_deliveries_def gone_diagnoses_def dest: same_cells)+

text \<open>C13: Deleting an endpoint removes exactly the rows \<open>ON DELETE CASCADE\<close> reaches from it through the
  references of the schema, table by table, and nothing else.\<close>

theorem delete_cascades:
  assumes "satisfies metadata (rows_of_db s)"
  shows "rows_of_db (delete_endpoint_rows i s) n =
    filter (\<lambda>r. \<not> doomed metadata (rows_of_db s) ''endpoints'' i n r) (rows_of_db s n)"
proof -
  have "doomed metadata (rows_of_db s) ''endpoints'' i n r \<longleftrightarrow> r \<in> marked i s n" for r
    using doomed_marked marked_doomed assms satisfies_metadata by blast
  moreover have "rows_of_db (delete_endpoint_rows i s) n = filter (\<lambda>r. r \<notin> marked i s n) (rows_of_db s n)"
  proof (cases "n \<in> {''tenants'', ''events'', ''endpoints'', ''deliveries'', ''diagnoses'', ''delivery_attempts'', ''agent_actions''}")
    case True
    moreover have "marked i s ''tenants'' = {}" "marked i s ''events'' = {}" by (simp_all add: marked_def)
    ultimately show ?thesis by (elim insertE emptyE) (simp_all add: delete_tables [unfolded table_names])
  next
    case False
    then show ?thesis by (simp add: rows_of_db_def)
  qed
  ultimately show ?thesis by simp
qed

section \<open>Witnesses\<close>

lemma demo_satisfies: "satisfies metadata (rows_of_db (demo_db Ordered Pending))"
  by (simp add: satisfies_metadata values_fit_def keys_distinct_def no_dangling_def demo_db_def empty_db_def keyed_events_def storable_simps)

text \<open>A root cause with a NUL, and one without.\<close>

definition sample_diagnosis :: "string \<Rightarrow> diagnosis" where
  "sample_diagnosis cause = \<lparr>dg_id = 7, dg_endpoint_id = 2, dg_triggered_by = ''manual'', dg_root_cause = cause, dg_confidence = Low,
     dg_evidence = JObj [], dg_recommendation = [], dg_draft_email = [], dg_status = DOpen, dg_cost_usd = 0, dg_created_at = 0\<rparr>"

lemma inserts_follow_schema_witness:
  "apply_write (Ins_diagnosis (sample_diagnosis [CHR 0x00])) (demo_db Ordered Pending) \<notin> range Inr \<and>
   apply_write (Ins_diagnosis (sample_diagnosis ''slow'')) (demo_db Ordered Pending) =
     Inr (added (Ins_diagnosis (sample_diagnosis ''slow'')) (demo_db Ordered Pending))"
proof -
  have free: "identity_free (demo_db Ordered Pending)" by (simp add: identity_free_def demo_db_def empty_db_def)
  have "\<not> satisfies metadata (rows_of_db (added (Ins_diagnosis (sample_diagnosis [CHR 0x00])) (demo_db Ordered Pending)))"
    by (simp add: satisfies_metadata values_fit_def sample_diagnosis_def diagnosis_storable_def text_ok_def)
  moreover have "satisfies metadata (rows_of_db (added (Ins_diagnosis (sample_diagnosis ''slow'')) (demo_db Ordered Pending)))"
    using demo_satisfies by (simp add: satisfies_metadata values_fit_def keys_distinct_def no_dangling_def sample_diagnosis_def
        diagnosis_storable_def text_ok_def demo_db_def empty_db_def keyed_events_def)
  ultimately show ?thesis
    using inserts_follow_schema [OF demo_satisfies _ free, of "Ins_diagnosis (sample_diagnosis r)" for r] by auto
qed

lemma delete_cascades_witness:
  "rows_of_db (delete_endpoint_rows 2 (demo_db Ordered Pending)) ''deliveries'' =
    filter (\<lambda>r. \<not> doomed metadata (rows_of_db (demo_db Ordered Pending)) ''endpoints'' 2 ''deliveries'' r)
      (rows_of_db (demo_db Ordered Pending) ''deliveries'')"
  by (rule delete_cascades [OF demo_satisfies])

end
