(* ===== verification/Shared_Invariant.thy ===== *)
theory Shared_Invariant
  imports Worker_Safety
begin

text \<open>
  Invariants of the state all processes share, and of what this process did to it.  A process
  upholds an invariant if it leads from worlds that satisfy it to worlds that do, whatever calls
  fail and wherever it dies, as long as the other processes (the environment steps of the oracle)
  uphold it too.  The rules carry that through a program text; for invariants of the streams they
  are applied to the worker's.
\<close>

section \<open>Rules\<close>

locale shared_invariant =
  fixes I :: "action list \<Rightarrow> shared \<Rightarrow> bool"
  assumes clock: "I tr s \<Longrightarrow> I tr (s\<lparr>sh_now := t\<rparr>)"
    and later: "I tr s \<Longrightarrow> I (a # tr) s"
begin

definition fair :: "world \<Rightarrow> bool" where
  "fair w \<longleftrightarrow> I (trace (w_loc w)) (w_sh w) \<and> (\<forall>ev \<in> set (w_oracle w). \<forall>tr s. I tr s \<longrightarrow> I tr (io_env ev s))"

definition upholds :: "'a proc \<Rightarrow> bool" where
  "upholds m \<longleftrightarrow> (\<forall>w. fair w \<longrightarrow> fair (snd (m w)))"

lemma upholdsD: "upholds m \<Longrightarrow> m w = (r, w') \<Longrightarrow> fair w \<Longrightarrow> fair w'"
  unfolding upholds_def by (metis snd_conv)

lemma fair_local: "trace l = trace (w_loc w) \<Longrightarrow> fair (w\<lparr>w_loc := l\<rparr>) = fair w"
  by (simp add: fair_def)

lemma up_return: "upholds (return x)" by (simp add: upholds_def return_def)
lemma up_raise: "upholds (raise e)" by (simp add: upholds_def raise_def)

lemma up_bind: "upholds m \<Longrightarrow> (\<And>x. upholds (f x)) \<Longrightarrow> upholds (bind m f)"
  unfolding upholds_def bind_def by (fastforce split: prod.splits sum.splits)

lemma up_seq: "upholds m \<Longrightarrow> upholds k \<Longrightarrow> upholds (seq m k)"
  unfolding seq_def by (intro up_bind)

lemma up_only_if: "(b \<Longrightarrow> upholds m) \<Longrightarrow> upholds (only_if b m)"
  by (simp add: only_if_def up_return)

lemma up_if: "(b \<Longrightarrow> upholds m) \<Longrightarrow> (\<not> b \<Longrightarrow> upholds k) \<Longrightarrow> upholds (if b then m else k)"
  by simp

lemma up_option: "upholds m \<Longrightarrow> (\<And>y. upholds (k y)) \<Longrightarrow> upholds (case x of None \<Rightarrow> m | Some y \<Rightarrow> k y)"
  by (cases x) simp_all

lemma up_prod: "(\<And>a b. upholds (f a b)) \<Longrightarrow> upholds (case p of (a, b) \<Rightarrow> f a b)"
  by (cases p) simp

lemma up_float: "(\<And>s. upholds (f s)) \<Longrightarrow> upholds a \<Longrightarrow> upholds b \<Longrightarrow> upholds c \<Longrightarrow>
    upholds (case x of Fin s \<Rightarrow> f s | NaN \<Rightarrow> a | PosInf \<Rightarrow> b | NegInf \<Rightarrow> c)"
  by (cases x) simp_all

lemma up_try_except: "upholds m \<Longrightarrow> (\<And>e. upholds (h e)) \<Longrightarrow> upholds (try_except m h)"
  unfolding upholds_def try_except_def by (fastforce split: prod.splits sum.splits)

lemma up_try_finally: "upholds m \<Longrightarrow> upholds fin \<Longrightarrow> upholds (try_finally m fin)"
  unfolding upholds_def try_finally_def by (fastforce split: prod.splits sum.splits)

lemma up_for_each: "(\<And>x. upholds (f x)) \<Longrightarrow> upholds (for_each xs f)"
  by (induction xs) (simp_all add: up_return up_seq)

lemma up_with_session: "upholds m \<Longrightarrow> upholds (with_session m)"
  unfolding upholds_def with_session_def by (auto split: prod.splits) (metis fair_local snd_conv trace_clear_session(1))

lemma up_modify_local: "(\<And>l. trace (f l) = trace l) \<Longrightarrow> upholds (modify_local f)"
  by (simp add: upholds_def modify_local_def fair_local)

lemma up_inputs:
  "upholds settings_of" "upholds time_time" "upholds db_now" "upholds uuid4" "upholds random_draw"
  "upholds reply_input" "upholds (get_local g)" "upholds (count_metric m)" "upholds (add_pending ws)"
  by (simp_all add: upholds_def settings_of_def time_time_def db_now_def uuid4_def random_draw_def next_draw_def
      bind_def reply_input_def get_local_def count_metric_def add_pending_def modify_local_def fair_local)

lemma up_effect:
  assumes "\<And>w. I (trace (w_loc w)) (w_sh w) \<Longrightarrow> I (trace (w_loc (snd (f w)))) (w_sh (snd (f w)))" and "\<And>w. w_oracle (snd (f w)) = w_oracle w"
  shows "upholds (effect co f)"
  unfolding upholds_def
proof (intro allI impI)
  fix w assume w: "fair w"
  obtain ev rest where next_call: "(case w_oracle w of [] \<Rightarrow> (calm_event, []) | ev # rest \<Rightarrow> (ev, rest)) = (ev, rest)"
    by (rule prod.exhaust)
  let ?w = "w\<lparr>w_sh := advance ev (w_sh w), w_oracle := rest\<rparr>"
  have "I (trace (w_loc w)) (io_env ev (w_sh w))" "\<forall>ev \<in> set rest. \<forall>tr s. I tr s \<longrightarrow> I tr (io_env ev s)"
    using next_call w by (auto simp: fair_def calm_event_def split: list.splits)
  then have "fair ?w" by (simp add: fair_def advance_def clock)
  moreover from this have "fair (snd (f ?w))" using assms [of ?w] by (simp add: fair_def)
  ultimately show "fair (snd (effect co f w))"
    using next_call by (simp add: effect_def Let_def split: fault.splits)
qed

lemma up_redis: "(\<And>tr s. I tr s \<Longrightarrow> I (act (fst (f s)) # tr) (snd (f s))) \<Longrightarrow> upholds (redis act f)"
  unfolding redis_def by (rule up_effect) (simp_all add: log_action_def split: prod.splits, metis fst_conv snd_conv)

lemma up_redis_unit: "(\<And>tr s. I tr s \<Longrightarrow> I (act # tr) (f s)) \<Longrightarrow> upholds (redis_unit act f)"
  unfolding redis_unit_def by (rule up_redis) simp

lemma up_query: "upholds (query act q)"
  unfolding query_def by (rule up_effect) (auto simp: log_action_def later split: sum.splits)

lemma up_commit: "(\<And>tr s d. I tr s \<Longrightarrow> I tr (s\<lparr>sh_db := d\<rparr>)) \<Longrightarrow> upholds commit"
  unfolding commit_def by (rule up_effect) (auto simp: log_action_def later split: sum.splits)

lemma up_http_post: "upholds (http_post rq)"
  unfolding http_post_def by (intro up_bind up_inputs up_prod, rule up_effect) (auto simp: log_action_def clock later)

lemma up_except_redis: "upholds m \<Longrightarrow> upholds h \<Longrightarrow> upholds (except_redis m h)"
  unfolding upholds_def except_redis_def by (fastforce split: prod.splits sum.splits)

lemma up_sleep: "upholds (sleep d)"
  unfolding sleep_def by (rule up_effect) (auto simp: log_action_def clock later)

lemma up_backoff: "upholds (backoff x)"
  unfolding backoff_def by (intro up_bind up_inputs up_seq up_sleep up_modify_local) simp

lemma up_suppress: "upholds m \<Longrightarrow> upholds (suppress m)"
  unfolding suppress_def by (intro up_try_except up_return)

lemmas upholds_rules = up_return up_raise up_bind up_seq up_only_if up_if up_option up_prod up_float up_try_except up_try_finally up_for_each
  up_with_session up_modify_local up_inputs up_query up_http_post

end

section \<open>Invariants of the streams\<close>

text \<open>What a worker does in front of a stream entry's acknowledgement leaves the streams alone.\<close>

locale stream_invariant = shared_invariant +
  assumes streams_only: "sh_streams s = sh_streams s' \<Longrightarrow> I tr s \<Longrightarrow> I tr s'"
begin

lemma up_elsewhere: "(\<And>s. sh_streams (snd (f s)) = sh_streams s) \<Longrightarrow> upholds (redis act f)"
  by (rule up_redis) (metis streams_only later)

lemma up_elsewhere_unit: "(\<And>s. sh_streams (f s) = sh_streams s) \<Longrightarrow> upholds (redis_unit act f)"
  by (rule up_redis_unit) (metis streams_only later)

lemma up_commits: "upholds commit"
  by (rule up_commit) (rule streams_only, simp_all)

lemmas worker_rules = upholds_rules up_elsewhere up_elsewhere_unit up_commits

lemma up_session_rows: "upholds (load_delivery d)" "upholds (load_endpoint e)"
  by (auto simp: upholds_def load_delivery_def load_endpoint_def fair_local split: option.splits)

lemma up_option_map: "(\<And>x. upholds (f x)) \<Longrightarrow> upholds (option_map_proc f x)"
  unfolding option_map_proc_def by (auto intro!: worker_rules split: option.split)

lemma up_rows: "upholds (select_delivery i)" "upholds (select_endpoint i)" "upholds (select_event i)" "upholds (select_tenant_one i)"
  "upholds (refresh_delivery d)" "upholds (assign_delivery d f)" "upholds (assign_endpoint e g)"
  unfolding select_delivery_def select_endpoint_def select_event_def select_tenant_one_def refresh_delivery_def assign_delivery_def
    assign_endpoint_def
  by (intro worker_rules up_option_map up_session_rows; simp)+

lemma up_redis_calls: "upholds (schedule_retry d e p x n)" "upholds (acquire_lock p)" "upholds (release_lock p t)" "upholds (peek_head p)"
  "upholds (pop_head p d)" "upholds (take_token i r n')" "upholds (acquire_slot i m n')" "upholds (release_slot i t)"
  "upholds (record_outcome p b n')" "upholds (allow_request p n')" "upholds (should_auto_disable p n')"
  unfolding schedule_retry_def acquire_lock_def release_lock_def peek_head_def pop_head_def take_token_def acquire_slot_def release_slot_def
    record_outcome_def allow_request_def should_auto_disable_def Let_def
  by (intro worker_rules; simp split: prod.splits)+

lemma up_attempt: "upholds (process_delivery d)"
  unfolding process_delivery_def attempt_delivery_def record_attempt_def settle_delivery_def send_delivery_def record_delivery_def
    timedelta_seconds_def Let_def
  by (intro worker_rules up_rows up_redis_calls)

lemma up_gates: "upholds (check_gates dl ep now)" "upholds (gate_out dl ep reason x)"
  unfolding check_gates_def gate_out_def defer_delivery_def Let_def
  by (intro worker_rules up_rows up_redis_calls)+

lemma up_deliver: "upholds (deliver_with_gates d)"
  unfolding deliver_with_gates_def with_slot_and_lock_def gated_body_def attempt_and_record_def release_all_def Let_def
  by (intro worker_rules up_rows up_redis_calls up_gates up_attempt; simp)

lemma up_handle:
  assumes "\<And>tr s. I tr s \<Longrightarrow> I (Xack key i # tr) (s\<lparr>sh_streams := (sh_streams s)(key := xack i (sh_streams s key))\<rparr>)"
  shows "upholds (handle_message key i flds)"
  unfolding handle_message_def xack_proc_def
  by (intro worker_rules up_deliver up_redis_unit assms)

end

end
