(* ===== verification/Reclaim.thy ===== *)
theory Reclaim
  imports Shared_Invariant Worker_Runs
begin

text \<open>
  That the sweep over abandoned entries ends (\<open>reclaim_stale\<close> in \<open>relay/delivery/worker.py\<close>): every
  \<open>XAUTOCLAIM\<close> either ends the loop or moves its cursor past an entry that was pending.
\<close>

section \<open>One claim\<close>

lemma claim_scan_sorted:
  assumes "claim_scan entry c t idle a n ps = (ms, qs, cur)" and "sorted_wrt (<) (map pe_id ps)"
  shows "sorted_wrt (<) (map pe_id qs) \<and> pe_id ` set qs \<subseteq> pe_id ` set ps"
  using assms
proof (induction entry c t idle a n ps arbitrary: ms qs cur rule: claim_scan.induct)
  case (4 entry c t idle a n p ps)
  then show ?case
    by (fastforce split: option.splits if_splits prod.splits)
qed auto

lemma claim_scan_cursor:
  assumes "claim_scan entry c t idle a n ps = (ms, qs, Some i)"
  shows "i \<in> pe_id ` set ps"
  using assms
proof (induction entry c t idle a n ps arbitrary: ms qs i rule: claim_scan.induct)
  case (4 entry c t idle a n p ps)
  then show ?case
    by (fastforce split: option.splits if_splits prod.splits)
qed auto

text \<open>The first entry is always looked at, so the cursor is past it.\<close>

lemma claim_scan_advances:
  assumes "claim_scan entry c t idle (Suc a) (Suc n) (p # ps) = (ms, qs, Some i)" and "sorted_wrt (<) (map pe_id (p # ps))"
  shows "i \<in> pe_id ` set ps \<and> pe_id p < i"
proof -
  have "\<exists>n' ms' qs'. claim_scan entry c t idle a n' ps = (ms', qs', Some i)"
    using assms(1) by (auto split: option.splits if_splits prod.splits)
  then have "i \<in> pe_id ` set ps" using claim_scan_cursor by blast
  then show ?thesis using assms(2) by auto
qed

section \<open>The sweep\<close>

text \<open>The pending entries of the stream are among \<open>A\<close>, in order.\<close>

definition pending_within :: "string \<Rightarrow> stream_id set \<Rightarrow> shared \<Rightarrow> bool" where
  "pending_within key A s \<longleftrightarrow> (case st_group (sh_streams s key) of None \<Rightarrow> True
     | Some g \<Rightarrow> pel_ids g \<subseteq> A \<and> sorted_wrt (<) (map pe_id (g_pel g)))"

interpretation within: stream_invariant "\<lambda>_. pending_within key A" for key A
  by unfold_locales (simp_all add: pending_within_def)

lemma within_xack: "pending_within key A s \<Longrightarrow> pending_within key A (s\<lparr>sh_streams := (sh_streams s)(key := xack i (sh_streams s key))\<rparr>)"
  by (auto simp: pending_within_def xack_def pel_ids_def sorted_wrt_map sorted_wrt_filter split: option.splits)

lemma sorted_split:
  assumes "sorted_wrt (<) (map pe_id ps)" and "sorted_wrt (<) (map pe_id qs)" and "pe_id ` set qs \<subseteq> pe_id ` set (filter (\<lambda>p. start \<le> pe_id p) ps)"
  shows "sorted_wrt (<) (map pe_id (filter (\<lambda>p. \<not> start \<le> pe_id p) ps @ qs))"
proof -
  have "sorted_wrt (<) (map pe_id (filter (\<lambda>p. \<not> start \<le> pe_id p) ps))"
    using assms(1) by (simp add: sorted_wrt_map sorted_wrt_filter)
  moreover have "x < y" if "x \<in> pe_id ` set (filter (\<lambda>p. \<not> start \<le> pe_id p) ps)" "y \<in> pe_id ` set qs" for x y
  proof -
    have "start \<le> y" using that(2) assms(3) by auto
    then show ?thesis using that(1) by auto
  qed
  ultimately show ?thesis using assms(2) by (auto simp: sorted_wrt_append)
qed

lemma xautoclaim_within:
  assumes "pending_within key A s" and "xautoclaim c t idle start (Suc n) (sh_streams s key) = Some (cursor, ms, st)"
  shows "pending_within key A (s\<lparr>sh_streams := (sh_streams s)(key := st)\<rparr>) \<and>
    (cursor = Sid 0 0 \<or> cursor \<in> A \<and> (\<exists>i \<in> A. start \<le> i \<and> i < cursor))"
proof -
  obtain g where g: "st_group (sh_streams s key) = Some g" using assms(2) by (auto simp: xautoclaim_def split: option.splits)
  let ?ps = "filter (\<lambda>p. start \<le> pe_id p) (g_pel g)"
  obtain qs cur where scan: "claim_scan (map_of (st_entries (sh_streams s key))) c t idle (10 * Suc n) (Suc n) ?ps = (ms, qs, cur)"
    and cursor: "cursor = (case cur of None \<Rightarrow> Sid 0 0 | Some i \<Rightarrow> i)"
    and st: "st = (sh_streams s key)\<lparr>st_group := Some (g\<lparr>g_pel := filter (\<lambda>p. \<not> start \<le> pe_id p) (g_pel g) @ qs\<rparr>)\<rparr>"
    using assms(2) g by (auto simp: xautoclaim_def split: prod.splits)
  have pel: "pel_ids g \<subseteq> A" "sorted_wrt (<) (map pe_id (g_pel g))" using assms(1) g by (simp_all add: pending_within_def)
  then have sorted: "sorted_wrt (<) (map pe_id ?ps)" by (simp add: sorted_wrt_map sorted_wrt_filter)
  have kept: "sorted_wrt (<) (map pe_id qs)" "pe_id ` set qs \<subseteq> pe_id ` set ?ps" using claim_scan_sorted [OF scan sorted] by blast+
  moreover have "pe_id ` set ?ps \<subseteq> A" using pel(1) by (auto simp: pel_ids_def)
  ultimately have "pe_id ` set qs \<subseteq> A" by blast
  then have "pending_within key A (s\<lparr>sh_streams := (sh_streams s)(key := st)\<rparr>)"
    using pel(1) sorted_split [OF pel(2) kept] by (auto simp: pending_within_def st pel_ids_def)
  moreover have "\<exists>i \<in> A. start \<le> i \<and> i < cursor" "cursor \<in> A" if j: "cur = Some j" for j
  proof -
    obtain p ps where ps: "?ps = p # ps" using scan j by (cases ?ps) auto
    have "10 * Suc n = Suc (9 + 10 * n)" by simp
    then have "j \<in> pe_id ` set ps \<and> pe_id p < j"
      using claim_scan_advances [of _ c t idle "9 + 10 * n" n p ps ms qs j] scan sorted j ps by metis
    moreover have "p \<in> set ?ps" "set ps \<subseteq> set ?ps" using ps by auto
    ultimately show "\<exists>i \<in> A. start \<le> i \<and> i < cursor" "cursor \<in> A"
      using pel(1) j cursor by (auto simp: pel_ids_def)
  qed
  ultimately show ?thesis using cursor by (cases cur) auto
qed

text \<open>The call, whatever happens to it: if it returns, what it returns was read off a stream within \<open>A\<close>.\<close>

lemma xautoclaim_runs:
  assumes "within.fair key A w" and "xautoclaim_proc key c min_idle start (Suc n) w = (Inr (cursor, ms), w')"
  shows "within.fair key A w' \<and> (cursor = Sid 0 0 \<or> cursor \<in> A \<and> (\<exists>i \<in> A. start \<le> i \<and> i < cursor))"
proof -
  obtain ev rest where next_call: "(case w_oracle w of [] \<Rightarrow> (calm_event, []) | ev # rest \<Rightarrow> (ev, rest)) = (ev, rest)"
    by (rule prod.exhaust)
  let ?s = "advance ev (w_sh w)"
  have "pending_within key A (io_env ev (w_sh w))" and others: "\<forall>ev \<in> set rest. \<forall>s. pending_within key A s \<longrightarrow> pending_within key A (io_env ev s)"
    using next_call assms(1) by (auto simp: within.fair_def calm_event_def split: list.splits)
  then have s: "pending_within key A ?s" by (simp add: advance_def pending_within_def)
  obtain st where claim: "xautoclaim c (sh_now ?s) (of_int min_idle) start (Suc n) (sh_streams ?s key) = Some (cursor, ms, st)"
    and w': "w_sh w' = ?s\<lparr>sh_streams := (sh_streams ?s)(key := st)\<rparr>" "w_oracle w' = rest"
    using assms(2) next_call
    by (auto simp: xautoclaim_proc_def bind_def redis_def effect_def Let_def raise_def return_def log_action_def split: fault.splits option.splits prod.splits)
  then show ?thesis using xautoclaim_within [OF s claim] others by (simp add: within.fair_def)
qed

lemma loop_ends:
  assumes "finite A" and "within.fair key A w" and "card {i \<in> A. cursor \<le> i} < fuel"
  shows "fst (reclaim_loop fuel key c cursor reclaimed w) \<noteq> Inr None"
  using assms(2,3)
proof (induction fuel arbitrary: cursor reclaimed w)
  case (Suc fuel)
  obtain r w1 where call: "xautoclaim_proc key c RECLAIM_MIN_IDLE_MS cursor 10 w = (r, w1)" by (rule prod.exhaust)
  show ?case
  proof (cases r)
    case (Inl e)
    then show ?thesis using call by (simp add: bind_def)
  next
    case (Inr x)
    obtain cursor' ms where x: "x = (cursor', ms)" by (rule prod.exhaust)
    have step: "within.fair key A w1" "cursor' = Sid 0 0 \<or> cursor' \<in> A \<and> (\<exists>i \<in> A. cursor \<le> i \<and> i < cursor')"
      using xautoclaim_runs [OF Suc.prems(1), of c RECLAIM_MIN_IDLE_MS cursor 9 cursor' ms w1] call Inr x by simp_all
    obtain r2 w2 where handled: "for_each ms (\<lambda>(message_id, flds). handle_message key message_id flds) w1 = (r2, w2)" by (rule prod.exhaust)
    have "within.upholds key A (for_each ms (\<lambda>(message_id, flds). handle_message key message_id flds))"
      by (intro within.up_for_each within.up_prod within.up_handle within_xack)
    then have w2: "within.fair key A w2" using within.upholdsD handled step(1) by blast
    show ?thesis
    proof (cases "r2 = Inl (projl r2) \<or> cursor' = Sid 0 0 \<or> ms = []")
      case True
      then show ?thesis using call handled Inr x
        by (cases r2) (auto simp: bind_def seq_def return_def)
    next
      case False
      then obtain i where i: "i \<in> A" "cursor \<le> i" "i < cursor'" using step(2) by blast
      then have "{i \<in> A. cursor' \<le> i} \<subseteq> {i \<in> A. cursor \<le> i}" "i \<in> {i \<in> A. cursor \<le> i}" "i \<notin> {i \<in> A. cursor' \<le> i}"
        by auto
      then have less: "{i \<in> A. cursor' \<le> i} \<subset> {i \<in> A. cursor \<le> i}" by blast
      have "finite {i \<in> A. cursor \<le> i}" using assms(1) by simp
      from psubset_card_mono [OF this less] have "card {i \<in> A. cursor' \<le> i} < fuel" using Suc.prems(2) by simp
      then show ?thesis
        using Suc.IH [OF w2] call handled Inr x False by (cases r2) (auto simp: bind_def seq_def)
    qed
  qed
qed simp

text \<open>C19: The sweep over abandoned entries ends: if while it runs no other process adds to the pending
  entries of the stream, it needs no more rounds than there were entries, plus one, whatever the
  deliveries it makes do and whatever fails.\<close>

theorem reclaim_ends:
  assumes "finite A" and "pending_within key A (w_sh w)"
    and "\<forall>ev \<in> set (w_oracle w). \<forall>s. pending_within key A s \<longrightarrow> pending_within key A (io_env ev s)" and "card A < fuel"
  shows "fst (reclaim_stale fuel key c w) \<noteq> Inr None"
proof -
  have "within.fair key A w" using assms(2,3) by (auto simp: within.fair_def)
  moreover have "card {i \<in> A. Sid 0 0 \<le> i} < fuel" using assms(4) by simp
  ultimately show ?thesis unfolding reclaim_stale_def by (rule loop_ends [OF assms(1)])
qed

section \<open>A witness\<close>

definition abandoned :: stream where
  "abandoned = \<lparr>st_entries = [(Sid 1 0, demo_fields), (Sid 2 0, demo_fields)], st_last = Sid 2 0,
     st_group = Some \<lparr>g_last = Sid 2 0, g_pel =
       [\<lparr>pe_id = Sid 1 0, pe_consumer = ''gone'', pe_time = 0, pe_count = 1\<rparr>, \<lparr>pe_id = Sid 2 0, pe_consumer = ''gone'', pe_time = 0, pe_count = 1\<rparr>]\<rparr>\<rparr>"

definition abandoned_world :: world where
  "abandoned_world = (quiet_world (demo_db Unordered Pending) ok_reply)\<lparr>w_sh := (quiet_shared (demo_db Unordered Pending))
     \<lparr>sh_streams := (\<lambda>_. abandoned), sh_now := 100\<rparr>\<rparr>"

lemma reclaim_ends_witness:
  "fst (reclaim_stale 3 ''relay:deliveries:0'' ''worker'' abandoned_world) \<noteq> Inr None"
proof (rule reclaim_ends [where A = "{Sid 1 0, Sid 2 0}"])
  show "pending_within ''relay:deliveries:0'' {Sid 1 0, Sid 2 0} (w_sh abandoned_world)"
    by (simp add: abandoned_world_def abandoned_def pending_within_def pel_ids_def less_stream_id_def)
qed (simp_all add: abandoned_world_def quiet_world_def)

end
