(* ===== verification/At_Least_Once.thy ===== *)
theory At_Least_Once
  imports Reclaim
begin

text \<open>
  No entry of a stream is lost: a shard's loop leaves it to be read or claimed until it has
  acknowledged it, across failed calls, reconnections, sweeps and the death of the process.
\<close>

section \<open>What is kept\<close>

definition kept_entry :: "string \<Rightarrow> stream_id \<Rightarrow> action list \<Rightarrow> shared \<Rightarrow> bool" where
  "kept_entry key i tr s \<longleftrightarrow> stream_ok (sh_streams s key) \<and> (Xack key i \<in> set tr \<or> i \<in> outstanding (sh_streams s key))"

interpretation kept: stream_invariant "kept_entry key i" for key i
  by unfold_locales (auto simp: kept_entry_def)

lemma kept_update:
  assumes "kept_entry key i tr s" and "stream_ok (sh_streams s key) \<Longrightarrow> stream_ok (strs key)"
    and "stream_ok (sh_streams s key) \<Longrightarrow> i \<in> outstanding (sh_streams s key) \<Longrightarrow> i \<in> outstanding (strs key) \<or> a = Xack key i"
  shows "kept_entry key i (a # tr) (s\<lparr>sh_streams := strs\<rparr>)"
  using assms by (auto simp: kept_entry_def)

lemma kept_xack:
  assumes "kept_entry key i tr s"
  shows "kept_entry key i (Xack key' j # tr) (s\<lparr>sh_streams := (sh_streams s)(key' := xack j (sh_streams s key'))\<rparr>)"
  using assms by (rule kept_update) (auto simp: stream_ok_xack outstanding_xack_other)

lemma outstanding_xgroup: "xgroup_create st = Some st' \<Longrightarrow> i \<noteq> Sid 0 0 \<Longrightarrow> i \<in> outstanding st \<Longrightarrow> i \<in> outstanding st'"
  by (auto simp: xgroup_create_def outstanding_def pel_ids_def order.not_eq_order_implies_strict split: option.splits)

section \<open>The loop\<close>

lemma kept_handle: "kept.upholds key i (handle_message key' j flds)"
  by (rule kept.up_handle) (rule kept_xack)

lemma kept_autoclaim: "kept.upholds key i (xautoclaim_proc key' c idle start n)"
  unfolding xautoclaim_proc_def
  by (intro kept.worker_rules kept.up_redis)
    (auto intro!: kept_update dest: stream_ok_xautoclaim simp: outstanding_xautoclaim kept.later split: option.splits)

lemma kept_readgroup: "kept.upholds key i (xreadgroup_proc key' c)"
  unfolding xreadgroup_proc_def
  by (intro kept.worker_rules kept.up_redis)
    (auto intro!: kept_update dest: stream_ok_xread simp: outstanding_xread kept.later split: option.splits)

lemma kept_group: "i \<noteq> Sid 0 0 \<Longrightarrow> kept.upholds key i (ensure_group shard)"
  unfolding ensure_group_def
  by (intro kept.up_redis_unit)
    (auto intro!: kept_update dest: stream_ok_xgroup simp: outstanding_xgroup kept.later split: option.splits)

lemma kept_reclaim: "kept.upholds key i (reclaim_loop fuel key' c cursor n)"
proof (induction fuel arbitrary: cursor n)
  case (Suc fuel)
  show ?case
    unfolding reclaim_loop.simps by (intro kept.worker_rules kept_autoclaim kept_handle Suc)
qed (simp add: kept.up_return)

lemma kept_round: "i \<noteq> Sid 0 0 \<Longrightarrow> kept.upholds key i (consume_round fuel shard c)"
  unfolding consume_round_def read_and_handle_def loop_time_def reclaim_stale_def
  by (intro kept.worker_rules kept.up_except_redis kept.up_backoff kept.up_suppress kept_group kept_readgroup kept_reclaim kept_handle; simp)

lemma kept_rounds: "i \<noteq> Sid 0 0 \<Longrightarrow> kept.upholds key i (consume_rounds rounds fuel shard c)"
  by (induction rounds) (simp_all add: kept.up_return kept.up_seq kept_round)

text \<open>C4: No entry is lost: an entry that is on a stream and not yet acknowledged when a shard's loop
  starts is afterwards acknowledged by this loop or still there to be read or claimed, whatever
  calls fail and wherever the process is cancelled or dies, if the other processes do not take
  it away.\<close>

theorem entry_never_lost:
  assumes "stream_ok (sh_streams (w_sh w) key)" and "i \<in> outstanding (sh_streams (w_sh w) key)" and "i \<noteq> Sid 0 0"
    and "\<forall>ev \<in> set (w_oracle w). \<forall>s. stream_ok (sh_streams s key) \<longrightarrow> stream_ok (sh_streams (io_env ev s) key) \<and>
           outstanding (sh_streams s key) \<subseteq> outstanding (sh_streams (io_env ev s) key)"
    and "consume_shard rounds fuel shard c w = (r, w')"
  shows "Xack key i \<in> set (trace (w_loc w')) \<or> i \<in> outstanding (sh_streams (w_sh w') key)"
proof -
  have "kept.fair key i w" using assms(1,2,4) by (auto simp: kept.fair_def kept_entry_def)
  moreover have "kept.upholds key i (consume_shard rounds fuel shard c)"
    unfolding consume_shard_def loop_time_def by (intro kept.worker_rules kept_rounds assms(3); simp)
  ultimately have "kept.fair key i w'" using kept.upholdsD assms(5) by blast
  then show ?thesis by (auto simp: kept.fair_def kept_entry_def)
qed

lemma entry_never_lost_witness:
  "let w' = snd (consume_shard 1 3 0 ''worker'' abandoned_world) in
     Xack ''relay:deliveries:0'' (Sid 1 0) \<in> set (trace (w_loc w')) \<or> Sid 1 0 \<in> outstanding (sh_streams (w_sh w') ''relay:deliveries:0'')"
  unfolding Let_def
proof (rule entry_never_lost [OF _ _ _ _ prod.collapse [symmetric]])
  show "stream_ok (sh_streams (w_sh abandoned_world) ''relay:deliveries:0'')"
    by (auto simp: abandoned_world_def abandoned_def stream_ok_def entry_ids_def group_ok_def pel_ids_def less_stream_id_def less_eq_stream_id_def)
  show "Sid 1 0 \<in> outstanding (sh_streams (w_sh abandoned_world) ''relay:deliveries:0'')"
    by (simp add: abandoned_world_def abandoned_def outstanding_def pel_ids_def)
qed (simp_all add: abandoned_world_def quiet_world_def)

end
