(* ===== verification/Delivered.thy ===== *)
theory Delivered
  imports Worker_Outcomes At_Least_Once
begin

text \<open>
  That deliveries are made: an entry whose delivery is due, whose endpoint takes it and whose
  gates are open is sent, and settled by the receiver's answer; and that an answer the attempt's
  row cannot hold loses the delivery.
\<close>

section \<open>The stages of a calm run\<close>

abbreviation calm :: "shared \<Rightarrow> local_state \<Rightarrow> inputs \<Rightarrow> world" where
  "calm s l inp \<equiv> \<lparr>w_sh = s, w_loc = l, w_in = inp, w_oracle = []\<rparr>"

text \<open>The session and the counter of draws afterwards; and no entry was acknowledged.\<close>

definition unacked :: "local_state \<Rightarrow> local_state \<Rightarrow> bool" where
  "unacked l l' \<longleftrightarrow> (\<forall>key i. Xack key i \<in> set (trace l') \<longrightarrow> Xack key i \<in> set (trace l))"

definition onwards :: "nat \<Rightarrow> local_state \<Rightarrow> local_state \<Rightarrow> bool" where
  "onwards n l l' \<longleftrightarrow> pending l' = pending l \<and> loaded_deliveries l' = loaded_deliveries l \<and> loaded_endpoints l' = loaded_endpoints l \<and>
     draws l' = draws l + n \<and> unacked l l'"

text \<open>What the gates leave alone: the rows, the streams and the retries; and the clock.\<close>

definition same_store :: "shared \<Rightarrow> shared \<Rightarrow> bool" where
  "same_store s s' \<longleftrightarrow> sh_db s' = sh_db s \<and> sh_now s' = sh_now s \<and> sh_streams s' = sh_streams s \<and> sh_retries s' = sh_retries s"

lemma gates_open:
  assumes "pending l = []"
    and "allow_request_hash now (br_hash (sh_breakers s (ep_id ep))) = ((Allow, state), h)"
    and "the_tenant (ep_tenant_id ep) (sh_db s) = Some t"
    and "take_token_key (or_default (t_rate_per_sec t) (default_tenant_rate_per_sec (in_cfg inp))) now (sh_now s) (sh_buckets s (t_id t)) = (True, key)"
  shows "\<exists>s' l'. check_gates dl ep now (calm s l inp) = (Inr (True, None, 0), calm s' l' inp) \<and> onwards 0 l l' \<and>
    same_store s s' \<and> sh_inflight s' = sh_inflight s"
  using assms
  by (simp add: check_gates_def run_simps allow_request_def select_tenant_one_def take_token_def Let_def onwards_def unacked_def same_store_def
      cong: run_cong)

lemma attempt_succeeds:
  assumes "pending l = []" and "loaded_deliveries l = [dl]" and "loaded_endpoints l = [ep]"
    and "the_delivery d (sh_db s) = Some dl" and "d_id dl = d" and "d_status dl \<noteq> Delivered"
    and "the_endpoint (d_endpoint_id dl) (sh_db s) = Some ep" and "the_event (d_event_id dl) (sh_db s) = Some ev"
    and "in_replies inp (draws l) = (reply, elapsed)"
    and "succeeded (attempt_result_of elapsed reply)" and "recordable (attempt_result_of elapsed reply)" and "int4 (d_attempt_count dl + 1)"
  shows "\<exists>s' l' r. process_delivery d (calm s l inp) = (Inr True, calm s' l' inp) \<and> pending l' = [] \<and> slot_var l' = slot_var l \<and>
    the_delivery d (sh_db s') = Some r \<and> d_status r = Delivered \<and> d_attempt_count r = d_attempt_count dl + 1 \<and> d_id r = d \<and>
    Posted (delivery_request (ep_url ep) (ep_signing_secret ep) d (ev_id ev) (ev_payload ev) (sh_now s + in_skew inp)) reply \<in> set (trace l')"
  using assms by (cases dl) (auto simp: attempt_simps cong: run_cong)

lemma wrapped_up:
  assumes "pending l = []" and "the_delivery d (sh_db s) = Some r" and "d_id r = d" and "d_id dl = d" and "ep_ordering ep = Unordered"
    and "process_delivery d w = (Inr True, calm s l inp)"
  shows "\<exists>s' l'. attempt_and_record d dl ep w = (Inr True, calm s' l' inp) \<and> sh_db s' = sh_db s \<and>
    set (trace l) \<subseteq> set (trace l') \<and> slot_var l' = slot_var l"
  using assms
  by (auto simp: attempt_and_record_def refresh_delivery_def record_outcome_def run_simps Let_def cong: run_cong split: prod.splits option.splits)

lemma tenant_found:
  assumes "pending l = []" and "the_tenant i (sh_db s) = Some t"
  shows "\<exists>l'. select_tenant_one i (calm s l inp) = (Inr t, calm s l' inp) \<and> onwards 0 l l'"
  using assms by (simp add: select_tenant_one_def run_simps onwards_def unacked_def cong: run_cong)

lemma slot_taken:
  assumes "acquire_slot_key m now (uuid_hex (in_uuids inp (draws l))) (sh_now s) (sh_inflight s tenant_id) = (True, slots)"
  shows "\<exists>s' l'. acquire_slot tenant_id m now (calm s l inp) = (Inr (Some (uuid_hex (in_uuids inp (draws l)))), calm s' l' inp) \<and>
      onwards 1 l l' \<and> same_store s s'"
  using assms by (simp add: acquire_slot_def run_simps Let_def onwards_def unacked_def same_store_def cong: run_cong)

text \<open>When the gates are open, the body is the attempt, with a slot held.\<close>

lemma body_attempts:
  assumes "pending l = []" and "the_tenant (ep_tenant_id ep) (sh_db s) = Some t"
    and "allow_request_hash now (br_hash (sh_breakers s (ep_id ep))) = ((Allow, state), h)"
    and "take_token_key (or_default (t_rate_per_sec t) (default_tenant_rate_per_sec (in_cfg inp))) now (sh_now s) (sh_buckets s (t_id t)) = (True, bucket)"
    and "acquire_slot_key (or_default (t_max_inflight t) (default_tenant_max_inflight (in_cfg inp))) now
           (uuid_hex (in_uuids inp (draws l))) (sh_now s) (sh_inflight s (t_id t)) = (True, slots)"
  shows "\<exists>s' l' token. gated_body d dl ep now (calm s l inp) = attempt_and_record d dl ep (calm s' (l'\<lparr>slot_var := Some token\<rparr>) inp) \<and>
    onwards 1 l l' \<and> same_store s s'"
proof -
  obtain s1 l1 where gates: "check_gates dl ep now (calm s l inp) = (Inr (True, None, 0), calm s1 l1 inp)"
    and 1: "onwards 0 l l1" "same_store s s1" "sh_inflight s1 = sh_inflight s"
    using gates_open [OF assms(1,3,2,4)] by blast
  obtain l2 where tenant: "select_tenant_one (ep_tenant_id ep) (calm s1 l1 inp) = (Inr t, calm s1 l2 inp)" and 2: "onwards 0 l1 l2"
    using tenant_found [of l1 "ep_tenant_id ep" s1 t inp] assms(1,2) 1 by (auto simp: onwards_def same_store_def)
  have "draws l2 = draws l" "sh_now s1 = sh_now s" using 1(1,2) 2 by (simp_all add: onwards_def same_store_def)
  then obtain s3 l3 token where slot: "acquire_slot (t_id t) (or_default (t_max_inflight t) (default_tenant_max_inflight (in_cfg inp))) now
      (calm s1 l2 inp) = (Inr (Some token), calm s3 l3 inp)"
    and 3: "onwards 1 l2 l3" "same_store s1 s3"
    using slot_taken [of _ now inp l2 s1 "t_id t" slots] assms(5) 1(3) by metis
  have "onwards 1 l l3" "same_store s s3"
    using 1(1,2) 2 3 by (auto simp: onwards_def same_store_def unacked_def)
  then show ?thesis
    using gates tenant slot by (auto simp: gated_body_def bind_def seq_def settings_of_def modify_local_def Let_def)
qed

text \<open>What holds after the attempt: the row is delivered, and the request is in the trace.\<close>

definition delivered_with :: "uuid \<Rightarrow> delivery \<Rightarrow> http_request \<Rightarrow> http_reply \<Rightarrow> world \<Rightarrow> bool" where
  "delivered_with d dl rq reply w \<longleftrightarrow> w_oracle w = [] \<and> Posted rq reply \<in> set (trace (w_loc w)) \<and>
     (\<exists>r. the_delivery d (sh_db (w_sh w)) = Some r \<and> d_status r = Delivered \<and> d_attempt_count r = d_attempt_count dl + 1)"

lemma body_delivers:
  assumes "pending l = []" and "loaded_deliveries l = [dl]" and "loaded_endpoints l = [ep]"
    and "the_delivery d (sh_db s) = Some dl" and "d_id dl = d" and "d_status dl \<noteq> Delivered"
    and "the_endpoint (d_endpoint_id dl) (sh_db s) = Some ep" and "ep_ordering ep = Unordered"
    and "the_event (d_event_id dl) (sh_db s) = Some ev" and "the_tenant (ep_tenant_id ep) (sh_db s) = Some t"
    and "allow_request_hash now (br_hash (sh_breakers s (ep_id ep))) = ((Allow, state), h)"
    and "take_token_key (or_default (t_rate_per_sec t) (default_tenant_rate_per_sec (in_cfg inp))) now (sh_now s) (sh_buckets s (t_id t)) = (True, bucket)"
    and "acquire_slot_key (or_default (t_max_inflight t) (default_tenant_max_inflight (in_cfg inp))) now
           (uuid_hex (in_uuids inp (draws l))) (sh_now s) (sh_inflight s (t_id t)) = (True, slots)"
    and "in_replies inp (Suc (draws l)) = (reply, elapsed)"
    and "succeeded (attempt_result_of elapsed reply)" and "recordable (attempt_result_of elapsed reply)" and "int4 (d_attempt_count dl + 1)"
    and "rq = delivery_request (ep_url ep) (ep_signing_secret ep) d (ev_id ev) (ev_payload ev) (sh_now s + in_skew inp)"
  shows "\<exists>w'. gated_body d dl ep now (calm s l inp) = (Inr True, w') \<and> delivered_with d dl rq reply w'"
proof -
  obtain s3 l3 token where body: "gated_body d dl ep now (calm s l inp) = attempt_and_record d dl ep (calm s3 (l3\<lparr>slot_var := Some token\<rparr>) inp)"
    and 3: "onwards 1 l l3" "same_store s s3"
    using body_attempts [OF assms(1,10-13)] by blast
  let ?l4 = "l3\<lparr>slot_var := Some token\<rparr>"
  obtain s5 l5 r where sent: "process_delivery d (calm s3 ?l4 inp) = (Inr True, calm s5 l5 inp)"
    and 5: "pending l5 = []" "the_delivery d (sh_db s5) = Some r" "d_status r = Delivered" "d_attempt_count r = d_attempt_count dl + 1" "d_id r = d"
      "Posted rq reply \<in> set (trace l5)"
    using attempt_succeeds [of ?l4 dl ep d s3 ev inp reply elapsed] assms(1-7,9,14-18) 3 by (auto simp: onwards_def same_store_def)
  obtain s6 l6 where "attempt_and_record d dl ep (calm s3 ?l4 inp) = (Inr True, calm s6 l6 inp)"
    and "sh_db s6 = sh_db s5" "set (trace l5) \<subseteq> set (trace l6)"
    using wrapped_up [OF 5(1,2,5) assms(5,8) sent] by blast
  then show ?thesis
    using body 5 by (auto simp: delivered_with_def)
qed

lemma released_after:
  assumes "gated_body d dl ep now w = (Inr True, w')" and "delivered_with d dl rq reply w'"
  shows "\<exists>w''. try_finally (gated_body d dl ep now) (release_all ep None) w = (Inr True, w'') \<and> delivered_with d dl rq reply w''"
  using assms
  by (auto simp: try_finally_def release_all_def release_slot_def delivered_with_def run_simps cong: run_cong split: option.splits)

text \<open>C5: A due delivery is made: when its entry is handled, nobody interferes and no call fails, the
  endpoint is active and unordered, the breaker is closed, the bucket has a token, a slot is free,
  the receiver accepts with a reply the attempt's row can hold and the count fits 32 bits, the signed request is sent, the delivery is "delivered" with one
  attempt more, and the entry is acknowledged.\<close>

theorem due_delivery_is_made:
  assumes "w_oracle w = []" and "uuid_parse (f_delivery_id flds) = Some d"
    and "the_delivery d (sh_db (w_sh w)) = Some dl" and "d_status dl \<notin> {Delivered, Dead}"
    and "the_endpoint (d_endpoint_id dl) (sh_db (w_sh w)) = Some ep" and "ep_status ep = Active" and "ep_ordering ep = Unordered"
    and "the_event (d_event_id dl) (sh_db (w_sh w)) = Some ev" and "the_tenant (ep_tenant_id ep) (sh_db (w_sh w)) = Some t"
    and "now = sh_now (w_sh w) + in_skew (w_in w)"
    and "allow_request_hash now (br_hash (sh_breakers (w_sh w) (ep_id ep))) = ((Allow, state), h)"
    and "take_token_key (or_default (t_rate_per_sec t) (default_tenant_rate_per_sec (in_cfg (w_in w)))) now (sh_now (w_sh w))
           (sh_buckets (w_sh w) (t_id t)) = (True, bucket)"
    and "acquire_slot_key (or_default (t_max_inflight t) (default_tenant_max_inflight (in_cfg (w_in w)))) now
           (uuid_hex (in_uuids (w_in w) (draws (w_loc w)))) (sh_now (w_sh w)) (sh_inflight (w_sh w) (t_id t)) = (True, slots)"
    and "in_replies (w_in w) (Suc (draws (w_loc w))) = (reply, elapsed)"
    and "succeeded (attempt_result_of elapsed reply)" and "recordable (attempt_result_of elapsed reply)" and "int4 (d_attempt_count dl + 1)"
  shows "\<exists>w' r. handle_message key i flds w = (Inr (), w') \<and> the_delivery d (sh_db (w_sh w')) = Some r \<and> d_status r = Delivered \<and>
    d_attempt_count r = d_attempt_count dl + 1 \<and> Xack key i \<in> set (trace (w_loc w')) \<and>
    Posted (delivery_request (ep_url ep) (ep_signing_secret ep) d (ev_id ev) (ev_payload ev) now) reply \<in> set (trace (w_loc w'))"
proof -
  have id: "d_id dl = d" using find_by_key [OF assms(3)] .
  let ?l = "(clear_session (w_loc w))\<lparr>loaded_deliveries := [dl],
     trace := Select_endpoint (d_endpoint_id dl) (Some ep) # Select_delivery d (Some dl) # trace (w_loc w),
     loaded_endpoints := [ep], slot_var := None\<rparr>"
  let ?w = "calm (w_sh w) ?l (w_in w)"
  obtain w1 where "gated_body d dl ep now ?w = (Inr True, w1)"
    and "delivered_with d dl (delivery_request (ep_url ep) (ep_signing_secret ep) d (ev_id ev) (ev_payload ev) now) reply w1"
    using body_delivers [of ?l dl ep d "w_sh w" ev t now state h "w_in w" bucket slots reply elapsed] assms id
    by (auto simp: clear_session_def)
  then obtain w2 where rest: "try_finally (gated_body d dl ep now) (release_all ep None) ?w = (Inr True, w2)"
    and w2: "delivered_with d dl (delivery_request (ep_url ep) (ep_signing_secret ep) d (ev_id ev) (ev_payload ev) now) reply w2"
    using released_after by blast
  have "deliver_with_gates d (w\<lparr>w_loc := clear_session (w_loc w)\<rparr>) = (Inr True, w2)"
    using assms(1-10) id rest
    by (cases w) (simp add: deliver_with_gates_def with_slot_and_lock_def calm_simps clear_session_def cong: run_cong)
  then show ?thesis
    using assms(2) w2
    by (auto simp: handle_message_def xack_proc_def delivered_with_def run_simps cong: run_cong)
qed

section \<open>A witness\<close>

lemma due_delivery_is_made_witness:
  "\<exists>w' r. handle_message ''relay:deliveries:0'' (Sid 1 0) demo_fields (quiet_world (demo_db Unordered Pending) ok_reply) = (Inr (), w') \<and>
     the_delivery 4 (sh_db (w_sh w')) = Some r \<and> d_status r = Delivered \<and> d_attempt_count r = 1 \<and>
     Xack ''relay:deliveries:0'' (Sid 1 0) \<in> set (trace (w_loc w'))"
proof -
  have reply: "succeeded (attempt_result_of 0 ok_reply)" "recordable (attempt_result_of 0 ok_reply)" "int4 1"
    using quiet_replies by (simp_all add: ok_reply_def recordable_def empty_snippet)
  show ?thesis
    using due_delivery_is_made [where w = "quiet_world (demo_db Unordered Pending) ok_reply" and flds = demo_fields and d = 4
        and dl = "hd (deliveries (demo_db Unordered Pending))" and ep = "hd (endpoints (demo_db Unordered Pending))"
        and ev = "hd (events (demo_db Unordered Pending))" and t = "hd (tenants (demo_db Unordered Pending))" and now = 0
        and state = Closed and h = no_hash and reply = ok_reply and elapsed = 0 and key = "''relay:deliveries:0''" and i = "Sid 1 0"] reply
    by (simp add: quiet_simps demo_db_def demo_fields_def find_by_def or_default_def no_breaker_fields) blast
qed

section \<open>A reply that cannot be stored\<close>

text \<open>What is left when the attempt's row is refused: the request was sent, the delivery is "delivering"
  with its count one up, and there is no attempt, no retry, and no acknowledgement.\<close>

definition lost_with :: "uuid \<Rightarrow> delivery \<Rightarrow> http_request \<Rightarrow> http_reply \<Rightarrow> shared \<Rightarrow> local_state \<Rightarrow> world \<Rightarrow> bool" where
  "lost_with d dl rq reply s l w \<longleftrightarrow> w_oracle w = [] \<and> Posted rq reply \<in> set (trace (w_loc w)) \<and> unacked l (w_loc w) \<and>
     attempts (sh_db (w_sh w)) = attempts (sh_db s) \<and> sh_retries (w_sh w) = sh_retries s \<and> sh_streams (w_sh w) = sh_streams s \<and>
     (\<exists>r. the_delivery d (sh_db (w_sh w)) = Some r \<and> d_status r = Delivering \<and> d_attempt_count r = d_attempt_count dl + 1)"

lemma attempt_is_lost:
  assumes "pending l = []" and "loaded_deliveries l = [dl]" and "loaded_endpoints l = [ep]"
    and "the_delivery d (sh_db s) = Some dl" and "d_id dl = d" and "d_status dl \<noteq> Delivered"
    and "the_endpoint (d_endpoint_id dl) (sh_db s) = Some ep" and "the_event (d_event_id dl) (sh_db s) = Some ev"
    and "in_replies inp (draws l) = (reply, elapsed)"
    and "\<not> recordable (attempt_result_of elapsed reply)" and "int4 (d_attempt_count dl + 1)"
    and "rq = delivery_request (ep_url ep) (ep_signing_secret ep) d (ev_id ev) (ev_payload ev) (sh_now s + in_skew inp)"
  shows "\<exists>e w'. process_delivery d (calm s l inp) = (Inl e, w') \<and> is_exception e \<and> lost_with d dl rq reply s l w'"
proof -
  let ?res = "attempt_result_of elapsed reply"
  have refused: "attempt_storable (attempt_row d n ?res t) = False" for n t
    using assms(10) by (simp add: attempt_storable_def attempt_row_def recordable_def)
  define delay where "delay = next_delay_seconds (d_attempt_count dl + 1) (r_http_status ?res) (r_retry_after ?res) (max_attempts (in_cfg inp))
    (in_randoms inp (Suc (draws l)))"
  note steps = attempt_steps refused lost_with_def unacked_def is_exception_def db_exn_def
  show ?thesis
  proof (cases "succeeded ?res")
    case True
    then show ?thesis using assms by (cases dl) (auto simp: steps cong: run_cong)
  next
    case False
    consider "delay = None" | q where "delay = Some (Fin q)" | q where "delay = Some q" "\<forall>f. q \<noteq> Fin f"
      by (cases delay) auto
    then show ?thesis
    proof cases
      case 1
      then show ?thesis using assms False by (cases dl) (auto simp: steps delay_def cong: run_cong)
    next
      case 2
      then show ?thesis using assms False by (cases dl) (auto simp: steps delay_def cong: run_cong)
    next
      case 3
      then show ?thesis using assms False by (cases dl; cases q) (auto simp: steps delay_def cong: run_cong)
    qed
  qed
qed

lemma loss_released:
  assumes "gated_body d dl ep now w = (Inl e, w')" and "is_exception e" and "lost_with d dl rq reply s l w'"
  shows "\<exists>w''. try_finally (gated_body d dl ep now) (release_all ep None) w = (Inl e, w'') \<and> lost_with d dl rq reply s l w''"
  using assms
  by (auto simp: try_finally_def release_all_def release_slot_def lost_with_def unacked_def is_exception_def run_simps cong: run_cong split: option.splits)

text \<open>C21: a receiver whose reply the attempt's row cannot hold (a NUL in its body, or a message with a
  lone surrogate) is never recorded: when no call fails and nobody interferes, for an active,
  unordered endpoint whose gates are open, the entry's handler sends the request, and then
  returns without an acknowledgement: the streams and the retries are what they were (an entry
  that was outstanding still is, and no retry is scheduled), no attempt row is added, and the
  delivery stays "delivering" with its count one up (which fits 32 bits).\<close>

theorem unstorable_reply_loses_attempt:
  assumes "w_oracle w = []" and "uuid_parse (f_delivery_id flds) = Some d"
    and "the_delivery d (sh_db (w_sh w)) = Some dl" and "d_status dl \<notin> {Delivered, Dead}"
    and "the_endpoint (d_endpoint_id dl) (sh_db (w_sh w)) = Some ep" and "ep_status ep = Active" and "ep_ordering ep = Unordered"
    and "the_event (d_event_id dl) (sh_db (w_sh w)) = Some ev" and "the_tenant (ep_tenant_id ep) (sh_db (w_sh w)) = Some t"
    and "now = sh_now (w_sh w) + in_skew (w_in w)"
    and "allow_request_hash now (br_hash (sh_breakers (w_sh w) (ep_id ep))) = ((Allow, state), h)"
    and "take_token_key (or_default (t_rate_per_sec t) (default_tenant_rate_per_sec (in_cfg (w_in w)))) now (sh_now (w_sh w))
           (sh_buckets (w_sh w) (t_id t)) = (True, bucket)"
    and "acquire_slot_key (or_default (t_max_inflight t) (default_tenant_max_inflight (in_cfg (w_in w)))) now
           (uuid_hex (in_uuids (w_in w) (draws (w_loc w)))) (sh_now (w_sh w)) (sh_inflight (w_sh w) (t_id t)) = (True, slots)"
    and "in_replies (w_in w) (Suc (draws (w_loc w))) = (reply, elapsed)"
    and "\<not> recordable (attempt_result_of elapsed reply)" and "int4 (d_attempt_count dl + 1)"
  shows "\<exists>w' r. handle_message key i flds w = (Inr (), w') \<and>
    (\<forall>k j. Xack k j \<in> set (trace (w_loc w')) \<longrightarrow> Xack k j \<in> set (trace (w_loc w))) \<and>
    sh_streams (w_sh w') = sh_streams (w_sh w) \<and> sh_retries (w_sh w') = sh_retries (w_sh w) \<and>
    attempts (sh_db (w_sh w')) = attempts (sh_db (w_sh w)) \<and>
    the_delivery d (sh_db (w_sh w')) = Some r \<and> d_status r = Delivering \<and> d_attempt_count r = d_attempt_count dl + 1 \<and>
    Posted (delivery_request (ep_url ep) (ep_signing_secret ep) d (ev_id ev) (ev_payload ev) now) reply \<in> set (trace (w_loc w'))"
proof -
  have id: "d_id dl = d" using find_by_key [OF assms(3)] .
  let ?l = "(clear_session (w_loc w))\<lparr>loaded_deliveries := [dl],
     trace := Select_endpoint (d_endpoint_id dl) (Some ep) # Select_delivery d (Some dl) # trace (w_loc w),
     loaded_endpoints := [ep], slot_var := None\<rparr>"
  let ?w = "calm (w_sh w) ?l (w_in w)"
  let ?rq = "delivery_request (ep_url ep) (ep_signing_secret ep) d (ev_id ev) (ev_payload ev) now"
  have l: "pending ?l = []" "draws ?l = draws (w_loc w)" by (simp_all add: clear_session_def)
  obtain s3 l3 token where body: "gated_body d dl ep now ?w = attempt_and_record d dl ep (calm s3 (l3\<lparr>slot_var := Some token\<rparr>) (w_in w))"
    and 3: "onwards 1 ?l l3" "same_store (w_sh w) s3"
    using body_attempts [OF l(1) assms(9,11,12), of slots d dl] assms(13) l(2) by auto
  let ?l4 = "l3\<lparr>slot_var := Some token\<rparr>"
  obtain e w4 where "process_delivery d (calm s3 ?l4 (w_in w)) = (Inl e, w4)" and e: "is_exception e" and "lost_with d dl ?rq reply s3 ?l4 w4"
    using attempt_is_lost [of ?l4 dl ep d s3 ev "w_in w" reply elapsed ?rq] assms(3-5,8,10,14-16) id 3
    by (auto simp: onwards_def same_store_def clear_session_def)
  then have "gated_body d dl ep now ?w = (Inl e, w4)" and "lost_with d dl ?rq reply (w_sh w) ?l w4"
    using body 3 by (auto simp: attempt_and_record_def bind_def lost_with_def onwards_def same_store_def unacked_def)
  then obtain w5 where rest: "try_finally (gated_body d dl ep now) (release_all ep None) ?w = (Inl e, w5)"
    and w5: "lost_with d dl ?rq reply (w_sh w) ?l w5"
    using loss_released [OF _ e] by blast
  have "deliver_with_gates d (w\<lparr>w_loc := clear_session (w_loc w)\<rparr>) = (Inl e, w5)"
    using assms(1-10) id rest
    by (cases w) (simp add: deliver_with_gates_def with_slot_and_lock_def calm_simps clear_session_def cong: run_cong)
  then show ?thesis
    using assms(2) w5 e
    by (auto simp: handle_message_def lost_with_def unacked_def with_session_def try_except_def bind_def seq_def return_def modify_local_def clear_session_def)
qed

definition nul_reply :: http_reply where
  "nul_reply = Inr \<lparr>rs_status = 200, rs_text = [0], rs_retry_after = None\<rparr>"

lemma unstorable_reply_loses_attempt_witness:
  "\<exists>w' r. handle_message ''relay:deliveries:0'' (Sid 1 0) demo_fields (quiet_world (demo_db Unordered Pending) nul_reply) = (Inr (), w') \<and>
     (\<forall>k j. Xack k j \<notin> set (trace (w_loc w'))) \<and> attempts (sh_db (w_sh w')) = [] \<and>
     the_delivery 4 (sh_db (w_sh w')) = Some r \<and> d_status r = Delivering \<and> d_attempt_count r = 1"
proof -
  have reply: "\<not> recordable (attempt_result_of 0 nul_reply)" "int4 1"
    by (simp_all add: recordable_def nul_reply_def attempt_result_of_def RESPONSE_SNIPPET_LIMIT_def storable_def empty_snippet)
  show ?thesis
    using unstorable_reply_loses_attempt [where w = "quiet_world (demo_db Unordered Pending) nul_reply" and flds = demo_fields and d = 4
        and dl = "hd (deliveries (demo_db Unordered Pending))" and ep = "hd (endpoints (demo_db Unordered Pending))"
        and ev = "hd (events (demo_db Unordered Pending))" and t = "hd (tenants (demo_db Unordered Pending))" and now = 0
        and state = Closed and h = no_hash and reply = nul_reply and elapsed = 0 and key = "''relay:deliveries:0''" and i = "Sid 1 0"] reply
    by (simp add: quiet_simps demo_db_def empty_db_def demo_fields_def find_by_def or_default_def no_breaker_fields) blast
qed

end
