(* ===== verification/Processes.thy ===== *)
theory Processes
  imports At_Least_Once Api_Core
begin

text \<open>
  What the processes do around their loops: the worker's consumer groups before it starts
  (\<open>run_worker\<close> in \<open>relay/delivery/worker.py\<close>) and the API's health check (\<open>relay/api/main.py\<close>).
\<close>

section \<open>Consumer groups at start-up\<close>

definition prepare_groups :: "unit proc" where
  "prepare_groups =
     bind settings_of (\<lambda>settings. for_each [0..stream_shards settings - 1] (\<lambda>shard. suppress (ensure_group shard)))"

definition has_group :: "string \<Rightarrow> action list \<Rightarrow> shared \<Rightarrow> bool" where
  "has_group key tr s \<longleftrightarrow> st_group (sh_streams s key) \<noteq> None"

interpretation grouped: stream_invariant "has_group key" for key
  by unfold_locales (simp_all add: has_group_def)

lemma grouped_ensure: "grouped.upholds key (ensure_group shard)"
  unfolding ensure_group_def
  by (rule grouped.up_redis_unit) (auto simp: has_group_def xgroup_create_def split: option.splits)

lemma ensured: "w_oracle w = [] \<Longrightarrow> \<exists>w'. suppress (ensure_group shard) w = (Inr (), w') \<and> has_group (stream_key shard) [] (w_sh w') \<and> w_oracle w' = []"
  by (auto simp: suppress_def ensure_group_def try_except_def redis_unit_def redis_def effect_def Let_def calm_event_def advance_def log_action_def
      has_group_def xgroup_create_def split: option.splits)

lemma ensured_all:
  assumes "w_oracle w = []"
  shows "\<exists>w'. for_each shards (\<lambda>shard. suppress (ensure_group shard)) w = (Inr (), w') \<and> w_oracle w' = [] \<and>
    (\<forall>shard \<in> set shards. has_group (stream_key shard) [] (w_sh w'))"
  using assms
proof (induction shards arbitrary: w)
  case (Cons shard shards)
  obtain w1 where w1: "suppress (ensure_group shard) w = (Inr (), w1)" "has_group (stream_key shard) [] (w_sh w1)" "w_oracle w1 = []"
    using ensured [OF Cons.prems] by blast
  obtain w2 where w2: "for_each shards (\<lambda>shard. suppress (ensure_group shard)) w1 = (Inr (), w2)" "w_oracle w2 = []"
    "\<forall>shard \<in> set shards. has_group (stream_key shard) [] (w_sh w2)"
    using Cons.IH [OF w1(3)] by blast
  have "grouped.fair (stream_key shard) w1" using w1(2,3) by (simp add: grouped.fair_def has_group_def)
  then have "grouped.fair (stream_key shard) w2"
    using grouped.upholdsD [OF grouped.up_for_each [OF grouped.up_suppress [OF grouped_ensure]] w2(1)] by blast
  then have "has_group (stream_key shard) [] (w_sh w2)" by (simp add: grouped.fair_def has_group_def)
  then show ?case using w1(1) w2 by (simp add: seq_def bind_def)
qed (simp add: return_def)

text \<open>Before the shard loops start, every shard's stream has its group.\<close>

lemma groups_ready:
  assumes "w_oracle w = []" and "0 \<le> shard" and "shard < stream_shards (in_cfg (w_in w))"
  shows "\<exists>w'. prepare_groups w = (Inr (), w') \<and> st_group (sh_streams (w_sh w') (stream_key shard)) \<noteq> None"
  using ensured_all [OF assms(1), of "[0..stream_shards (in_cfg (w_in w)) - 1]"] assms(2,3)
  by (auto simp: prepare_groups_def bind_def settings_of_def has_group_def)

section \<open>The health check\<close>

definition postgres_call :: "unit proc" where "postgres_call = effect sql_exn (\<lambda>w. (Inr (), w))"
definition redis_call :: "unit proc" where "redis_call = effect redis_exn (\<lambda>w. (Inr (), w))"

text \<open>Connect, execute, and close at the end of the block.\<close>

definition check_postgres :: "bool proc" where
  "check_postgres = try_except (seq postgres_call (seq (try_finally postgres_call postgres_call) (return True))) (\<lambda>exc. return False)"

text \<open>The ping, and \<open>aclose\<close> in any case.\<close>

definition check_redis :: "bool proc" where
  "check_redis = try_finally (try_except (seq redis_call (return True)) (\<lambda>exc. return False)) redis_call"

record health =
  he_code :: int
  he_postgres :: bool
  he_redis :: bool

definition healthz_route :: "health proc" where
  "healthz_route =
     bind check_postgres (\<lambda>postgres_ok.
     bind check_redis (\<lambda>redis_ok.
     return \<lparr>he_code = (if postgres_ok \<and> redis_ok then 200 else 503), he_postgres = postgres_ok, he_redis = redis_ok\<rparr>))"

text \<open>A healthy answer means that every call succeeded, and a process that cannot reach either of
  the two is not healthy.  Closing the Redis client is not covered by the \<open>except\<close>.\<close>

lemma call_runs:
  "postgres_call w = (case w_oracle w of
     [] \<Rightarrow> (Inr (), w\<lparr>w_sh := advance calm_event (w_sh w), w_oracle := []\<rparr>)
   | ev # rest \<Rightarrow> (case io_fault ev of Up \<Rightarrow> Inr () | Fail_before e \<Rightarrow> Inl (sql_exn e) | Fail_after e \<Rightarrow> Inl (sql_exn e),
       w\<lparr>w_sh := advance ev (w_sh w), w_oracle := rest\<rparr>))"
  "redis_call w = (case w_oracle w of
     [] \<Rightarrow> (Inr (), w\<lparr>w_sh := advance calm_event (w_sh w), w_oracle := []\<rparr>)
   | ev # rest \<Rightarrow> (case io_fault ev of Up \<Rightarrow> Inr () | Fail_before e \<Rightarrow> Inl (redis_exn e) | Fail_after e \<Rightarrow> Inl (redis_exn e),
       w\<lparr>w_sh := advance ev (w_sh w), w_oracle := rest\<rparr>))"
  by (auto simp: postgres_call_def redis_call_def effect_def Let_def calm_event_def split: list.splits fault.splits)

lemma healthz_code:
  "healthz_route w = (Inr h, w') \<Longrightarrow> (he_code h = 200 \<longleftrightarrow> he_postgres h \<and> he_redis h) \<and> he_code h \<in> {200, 503}"
  by (auto simp: healthz_route_def bind_def return_def split: prod.splits sum.splits if_splits)

lemma healthz_needs_postgres:
  assumes "w_oracle w = ev # rest" and "io_fault ev \<noteq> Up" and "healthz_route w = (Inr h, w')"
  shows "he_code h = 503 \<and> \<not> he_postgres h"
  using assms
  by (auto simp: healthz_route_def check_postgres_def bind_def seq_def try_except_def return_def call_runs split: fault.splits prod.splits sum.splits if_splits)

lemma healthz_needs_redis:
  assumes "w_oracle w = replicate 3 calm_event @ ev # rest" and "io_fault ev \<noteq> Up" and "healthz_route w = (Inr h, w')"
  shows "he_code h = 503 \<and> he_postgres h \<and> \<not> he_redis h"
  using assms
  by (auto simp: healthz_route_def check_postgres_def check_redis_def bind_def seq_def try_except_def try_finally_def return_def call_runs
      numeral_3_eq_3 calm_event_def split: fault.splits prod.splits sum.splits if_splits list.splits)

end
