(* ===== verification/Demo_Script.thy ===== *)
theory Demo_Script
  imports Agent_Safety
begin

text \<open>
  The waits of the demonstration (\<open>scripts/demo.py\<close>): each polls the API until its deadline.  The
  argument is what the polls before the deadline return, the status code with the parsed body;
  the result is the function's value, or the exception it raises on a body of another shape.
\<close>

section \<open>Python on parsed JSON\<close>

definition truthy :: "json \<Rightarrow> bool" where
  "truthy j = (case j of JNull \<Rightarrow> False | JBool b \<Rightarrow> b | JInt i \<Rightarrow> i \<noteq> 0 | JFloat r \<Rightarrow> r \<notin> {''0.0'', ''-0.0''}
     | JStr s \<Rightarrow> s \<noteq> [] | JArr xs \<Rightarrow> xs \<noteq> [] | JObj kvs \<Rightarrow> kvs \<noteq> [])"

text \<open>\<open>j[k]\<close>, \<open>j.get(k, dflt)\<close>, \<open>j in words\<close> for a set of texts, and what \<open>for x in j\<close> runs over.\<close>

definition json_item :: "string \<Rightarrow> json \<Rightarrow> exn + json" where
  "json_item k j = (case j of
     JObj kvs \<Rightarrow> (case map_of kvs (ascii k) of None \<Rightarrow> Inl Key_error | Some v \<Rightarrow> Inr v)
   | _ \<Rightarrow> Inl Type_error)"

definition json_get :: "string \<Rightarrow> json \<Rightarrow> json \<Rightarrow> exn + json" where
  "json_get k dflt j = (case j of
     JObj kvs \<Rightarrow> Inr (case map_of kvs (ascii k) of None \<Rightarrow> dflt | Some v \<Rightarrow> v)
   | _ \<Rightarrow> Inl Attribute_error)"

definition json_in :: "json \<Rightarrow> utext set \<Rightarrow> exn + bool" where
  "json_in j texts = (case j of JArr xs \<Rightarrow> Inl Type_error | JObj kvs \<Rightarrow> Inl Type_error | JStr s \<Rightarrow> Inr (s \<in> texts) | _ \<Rightarrow> Inr False)"

definition json_iter :: "json \<Rightarrow> exn + json list" where
  "json_iter j = (case j of JArr xs \<Rightarrow> Inr xs | JObj kvs \<Rightarrow> Inr (map (\<lambda>(k, v). JStr k) kvs) | JStr s \<Rightarrow> Inr (map (\<lambda>c. JStr [c]) s)
     | _ \<Rightarrow> Inl Type_error)"

definition then_do :: "exn + 'a \<Rightarrow> ('a \<Rightarrow> exn + 'b) \<Rightarrow> exn + 'b" where
  "then_do r f = (case r of Inl e \<Rightarrow> Inl e | Inr x \<Rightarrow> f x)"

section \<open>The waits\<close>

text \<open>The loop over the deliveries of an event: the status found, or the last one seen.\<close>

fun scan_deliveries :: "utext set \<Rightarrow> json list \<Rightarrow> json \<Rightarrow> exn + (bool \<times> json)" where
  "scan_deliveries statuses [] last_seen = Inr (False, last_seen)"
| "scan_deliveries statuses (d # ds) last_seen =
     then_do (json_item ''status'' d) (\<lambda>status.
     then_do (json_in status statuses) (\<lambda>hit.
     if hit then Inr (True, status) else scan_deliveries statuses ds status))"

fun wait_delivery :: "utext set \<Rightarrow> (int \<times> json) list \<Rightarrow> json \<Rightarrow> exn + json" where
  "wait_delivery statuses [] last_seen = Inr last_seen"
| "wait_delivery statuses ((code, ev) # polls) last_seen =
     then_do (json_get ''deliveries'' (JArr []) ev) (\<lambda>found.
     then_do (json_iter found) (\<lambda>ds.
     then_do (scan_deliveries statuses ds last_seen) (\<lambda>(hit, status).
     if hit then Inr status else wait_delivery statuses polls status)))"

text \<open>\<open>b\<close> is the body of the last poll; there is one, since the timeout is positive.\<close>

fun wait_breaker :: "utext set \<Rightarrow> (int \<times> json) list \<Rightarrow> json \<Rightarrow> exn + json" where
  "wait_breaker states [] b = json_get ''state'' (JStr (ascii ''unknown'')) b"
| "wait_breaker states ((code, b) # polls) _ =
     (if code = 200
      then then_do (json_item ''state'' b) (\<lambda>s. then_do (json_in s states) (\<lambda>hit. if hit then Inr s else wait_breaker states polls b))
      else wait_breaker states polls b)"

definition row_done :: "json \<Rightarrow> exn + bool" where
  "row_done d =
     then_do (json_get ''evidence'' JNull d) (\<lambda>e. let ev = (if truthy e then e else JObj []) in
     then_do (json_get ''verified'' JNull ev) (\<lambda>verified.
     then_do (if verified \<noteq> JNull then Inr True else then_do (json_get ''error'' JNull ev) (\<lambda>x. Inr (truthy x))) (\<lambda>finished.
     if finished then Inr True else then_do (json_item ''root_cause'' d) (\<lambda>c. Inr (c \<noteq> JStr (ascii ''agent_error''))))))"

fun first_done :: "json list \<Rightarrow> exn + json option" where
  "first_done [] = Inr None"
| "first_done (d # rows) = then_do (row_done d) (\<lambda>b. if b then Inr (Some d) else first_done rows)"

fun wait_diagnosis :: "(int \<times> json) list \<Rightarrow> exn + json option" where
  "wait_diagnosis [] = Inr None"
| "wait_diagnosis ((code, rows) # polls) =
     then_do (json_iter rows) (\<lambda>ds. then_do (first_done ds) (\<lambda>r. case r of Some d \<Rightarrow> Inr (Some d) | None \<Rightarrow> wait_diagnosis polls))"

section \<open>The stub of a failed run\<close>

text \<open>A row as the API shows it, in the two fields the script looks at.\<close>

definition shows_row :: "diagnosis \<Rightarrow> json \<Rightarrow> bool" where
  "shows_row g d \<longleftrightarrow> json_item ''evidence'' d = Inr (dg_evidence g) \<and> json_item ''root_cause'' d = Inr (js (dg_root_cause g))"

lemma item_get: "json_item k d = Inr v \<Longrightarrow> json_get k dflt d = Inr v"
  by (auto simp: json_item_def json_get_def split: json.splits option.splits)

lemma stub_not_done:
  assumes "shows_row (diagnosis_stub p i why t) d"
  shows "row_done d = Inr False"
proof -
  have "js ''agent_error'' = JStr (ascii ''agent_error'')" by (simp add: js_def ascii_text is_ascii_def)
  moreover have "json_get k dflt (JObj []) = Inr dflt" for k dflt by (simp add: json_get_def)
  moreover have "\<not> truthy (JObj [])" "\<not> truthy JNull" by (simp_all add: truthy_def)
  ultimately show ?thesis
    using assms item_get [of "''evidence''" d "JObj []" JNull]
    by (simp add: row_done_def shows_row_def diagnosis_stub_def then_do_def Let_def)
qed

text \<open>The script never shows the row of a run that failed: while every poll returns such stubs, it
  waits until its deadline and reports no diagnosis.\<close>

lemma failed_run_never_shown:
  assumes "\<forall>(code, rows) \<in> set polls. \<exists>ds. rows = JArr ds \<and> (\<forall>d \<in> set ds. \<exists>p i why t. shows_row (diagnosis_stub p i why t) d)"
  shows "wait_diagnosis polls = Inr None"
proof -
  have rows: "first_done ds = Inr None" if "\<forall>d \<in> set ds. \<exists>p i why t. shows_row (diagnosis_stub p i why t) d" for ds
    using that by (induction ds) (auto simp: then_do_def stub_not_done)
  show ?thesis
    using assms by (induction polls) (auto simp: then_do_def json_iter_def rows)
qed

end
