(* ===== verification/Spec2Isabelle.thy ===== *)
theory Spec2Isabelle
  imports Streams Retry Retry_Queue Rate_Limit Ordering Breaker Signing Sender Worker_Properties Worker_Outcomes Scheduler Api_Properties Worker_Bounds Agent_Properties Agent_Contract Agent_Budget Flaky_Endpoint Migrations Schema_Rows Delivered Processes Demo_Script
begin

text \<open>
  A verification library for Relay, a multi-tenant webhook delivery platform.

  \<^bold>\<open>The program.\<close>  Five processes share a PostgreSQL database and a Redis server.  The API
  (\<open>relay/api/\<close>) authenticates tenants, stores an event with one delivery per subscribed endpoint
  and puts an entry on a Redis stream, sharded by endpoint.  Workers (\<open>relay/delivery/worker.py\<close>)
  read the entries in a consumer group, pass the gates (ordering lock, circuit breaker, token
  bucket, in-flight slots), send the signed request and settle the delivery: delivered, failed
  with a retry in a sorted set, or dead.  The scheduler (\<open>retry_scheduler.py\<close>) moves due retries
  back to the streams.  The agent (\<open>relay/agent/\<close>) listens for events of the breaker, lets a
  language model diagnose the endpoint with a fixed set of tools, and files proposals a human
  decides through the API.  \<open>flaky_endpoint/main.py\<close> is a simulated receiver and the reference for
  checking a signature.

  \<^bold>\<open>How a process is modelled.\<close>  \<open>Effects\<close>: a process is a function from the world to a result or an
  exception and the world after it.  The world holds what is shared (database, Redis, clock), what
  is local (the ORM session with its unflushed writes, the trace of what was done, the locals that
  \<open>finally\<close> and \<open>except\<close> blocks read), the inputs (settings, identifiers, random numbers, replies),
  and an oracle with one entry per awaited call: how long it takes, what other processes do to the
  shared state meanwhile, and whether it fails before or after taking effect, is cancelled, or the
  process dies.  A theorem about every world is thus about every failure and every interleaving at
  the program's own suspension points; the exhausted oracle is the calm world, in which the
  functional theorems compute what a run does.  Loops that run until the process is stopped take
  the number of their rounds; the sweep over abandoned entries takes fuel, and \<open>Reclaim\<close> proves how
  much is enough; the polls of each subscription of the agent are a list of numbers.  All other
  recursion is structural or has a termination proof.

  \<^bold>\<open>Theories and sources.\<close>
  \<^item> \<open>Prelude\<close>, \<open>Stdlib\<close>, \<open>Uuid\<close>, \<open>Digest\<close>, \<open>Datetime\<close>, \<open>Json\<close>, \<open>Json_Reader\<close>: tables of rows, and what the
    program uses of Python: numerals, \<open>float\<close>, UUIDs, CRC-32, SHA-256 and HMAC, dates, \<open>json.dumps\<close>
    and \<open>json.loads\<close> with their round trip.
  \<^item> \<open>Redis\<close>, \<open>Streams\<close>: keys with expiry, sorted sets and streams with one consumer group, with the
    laws their clients use (locale \<open>scored_set\<close>, well-formed streams, outstanding entries).
  \<^item> \<open>Config\<close> (\<open>relay/config.py\<close>, \<open>relay/db/models.py\<close>): settings, rows, and the reaction of the database
    to each statement: the types of the columns, then keys and references.  \<open>Migrations\<close> (\<open>alembic/versions/\<close>) and \<open>Schema_Rows\<close>: the schema the revisions
    build, that it is the models' schema, and that the rows and statements of \<open>Config\<close> obey it.
  \<^item> \<open>Signing\<close>, \<open>Sender\<close>, \<open>Retry\<close>, \<open>Retry_Queue\<close>, \<open>Rate_Limit\<close>, \<open>Ordering\<close>, \<open>Breaker\<close>
    (\<open>relay/signing.py\<close> and the modules of \<open>relay/delivery/\<close> of the same names, with \<open>enqueue.py\<close>):
    each Lua script and each function around it, on the values of its keys.  The interfaces are
    locales: \<open>retry_policy\<close>, \<open>bounded_pool\<close> for the slots, \<open>lease_lock\<close> and \<open>fifo\<close> for ordering; the
    cap on slots is stated with a ghost set of the tokens that were granted and neither released
    nor expired, and the breaker refines a specification over the history of outcomes.
  \<^item> \<open>Delivery_Io\<close>, \<open>Worker\<close>, \<open>Scheduler\<close> (\<open>worker.py\<close>, \<open>retry_scheduler.py\<close>, \<open>relay/metrics.py\<close>): the calls as
    processes, one attempt, the gates, entries, reclaiming, the shard loop, the supervisor and the
    poll.  \<open>Worker_Safety\<close> reads guarantees off the trace, \<open>Worker_Runs\<close> and \<open>Worker_Outcomes\<close> compute
    calm runs, \<open>Metered\<close> and \<open>Worker_Bounds\<close> count, \<open>Shared_Invariant\<close>, \<open>Reclaim\<close> and \<open>At_Least_Once\<close> carry
    invariants of the shared state through the loop (locale \<open>stream_invariant\<close>), \<open>Delivered\<close> shows that a
    due delivery is made, and one whose reply cannot be stored is lost, \<open>Processes\<close> holds the start-up of the worker and the API's health check.
  \<^item> \<open>Api_Core\<close>, \<open>Api_Events\<close>, \<open>Api_Manage\<close> (\<open>relay/api/\<close>): authentication, errors, schemas and every
    route.  \<open>Guarded\<close> is the interface for programs whose every effect must be justified by what they
    did before (locale \<open>guarded\<close>); \<open>Api_Safety\<close> uses it for tenant isolation, \<open>Api_Fanout\<close> for what
    ingestion and replay put on the streams.
  \<^item> \<open>Agent_Llm\<close>, \<open>Agent_Prompts\<close>, \<open>Agent_Tools\<close>, \<open>Agent_Graph\<close>, \<open>Agent_Trigger\<close> (\<open>relay/agent/\<close>): the client of the
    model, the prompts and schemas, the tools, the workflow and the process around it.
    \<open>Agent_Safety\<close> interprets \<open>guarded_work\<close> for what a run may do, \<open>Agent_Bounds\<close> counts its requests,
    \<open>Agent_Contract\<close> is about reports that keep to the schema and their commit, \<open>Agent_Budget\<close> about the
    daily limit over any number of claims.
  \<^item> \<open>Flaky_Endpoint\<close>: the receiver, and what it makes of the worker's requests.  \<open>Demo_Script\<close>: the waits of
    \<open>scripts/demo.py\<close>.

  \<^bold>\<open>What is shown.\<close>  Safety under every failure: requests leave only through the gates; an entry is
  acknowledged only when its delivery is accounted for, and until then it is never lost; what was
  acquired is released; a gated delivery costs nothing; one entry causes at most one request;
  a request of a tenant stays within the tenant; the agent only proposes, never claims more than low
  confidence for what it did not test, and asks a bounded number of times.  Function: what
  ingestion, replay, an attempt and the receiver compute, and that a due delivery is made.
  Refinement and equivalence: the breaker and its specification, the revisions and the models,
  inserts and cascading deletes and the schema.  Round trips: JSON, revisions.  Bounds and
  termination: rates, slots, delays, retries, runs per day, the sweep.  Several theorems state a
  defect exactly as the code has it (a settled head that wedges an ordered queue, a reply that cannot be stored, an event
  that stops the agent); they carry the findings of the manifest.

  \<^bold>\<open>Parameters.\<close>  \<open>outside\<close> (in \<open>Agent_Tools\<close>) holds the provider of the model and its constructor, the
  resolver, the TLS handshake, and the texts of exceptions and floats; \<open>inbox\<close> what arrives on the
  channel; the inputs of the world the identifiers, draws and replies; the transport between the
  worker and the receiver is a relation with named hypotheses in \<open>Flaky_Endpoint\<close>.

  \<^bold>\<open>Conventions and bounds.\<close>  Floats of the program are rationals with the infinities and NaN
  (\<open>pyfloat\<close>) where a header can produce them, and rationals elsewhere, so rounding is not modelled.
  Columns hold what PostgreSQL can store (\<open>storable\<close>, \<open>int4\<close>); a text is a list of code points (\<open>utext\<close>)
  where the program cuts or parses it and its UTF-8 bytes otherwise.

  \<^bold>\<open>Not modelled.\<close>  Log lines and their set-up (\<open>relay/observability.py\<close>); the Prometheus client, the
  metrics and dashboard pages; signal handlers and the order of shutdown; \<open>alembic/env.py\<close>, which only
  hands a connection to Alembic; the scripts (\<open>scripts/\<close>), clients that send fixed requests and print,
  but for the waits of the demonstration (\<open>Demo_Script\<close>); pool and driver of
  the database; the internals of LangGraph and LangChain, of which the line of nodes and the messages
  are modelled; the recursion limit of the interpreter.
\<close>

end
